(* ===== verification/Prelude.thy ===== *)
theory Prelude
  imports Main "HOL-Library.Word"
begin

text \<open>
  Shared vocabulary of the development: the machine types of the 64-bit build, the ways a
  computation of the C code can end abnormally, sequencing of computations that may do so,
  the error numbers of \<^verbatim>\<open>src/cpp/xhook/xh_errno.h\<close> and generic lemmas on lists, words and
  maps that several components use.
\<close>

unbundle bit_operations_syntax

section \<open>Machine types\<close>

type_synonym u8 = "8 word"
type_synonym u16 = "16 word"
type_synonym u32 = "32 word"
type_synonym u64 = "64 word"
type_synonym addr = "64 word"

section \<open>Abnormal ends and sequencing\<close>

text \<open>
  A read of an address without read permission raises SIGSEGV (\<open>Segv\<close>), which xHook can
  catch. \<open>Undef\<close> is behaviour that C leaves undefined (a remainder by zero, a shift by the
  width of the operand or more, pointer arithmetic that overflows), which it cannot catch.
  \<open>Diverge\<close> is a loop that has used up the bound on its iterations.
\<close>

datatype trap = Segv | Undef | Diverge

type_synonym 'a res = "trap + 'a"

definition seqE :: "'a res \<Rightarrow> ('a \<Rightarrow> 'b res) \<Rightarrow> 'b res" where
  "seqE r f = (case r of Inl t \<Rightarrow> Inl t | Inr x \<Rightarrow> f x)"

lemma seqE_simps [simp]:
  "seqE (Inl t) f = Inl t"
  "seqE (Inr x) f = f x"
  by (simp_all add: seqE_def)

lemma seqE_Inr_iff: "seqE r f = Inr y \<longleftrightarrow> (\<exists>x. r = Inr x \<and> f x = Inr y)"
  by (cases r) auto

lemma seqE_InrE [elim!]:
  assumes "seqE r f = Inr y"
  obtains x where "r = Inr x" and "f x = Inr y"
  using assms by (cases r) auto

lemma seqE_Inl_iff: "seqE r f = Inl t \<longleftrightarrow> r = Inl t \<or> (\<exists>x. r = Inr x \<and> f x = Inl t)"
  by (cases r) auto

lemma seqE_assoc: "seqE (seqE r f) g = seqE r (\<lambda>x. seqE (f x) g)"
  by (cases r) simp_all

lemma seqE_cong [fundef_cong]:
  "r = r' \<Longrightarrow> (\<And>x. r' = Inr x \<Longrightarrow> f x = g x) \<Longrightarrow> seqE r f = seqE r' g"
  by (cases r') auto

section \<open>Error numbers\<close>

text \<open>The functions of xHook return an \<^verbatim>\<open>int\<close>: 0 for success or one of these.\<close>

definition XH_ERRNO_UNKNOWN :: int where "XH_ERRNO_UNKNOWN = 1001"
definition XH_ERRNO_INVAL :: int where "XH_ERRNO_INVAL = 1002"
definition XH_ERRNO_NOMEM :: int where "XH_ERRNO_NOMEM = 1003"
definition XH_ERRNO_REPEAT :: int where "XH_ERRNO_REPEAT = 1004"
definition XH_ERRNO_NOTFND :: int where "XH_ERRNO_NOTFND = 1005"
definition XH_ERRNO_BADMAPS :: int where "XH_ERRNO_BADMAPS = 1006"
definition XH_ERRNO_FORMAT :: int where "XH_ERRNO_FORMAT = 1007"
definition XH_ERRNO_ELFINIT :: int where "XH_ERRNO_ELFINIT = 1008"
definition XH_ERRNO_SEGVERR :: int where "XH_ERRNO_SEGVERR = 1009"

lemmas xh_errno_defs =
  XH_ERRNO_UNKNOWN_def XH_ERRNO_INVAL_def XH_ERRNO_NOMEM_def XH_ERRNO_REPEAT_def
  XH_ERRNO_NOTFND_def XH_ERRNO_BADMAPS_def XH_ERRNO_FORMAT_def XH_ERRNO_ELFINIT_def
  XH_ERRNO_SEGVERR_def

section \<open>Words\<close>

lemma word_of_nat_neq:
  assumes "i < 2 ^ 64" "j < 2 ^ 64" "i \<noteq> j"
  shows "(of_nat i :: 64 word) \<noteq> of_nat j"
  using assms by (simp add: word_of_nat_eq_iff take_bit_nat_eq_self)

lemma add_of_nat_neq:
  "i < 2 ^ 64 \<Longrightarrow> j < 2 ^ 64 \<Longrightarrow> i \<noteq> j \<Longrightarrow> (a :: 64 word) + of_nat i \<noteq> a + of_nat j"
  by (simp add: word_of_nat_neq)

lemma unat_add_le:
  fixes a b :: "'a::len word"
  assumes "unat a + n \<le> unat b"
  shows "unat (a + of_nat n) = unat a + n"
proof -
  have "unat b < 2 ^ LENGTH('a)"
    by (rule unsigned_less)
  with assms have "unat a + n < 2 ^ LENGTH('a)" and "n < 2 ^ LENGTH('a)"
    by linarith+
  then show ?thesis
    by (simp add: unat_word_ariths unat_of_nat)
qed

lemma unat_inc:
  fixes a b :: "'a::len word"
  assumes "a < b"
  shows "unat (a + 1) = Suc (unat a)"
  using assms unat_add_le [of a 1 b] by (simp add: word_less_nat_alt)

lemma unat_ucast_32 [simp]: "unat (ucast (x :: u32) :: u64) = unat x"
proof -
  have "unat x < 2 ^ 32" using unsigned_less [of x, where ?'a = nat] by simp
  then show ?thesis by (simp add: unsigned_ucast_eq take_bit_nat_eq_self)
qed

lemma unat_lt_64: "unat (x :: u64) < 2 ^ 64"
  using unsigned_less [of x, where ?'a = nat] by simp

lemma or_eq_add_push:
  fixes v b :: "'a::len word"
  assumes "take_bit n v = v"
  shows "v OR push_bit n b = v + push_bit n b"
proof -
  have "\<not> bit v k \<or> \<not> bit (push_bit n b) k" for k
  proof (cases "k < n")
    case True
    then show ?thesis by (simp add: bit_push_bit_iff)
  next
    case False
    then have "\<not> bit (take_bit n v) k" by (simp add: bit_take_bit_iff)
    with assms show ?thesis by simp
  qed
  then show ?thesis
    by (rule disjunctive_add [symmetric])
qed

lemma find_append: "find P (xs @ ys) = (case find P xs of Some x \<Rightarrow> Some x | None \<Rightarrow> find P ys)"
  by (induction xs) auto

end
