(* ===== verification/Memory.thy ===== *)
theory Memory
  imports Prelude
begin

text \<open>
  The process image the C code works on: one byte and one protection per address. A load
  needs \<open>PROT_READ\<close> on every byte, a store needs \<open>PROT_WRITE\<close>; an unmapped address has no
  protection bit. The multi-byte accesses are little-endian, as on the arm64 and x86_64
  builds. Strings in memory are NUL-terminated.
\<close>

record world =
  mbytes :: "addr \<Rightarrow> u8"
  mprot :: "addr \<Rightarrow> u32"

definition PROT_READ :: u32 where "PROT_READ = 1"
definition PROT_WRITE :: u32 where "PROT_WRITE = 2"
definition PROT_EXEC :: u32 where "PROT_EXEC = 4"

lemmas prot_defs = PROT_READ_def PROT_WRITE_def PROT_EXEC_def

definition readable :: "world \<Rightarrow> addr \<Rightarrow> bool" where
  "readable w a \<longleftrightarrow> mprot w a AND PROT_READ \<noteq> 0"

definition writable :: "world \<Rightarrow> addr \<Rightarrow> bool" where
  "writable w a \<longleftrightarrow> mprot w a AND PROT_WRITE \<noteq> 0"

section \<open>Loads\<close>

definition ld8 :: "world \<Rightarrow> addr \<Rightarrow> u8 res" where
  "ld8 w a = (if readable w a then Inr (mbytes w a) else Inl Segv)"

fun ld_le :: "world \<Rightarrow> nat \<Rightarrow> addr \<Rightarrow> u64 res" where
  "ld_le w 0 a = Inr 0"
| "ld_le w (Suc n) a =
     seqE (ld8 w a) (\<lambda>b. seqE (ld_le w n (a + 1)) (\<lambda>r. Inr (ucast b OR push_bit 8 r)))"

definition ld16 :: "world \<Rightarrow> addr \<Rightarrow> u16 res" where
  "ld16 w a = seqE (ld_le w 2 a) (\<lambda>v. Inr (ucast v))"

definition ld32 :: "world \<Rightarrow> addr \<Rightarrow> u32 res" where
  "ld32 w a = seqE (ld_le w 4 a) (\<lambda>v. Inr (ucast v))"

definition ld64 :: "world \<Rightarrow> addr \<Rightarrow> u64 res" where
  "ld64 w a = ld_le w 8 a"

section \<open>Stores\<close>

fun put_le :: "(addr \<Rightarrow> u8) \<Rightarrow> nat \<Rightarrow> addr \<Rightarrow> u64 \<Rightarrow> addr \<Rightarrow> u8" where
  "put_le m 0 a v = m"
| "put_le m (Suc n) a v = (put_le m n (a + 1) (drop_bit 8 v))(a := ucast v)"

fun all_writable :: "world \<Rightarrow> nat \<Rightarrow> addr \<Rightarrow> bool" where
  "all_writable w 0 a = True"
| "all_writable w (Suc n) a = (writable w a \<and> all_writable w n (a + 1))"

fun all_readable :: "world \<Rightarrow> nat \<Rightarrow> addr \<Rightarrow> bool" where
  "all_readable w 0 a = True"
| "all_readable w (Suc n) a = (readable w a \<and> all_readable w n (a + 1))"

definition st64 :: "world \<Rightarrow> addr \<Rightarrow> u64 \<Rightarrow> world res" where
  "st64 w a v =
     (if all_writable w 8 a then Inr (w\<lparr>mbytes := put_le (mbytes w) 8 a v\<rparr>) else Inl Segv)"

section \<open>C strings in memory\<close>

text \<open>
  The bytes of a C string are those of the \<^typ>\<open>string\<close> that models it, up to the
  terminating NUL, which is not part of the \<^typ>\<open>string\<close>.
\<close>

definition byte_of :: "char \<Rightarrow> u8" where
  "byte_of c = of_char c"

text \<open>
  \<open>strcmp(s, p) == 0\<close> for a string \<open>s\<close> of the program's own and a pointer \<open>p\<close> into the image:
  the bytes are read one by one up to the first difference or the end of \<open>s\<close>.
\<close>

fun strcmp_eq :: "world \<Rightarrow> string \<Rightarrow> addr \<Rightarrow> bool res" where
  "strcmp_eq w [] p = seqE (ld8 w p) (\<lambda>b. Inr (b = 0))"
| "strcmp_eq w (c # cs) p =
     seqE (ld8 w p) (\<lambda>b. if b = byte_of c then strcmp_eq w cs (p + 1) else Inr False)"

text \<open>\<open>cstr_at w p s\<close>: the NUL-terminated string at \<open>p\<close> is \<open>s\<close>.\<close>

fun cstr_at :: "world \<Rightarrow> addr \<Rightarrow> string \<Rightarrow> bool" where
  "cstr_at w p [] = (ld8 w p = Inr 0)"
| "cstr_at w p (c # cs) = (c \<noteq> CHR 0x00 \<and> ld8 w p = Inr (byte_of c) \<and> cstr_at w (p + 1) cs)"

lemma unat_byte_of: "unat (byte_of c) = of_char c"
proof -
  have "byte_of c = of_nat (of_char c)"
    by (simp add: byte_of_def of_nat_of_char)
  then show ?thesis
    by (simp add: unat_of_nat take_bit_nat_eq_self)
qed

lemma byte_of_inj [simp]: "byte_of c = byte_of d \<longleftrightarrow> c = d"
  by (metis unat_byte_of of_char_eq_iff)

lemma byte_of_eq_0 [simp]: "byte_of c = 0 \<longleftrightarrow> c = CHR 0x00"
proof -
  have "byte_of (CHR 0x00) = 0" by (simp add: byte_of_def)
  then show ?thesis by (metis byte_of_inj)
qed

lemma byte_of_neq_0: "CHR 0x00 \<notin> set (c # cs) \<Longrightarrow> byte_of c \<noteq> 0"
  by auto

lemma strcmp_eq_cstr_at:
  assumes "cstr_at w p t" and "CHR 0x00 \<notin> set s"
  shows "strcmp_eq w s p = Inr (s = t)"
  using assms
proof (induction w p t arbitrary: s rule: cstr_at.induct)
  case (1 w p)
  then show ?case by (cases s) auto
next
  case (2 w p c cs)
  then show ?case by (cases s) auto
qed

text \<open>\<open>bytes_at w a bs\<close>: the readable bytes at \<open>a\<close>, \<open>a + 1\<close>, and so on, are \<open>bs\<close>.\<close>

fun bytes_at :: "world \<Rightarrow> addr \<Rightarrow> u8 list \<Rightarrow> bool" where
  "bytes_at w a [] = True"
| "bytes_at w a (b # bs) = (ld8 w a = Inr b \<and> bytes_at w (a + 1) bs)"

lemma bytes_at_append:
  "bytes_at w a (xs @ ys) \<longleftrightarrow> bytes_at w a xs \<and> bytes_at w (a + of_nat (length xs)) ys"
  by (induction xs arbitrary: a) (auto simp: add.assoc)

text \<open>A concrete image, for examples: pieces of bytes at given addresses, 0 elsewhere.\<close>

fun image :: "(addr \<times> u8 list) list \<Rightarrow> addr \<Rightarrow> u8" where
  "image [] a = 0"
| "image ((base, bs) # pieces) a =
     (if a - base < of_nat (length bs) then bs ! unat (a - base) else image pieces a)"

section \<open>Reading back what was stored\<close>

lemma put_le_other:
  "(\<And>k. k < n \<Longrightarrow> b \<noteq> a + of_nat k) \<Longrightarrow> put_le m n a v b = m b"
proof (induction n arbitrary: a v)
  case 0
  then show ?case by simp
next
  case (Suc n)
  have "b \<noteq> a" using Suc.prems [of 0] by simp
  moreover have "put_le m n (a + 1) (drop_bit 8 v) b = m b"
  proof (rule Suc.IH)
    fix k assume "k < n"
    then show "b \<noteq> a + 1 + of_nat k"
      using Suc.prems [of "Suc k"] by (simp add: add.assoc)
  qed
  ultimately show ?case by simp
qed

lemma all_readable_cong:
  "mprot w = mprot w' \<Longrightarrow> all_readable w n a = all_readable w' n a"
  by (induction n arbitrary: a) (simp_all add: readable_def)

lemma all_writable_cong:
  "mprot w = mprot w' \<Longrightarrow> all_writable w n a = all_writable w' n a"
  by (induction n arbitrary: a) (simp_all add: writable_def)

lemma all_readable_iff:
  "all_readable w n a \<longleftrightarrow> (\<forall>k<n. readable w (a + of_nat k))"
proof (induction n arbitrary: a)
  case (Suc n)
  have "(\<forall>k<Suc n. readable w (a + of_nat k)) \<longleftrightarrow>
      readable w a \<and> (\<forall>k<n. readable w (a + 1 + of_nat k))"
    by (simp add: All_less_Suc2 add.assoc)
  with Suc.IH show ?case by simp
qed simp

lemma all_writable_iff: "all_writable w n a \<longleftrightarrow> (\<forall>k<n. writable w (a + of_nat k))"
proof (induction n arbitrary: a)
  case (Suc n)
  have "(\<forall>k<Suc n. writable w (a + of_nat k)) \<longleftrightarrow>
      writable w a \<and> (\<forall>k<n. writable w (a + 1 + of_nat k))"
    by (simp add: All_less_Suc2 add.assoc)
  with Suc.IH show ?case by simp
qed simp

lemma ld_le_cong:
  "(\<And>k. k < n \<Longrightarrow> ld8 w (a + of_nat k) = ld8 w' (a + of_nat k)) \<Longrightarrow> ld_le w n a = ld_le w' n a"
proof (induction n arbitrary: a)
  case 0
  then show ?case by simp
next
  case (Suc n)
  have "ld8 w a = ld8 w' a" using Suc.prems [of 0] by simp
  moreover have "ld_le w n (a + 1) = ld_le w' n (a + 1)"
    using Suc.prems [of "Suc k" for k] by (intro Suc.IH) (simp add: add.assoc)
  ultimately show ?case by simp
qed

lemma ld_le_total: "all_readable w n a \<Longrightarrow> \<exists>v. ld_le w n a = Inr v"
  by (induction n arbitrary: a) (force simp: ld8_def)+

lemma ld_le_put_le:
  assumes "all_readable w n a" and "n \<le> 8"
  shows "ld_le (w\<lparr>mbytes := put_le (mbytes w) n a v\<rparr>) n a = Inr (take_bit (8 * n) v)"
  using assms
proof (induction n arbitrary: a v)
  case 0
  then show ?case by simp
next
  case (Suc n)
  let ?w = "w\<lparr>mbytes := put_le (mbytes w) (Suc n) a v\<rparr>"
  let ?w' = "w\<lparr>mbytes := put_le (mbytes w) n (a + 1) (drop_bit 8 v)\<rparr>"
  have "ld_le ?w n (a + 1) = ld_le ?w' n (a + 1)"
  proof (rule ld_le_cong)
    fix k assume "k < n"
    then have "a + 1 + of_nat k \<noteq> a + of_nat 0"
      using Suc.prems(2) add_of_nat_neq [of "Suc k" 0 a] by (simp add: add.assoc)
    then show "ld8 ?w (a + 1 + of_nat k) = ld8 ?w' (a + 1 + of_nat k)"
      by (simp add: ld8_def readable_def)
  qed
  also have "\<dots> = Inr (take_bit (8 * n) (drop_bit 8 v))"
    using Suc.prems by (intro Suc.IH) simp_all
  finally have rest: "ld_le ?w n (a + 1) = Inr (take_bit (8 * n) (drop_bit 8 v))" .
  have "ld8 ?w a = Inr (ucast v)"
    using Suc.prems by (simp add: ld8_def readable_def)
  moreover have "ucast (ucast v :: u8) OR push_bit 8 (take_bit (8 * n) (drop_bit 8 v))
      = take_bit (8 * Suc n) v"
    by (rule bit_eqI)
      (auto simp: bit_simps)
  ultimately show ?case
    by (simp only: ld_le.simps rest seqE_simps)
qed

lemma ld_st_other: "st64 w a v = Inr w' \<Longrightarrow> (\<And>k. k < 8 \<Longrightarrow> b \<noteq> a + of_nat k) \<Longrightarrow> ld8 w' b = ld8 w b"
  by (auto simp: st64_def ld8_def readable_def put_le_other split: if_splits)

lemma ld64_st64:
  assumes "st64 w a v = Inr w'" and "all_readable w 8 a"
  shows "ld64 w' a = Inr v"
proof -
  have "w' = w\<lparr>mbytes := put_le (mbytes w) 8 a v\<rparr>"
    using assms(1) by (simp add: st64_def split: if_splits)
  then show ?thesis
    using ld_le_put_le [OF assms(2), of v] by (simp add: ld64_def take_bit_word_eq_self)
qed

lemma st64_mprot: "st64 w a v = Inr w' \<Longrightarrow> mprot w' = mprot w"
  by (auto simp: st64_def split: if_splits)

lemma st64_mbytes_other:
  "st64 w a v = Inr w' \<Longrightarrow> (\<And>k. k < 8 \<Longrightarrow> b \<noteq> a + of_nat k) \<Longrightarrow> mbytes w' b = mbytes w b"
  by (auto simp: st64_def put_le_other split: if_splits)

lemma st64_trap: "st64 w a v = Inl t \<Longrightarrow> t = Segv"
  by (auto simp: st64_def split: if_splits)

lemma ld8_trap: "ld8 w a = Inl t \<Longrightarrow> t = Segv"
  by (auto simp: ld8_def split: if_splits)

lemma ld_le_trap: "ld_le w n a = Inl t \<Longrightarrow> t = Segv"
  by (induction n arbitrary: a) (auto simp: seqE_Inl_iff dest: ld8_trap)

lemma ld_trap:
  "ld16 w a = Inl t \<Longrightarrow> t = Segv"
  "ld32 w a = Inl t \<Longrightarrow> t = Segv"
  "ld64 w a = Inl t \<Longrightarrow> t = Segv"
  by (auto simp: ld16_def ld32_def ld64_def seqE_Inl_iff dest: ld_le_trap)

lemma strcmp_eq_trap: "strcmp_eq w s p = Inl t \<Longrightarrow> t = Segv"
  by (induction w s p rule: strcmp_eq.induct)
    (auto simp: seqE_Inl_iff split: if_splits dest: ld8_trap)

lemmas only_segv = ld8_trap ld_le_trap ld_trap strcmp_eq_trap st64_trap

section \<open>Concrete images\<close>

text \<open>
  For examples: an image given by its 8-byte words at aligned addresses, 0 elsewhere. A load
  that stays inside a word is a shift of that word.
\<close>

definition word_at :: "(addr \<times> u64) list \<Rightarrow> addr \<Rightarrow> u64" where
  "word_at ws a = (case map_of ws (a - (a AND 7)) of None \<Rightarrow> 0 | Some v \<Rightarrow> v)"

definition word_image :: "(addr \<times> u64) list \<Rightarrow> addr \<Rightarrow> u8" where
  "word_image ws a = ucast (drop_bit (8 * unat (a AND 7)) (word_at ws a))"

lemma unat_and_7: "unat (a AND 7 :: u64) = unat a mod 8"
proof -
  have "a AND 7 = take_bit 3 a" by (simp add: take_bit_eq_mask mask_eq_exp_minus_1)
  then show ?thesis by (simp add: unsigned_take_bit_eq take_bit_eq_mod unat_mod)
qed

lemma and_7_inc:
  fixes a :: u64
  assumes "unat (a AND 7) < 7"
  shows "(a + 1) AND 7 = (a AND 7) + 1"
proof -
  have a: "unat a mod 8 < 7" using assms by (simp add: unat_and_7)
  have "unat a \<noteq> 2 ^ 64 - 1" using a by auto
  then have "unat a + 1 < 2 ^ 64" using unat_lt_64 [of a] by linarith
  then have "unat (a + 1) = unat a + 1" by (simp add: unat_word_ariths)
  then have "unat ((a + 1) AND 7) = unat a mod 8 + 1"
    using a unfolding unat_and_7 by presburger
  moreover have "unat ((a AND 7) + 1) = unat a mod 8 + 1"
    using a by (simp add: unat_word_ariths unat_and_7)
  ultimately show ?thesis by (simp add: word_unat_eq_iff)
qed

lemma byte_or_rest:
  "ucast (ucast (drop_bit k v) :: u8) OR push_bit 8 (take_bit m (drop_bit (8 + k) v))
     = take_bit (8 + m) (drop_bit k (v :: u64))"
  by (rule bit_eqI) (auto simp: bit_simps)

lemma ld_le_word:
  assumes "mbytes w = word_image ws" and "all_readable w n a" and "unat (a AND 7) + n \<le> 8"
  shows "ld_le w n a = Inr (take_bit (8 * n) (drop_bit (8 * unat (a AND 7)) (word_at ws a)))"
  using assms(2,3)
proof (induction n arbitrary: a)
  case 0
  then show ?case by simp
next
  case (Suc n)
  have b: "ld8 w a = Inr (ucast (drop_bit (8 * unat (a AND 7)) (word_at ws a)))"
    using Suc.prems by (simp add: ld8_def assms(1) word_image_def)
  have rest: "ld_le w n (a + 1)
      = Inr (take_bit (8 * n) (drop_bit (8 + 8 * unat (a AND 7)) (word_at ws a)))"
  proof (cases "n = 0")
    case False
    with Suc.prems have "unat (a AND 7) < 7" by simp
    note inc = and_7_inc [OF this]
    have "unat ((a AND 7) + 1) = Suc (unat (a AND 7))"
      using \<open>unat (a AND 7) < 7\<close> by (simp add: unat_word_ariths)
    then show ?thesis
      using Suc.IH [of "a + 1"] Suc.prems by (simp add: inc word_at_def)
  qed simp
  show ?case
    by (simp only: ld_le.simps b rest seqE_simps byte_or_rest) simp
qed

lemma ucast_take_bit:
  "ucast (take_bit 16 (v :: u64)) = (ucast v :: u16)" "ucast (take_bit 32 v) = (ucast v :: u32)"
  by (rule bit_eqI; auto simp: bit_simps)+

lemma ld_word:
  assumes "mbytes w = word_image ws"
  shows "readable w a \<Longrightarrow> ld8 w a = Inr (ucast (drop_bit (8 * unat (a AND 7)) (word_at ws a)))"
    and "unat (a AND 7) \<le> 6 \<Longrightarrow> all_readable w 2 a \<Longrightarrow>
      ld16 w a = Inr (ucast (drop_bit (8 * unat (a AND 7)) (word_at ws a)))"
    and "unat (a AND 7) \<le> 4 \<Longrightarrow> all_readable w 4 a \<Longrightarrow>
      ld32 w a = Inr (ucast (drop_bit (8 * unat (a AND 7)) (word_at ws a)))"
    and "a AND 7 = 0 \<Longrightarrow> all_readable w 8 a \<Longrightarrow> ld64 w a = Inr (word_at ws a)"
  using ld_le_word [OF assms, of 2 a] ld_le_word [OF assms, of 4 a] ld_le_word [OF assms, of 8 a]
  by (simp_all add: ld8_def assms word_image_def ld16_def ld32_def ld64_def ucast_take_bit
      take_bit_word_eq_self)

lemma all_readable_unfold:
  "all_readable w 2 a \<longleftrightarrow> readable w a \<and> readable w (a + 1)"
  "all_readable w 4 a \<longleftrightarrow> readable w a \<and> readable w (a + 1) \<and> readable w (a + 2) \<and> readable w (a + 3)"
  "all_readable w 8 a \<longleftrightarrow> readable w a \<and> readable w (a + 1) \<and> readable w (a + 2) \<and> readable w (a + 3) \<and>
     readable w (a + 4) \<and> readable w (a + 5) \<and> readable w (a + 6) \<and> readable w (a + 7)"
  by (simp_all add: eval_nat_numeral add.assoc)

end
