(* ===== verification/Sleb128.thy ===== *)
theory Sleb128
  imports Memory
begin

text \<open>
  The signed LEB128 decoder of \<^verbatim>\<open>xh_elf.c\<close> (\<open>xh_elf_sleb128_decoder_*\<close>), which reads the
  packed relocations of Android. \<open>sleb128_encode\<close> is the reference encoder of the format; the
  decoder is proved to be its inverse on every value that a 64-bit \<open>size_t\<close> can stand for.
\<close>

record sleb128_decoder =
  dcur :: addr
  dend :: addr

definition xh_elf_sleb128_decoder_init :: "addr \<Rightarrow> u32 \<Rightarrow> sleb128_decoder" where
  "xh_elf_sleb128_decoder_init rel rel_sz = \<lparr>dcur = rel, dend = rel + ucast rel_sz\<rparr>"

text \<open>
  The do-while loop: the new \<open>cur\<close>, and \<open>None\<close> when the input ends inside a value or the
  accumulated value, the final shift and the last byte. A shift by 64 or more is undefined in C.
\<close>

function sleb128_loop ::
    "world \<Rightarrow> addr \<Rightarrow> addr \<Rightarrow> u64 \<Rightarrow> nat \<Rightarrow> (addr \<times> (u64 \<times> nat \<times> u8) option) res" where
  "sleb128_loop w cur ende val shift =
     (if ende \<le> cur then Inr (cur, None)
      else seqE (ld8 w cur) (\<lambda>byte.
        if 64 \<le> shift then Inl Undef
        else
          (let val = val OR push_bit shift (ucast (byte AND 127)) in
           if byte AND 128 \<noteq> 0 then sleb128_loop w (cur + 1) ende val (shift + 7)
           else Inr (cur + 1, Some (val, shift + 7, byte)))))"
  by pat_completeness auto
termination
  by (relation "measure (\<lambda>(w, cur, ende, val, shift). unat ende - unat cur)")
    (auto simp: unat_inc word_less_nat_alt word_le_nat_alt not_le)

declare sleb128_loop.simps [simp del]

definition xh_elf_sleb128_decoder_next ::
    "world \<Rightarrow> sleb128_decoder \<Rightarrow> ((int + u64) \<times> sleb128_decoder) res" where
  "xh_elf_sleb128_decoder_next w self =
     seqE (sleb128_loop w (dcur self) (dend self) 0 0) (\<lambda>(cur, out).
       let self = self\<lparr>dcur := cur\<rparr> in
       case out of
         None \<Rightarrow> Inr (Inl XH_ERRNO_FORMAT, self)
       | Some (val, shift, byte) \<Rightarrow>
           Inr (Inr (if shift < 64 \<and> byte AND 64 \<noteq> 0 then val OR (- push_bit shift 1) else val),
                self))"

section \<open>The reference encoder\<close>

function sleb128_encode :: "int \<Rightarrow> u8 list" where
  "sleb128_encode v =
     (if - 64 \<le> v \<and> v < 64 then [of_int (v mod 128)]
      else of_int (v mod 128 + 128) # sleb128_encode (v div 128))"
  by pat_completeness auto
termination
  by (relation "measure (\<lambda>v. nat \<bar>v\<bar>)") auto

declare sleb128_encode.simps [simp del]

text \<open>The bit tests of the decoder on the bytes of the encoder.\<close>

lemma and_pow2_iff: "(x :: u8) AND 128 \<noteq> 0 \<longleftrightarrow> bit x 7" "(x :: u8) AND 64 \<noteq> 0 \<longleftrightarrow> bit x 6"
  using bit_iff_and_push_bit_not_eq_0 [of x 7] bit_iff_and_push_bit_not_eq_0 [of x 6]
  by simp_all

lemma low7: "(x :: u8) AND 127 = take_bit 7 x"
  by (simp add: take_bit_eq_mask mask_eq_exp_minus_1)

lemma digit7: "(of_int (v mod 128) :: u64) = ucast (take_bit 7 (of_int v :: u8))"
  by (rule bit_eqI) (auto simp: bit_simps simp flip: take_bit_int_def [of 7, simplified])

lemma more_bits: "(of_int (v mod 128 + 128) :: u8) = take_bit 7 (of_int v) OR 128"
proof -
  have "(of_int (v mod 128 + 128) :: u8) = take_bit 7 (of_int v) + push_bit 7 1"
    by (simp add: take_bit_of_int take_bit_int_def)
  also have "\<dots> = take_bit 7 (of_int v) OR push_bit 7 1"
    by (rule or_eq_add_push [symmetric]) simp
  finally show ?thesis by simp
qed

lemma byte_last:
  assumes "- 64 \<le> v" "v < 64"
  shows "(of_int (v mod 128) :: u8) AND 128 = 0"
    and "(of_int (v mod 128) :: u8) AND 64 \<noteq> 0 \<longleftrightarrow> v < 0"
    and "(ucast ((of_int (v mod 128) :: u8) AND 127) :: u64) = of_int (v mod 128)"
proof -
  have v7: "v mod 128 = take_bit 7 v" by (simp add: take_bit_int_def)
  have "\<not> bit (of_int (v mod 128) :: u8) 7"
    by (simp add: v7 bit_word_of_int_iff bit_take_bit_iff)
  then show "(of_int (v mod 128) :: u8) AND 128 = 0"
    using and_pow2_iff(1) by blast
  have "bit (of_int (v mod 128) :: u8) 6 \<longleftrightarrow> bit v 6"
    by (simp add: v7 bit_word_of_int_iff bit_take_bit_iff)
  also have "\<dots> \<longleftrightarrow> odd (v div 64)"
    by (simp add: bit_iff_odd)
  also have "\<dots> \<longleftrightarrow> v < 0"
  proof (cases "v < 0")
    case True
    then have "v div 64 = -1" using assms by linarith
    with True show ?thesis by simp
  next
    case False
    then have "v div 64 = 0" using assms by linarith
    with False show ?thesis by simp
  qed
  finally show "(of_int (v mod 128) :: u8) AND 64 \<noteq> 0 \<longleftrightarrow> v < 0"
    using and_pow2_iff(2) by blast
  show "(ucast ((of_int (v mod 128) :: u8) AND 127) :: u64) = of_int (v mod 128)"
    unfolding low7 digit7 unfolding v7 take_bit_of_int by simp
qed

lemma byte_more:
  "(of_int (v mod 128 + 128) :: u8) AND 128 \<noteq> 0"
  "(ucast ((of_int (v mod 128 + 128) :: u8) AND 127) :: u64) = of_int (v mod 128)"
proof -
  have b128: "bit (128 :: u8) k \<longleftrightarrow> k = 7" for k
    using bit_push_bit_iff [of 7 "1 :: u8" k] by (auto simp: bit_1_iff dest: bit_imp_le_length)
  show "(of_int (v mod 128 + 128) :: u8) AND 128 \<noteq> 0"
    unfolding and_pow2_iff more_bits by (simp add: bit_or_iff b128)
  have "(of_int (v mod 128 + 128) :: u8) AND 127 = take_bit 7 (of_int v)"
    unfolding low7 more_bits by (rule bit_eqI) (auto simp: bit_simps b128)
  then show "(ucast ((of_int (v mod 128 + 128) :: u8) AND 127) :: u64) = of_int (v mod 128)"
    by (simp add: digit7)
qed

section \<open>Decoding what was encoded\<close>

lemma sleb128_encode_nonempty: "sleb128_encode v \<noteq> []"
  by (subst sleb128_encode.simps) simp

text \<open>The value that the decoder returns after the loop has stopped with \<open>out\<close>.\<close>

definition sleb128_value :: "u64 \<times> nat \<times> u8 \<Rightarrow> u64" where
  "sleb128_value = (\<lambda>(val, shift, byte).
     if shift < 64 \<and> byte AND 64 \<noteq> 0 then val OR (- push_bit shift 1) else val)"

lemma take_bit_acc:
  fixes val x :: u64
  assumes "take_bit n val = val" "0 \<le> m" "m < 128"
  shows "take_bit (n + 7) (val OR push_bit n (of_int m)) = val OR push_bit n (of_int m)"
proof (rule bit_eqI)
  fix k
  have "m = take_bit 7 m" using assms by (simp add: take_bit_int_eq_self)
  then have "\<not> bit m (k - n)" if "n + 7 \<le> k"
    using that by (metis bit_take_bit_iff le_diff_conv2 add.commute add_leD1 not_le)
  moreover have "\<not> bit val k" if "n \<le> k"
    using that assms(1) by (metis bit_take_bit_iff not_le)
  ultimately show "bit (take_bit (n + 7) (val OR push_bit n (of_int m))) k
      = bit (val OR push_bit n (of_int m)) k"
    by (auto simp: bit_simps)
qed

lemma or_minus_push:
  fixes val :: u64
  assumes "take_bit n val = val"
  shows "val OR (- push_bit n 1) = val - push_bit n 1"
proof -
  have "val OR push_bit n (- 1) = val + push_bit n (- 1)"
    by (rule or_eq_add_push [OF assms])
  then show ?thesis by (simp add: push_bit_eq_mult)
qed

lemma word_exp_zero: "64 \<le> n \<Longrightarrow> (2 :: u64) ^ n = 0"
  by (rule exp_eq_zero_iff [THEN iffD2]) simp

lemma digit_shift: "(r :: int) * 2 ^ n + q * 2 ^ (n + 7) = (q * 128 + r) * 2 ^ n"
  by (simp add: power_add algebra_simps)

lemma sleb128_loop_encode:
  assumes "bytes_at w cur (sleb128_encode v)"
    and "unat cur + length (sleb128_encode v) \<le> unat ende"
    and "take_bit shift val = val" and "shift < 64"
    and "- (2 ^ (63 - shift)) \<le> v" and "v < 2 ^ (63 - shift)"
  shows "\<exists>out. sleb128_loop w cur ende val shift
      = Inr (cur + of_nat (length (sleb128_encode v)), Some out)
    \<and> sleb128_value out = val + of_int (v * 2 ^ shift)"
  using assms
proof (induction v arbitrary: cur val shift rule: sleb128_encode.induct)
  case (1 v)
  have lt: "\<not> ende \<le> cur"
    using "1.prems"(2) sleb128_encode_nonempty [of v]
    by (cases "sleb128_encode v") (auto simp: word_le_nat_alt)
  let ?val = "val OR push_bit shift (of_int (v mod 128))"
  have val: "?val = val + of_int (v mod 128 * 2 ^ shift)"
    using or_eq_add_push [OF "1.prems"(3)] by (simp add: push_bit_eq_mult)
  have acc: "take_bit (shift + 7) ?val = ?val"
    by (rule take_bit_acc [OF "1.prems"(3)]) simp_all
  show ?case
  proof (cases "- 64 \<le> v \<and> v < 64")
    case True
    then have enc: "sleb128_encode v = [of_int (v mod 128)]"
      by (simp add: sleb128_encode.simps)
    let ?b = "of_int (v mod 128) :: u8"
    have ld: "ld8 w cur = Inr ?b" using "1.prems"(1) enc by simp
    have loop: "sleb128_loop w cur ende val shift = Inr (cur + 1, Some (?val, shift + 7, ?b))"
      using lt ld "1.prems"(4) byte_last(1,3) True
      by (subst sleb128_loop.simps) simp
    have "sleb128_value (?val, shift + 7, ?b) = val + of_int (v * 2 ^ shift)"
    proof (cases "v < 0")
      case True
      then have m: "v mod 128 = v + 128" using \<open>- 64 \<le> v \<and> v < 64\<close> by presburger
      have "sleb128_value (?val, shift + 7, ?b) = ?val - push_bit (shift + 7) 1"
        using or_minus_push [OF acc] byte_last(2) [of v] True \<open>- 64 \<le> v \<and> v < 64\<close>
        by (simp add: sleb128_value_def word_exp_zero not_less)
      also have "\<dots> = val + of_int (v mod 128 * 2 ^ shift - 128 * 2 ^ shift)"
        unfolding val by (simp add: push_bit_eq_mult power_add)
      finally show ?thesis by (simp add: m algebra_simps)
    next
      case False
      then have "v mod 128 = v" using \<open>- 64 \<le> v \<and> v < 64\<close> by simp
      then show ?thesis
        using byte_last(2) [of v] False \<open>- 64 \<le> v \<and> v < 64\<close> val
        by (simp add: sleb128_value_def)
    qed
    with loop enc show ?thesis by simp
  next
    case False
    let ?b = "of_int (v mod 128 + 128) :: u8"
    have enc: "sleb128_encode v = ?b # sleb128_encode (v div 128)"
      using False by (subst sleb128_encode.simps) simp
    have ld: "ld8 w cur = Inr ?b" using "1.prems"(1) enc by simp
    have "\<not> 63 - shift \<le> 6"
    proof
      assume "63 - shift \<le> 6"
      then have "(2 :: int) ^ (63 - shift) \<le> 2 ^ 6" by (rule power_increasing) simp
      with "1.prems"(5,6) False show False by simp
    qed
    then have sh: "shift + 7 < 64" by simp
    have e: "63 - shift = 7 + (63 - (shift + 7))"
      using sh by simp
    have "(2 :: int) ^ (63 - shift) = 128 * 2 ^ (63 - (shift + 7))"
      by (subst e) (simp only: power_add, simp)
    then have range: "- (2 ^ (63 - (shift + 7))) \<le> v div 128" "v div 128 < 2 ^ (63 - (shift + 7))"
      using "1.prems"(5,6) by linarith+
    have loop: "sleb128_loop w cur ende val shift
        = sleb128_loop w (cur + 1) ende ?val (shift + 7)"
      using lt ld "1.prems"(4) byte_more
      by (subst sleb128_loop.simps) simp
    have "\<exists>out. sleb128_loop w (cur + 1) ende ?val (shift + 7)
        = Inr (cur + 1 + of_nat (length (sleb128_encode (v div 128))), Some out)
      \<and> sleb128_value out = ?val + of_int (v div 128 * 2 ^ (shift + 7))"
    proof (rule "1.IH" [OF False])
      show "unat (cur + 1) + length (sleb128_encode (v div 128)) \<le> unat ende"
        using lt enc "1.prems"(2) by (simp add: unat_inc not_le)
    qed (use "1.prems"(1) enc acc sh range in simp_all)
    then obtain out where out: "sleb128_loop w (cur + 1) ende ?val (shift + 7)
        = Inr (cur + 1 + of_nat (length (sleb128_encode (v div 128))), Some out)"
      "sleb128_value out = ?val + of_int (v div 128 * 2 ^ (shift + 7))" by blast
    have "v mod 128 * 2 ^ shift + v div 128 * 2 ^ (shift + 7) = (v div 128 * 128 + v mod 128) * 2 ^ shift"
      using digit_shift [of "v mod 128" shift "v div 128"] .
    also have "\<dots> = v * 2 ^ shift" by (simp only: div_mult_mod_eq)
    finally have "?val + of_int (v div 128 * 2 ^ (shift + 7)) = val + of_int (v * 2 ^ shift)"
      unfolding val add.assoc of_int_add [symmetric] by (simp only:)
    with out loop enc show ?thesis by (simp add: add.assoc)
  qed
qed

lemma sleb128_decoder_next_encode:
  assumes "bytes_at w (dcur self) (sleb128_encode v)"
    and "unat (dcur self) + length (sleb128_encode v) \<le> unat (dend self)"
    and "- (2 ^ 63) \<le> v" and "v < 2 ^ 63"
  shows "xh_elf_sleb128_decoder_next w self =
    Inr (Inr (of_int v), self\<lparr>dcur := dcur self + of_nat (length (sleb128_encode v))\<rparr>)"
proof -
  obtain out where
    "sleb128_loop w (dcur self) (dend self) 0 0
      = Inr (dcur self + of_nat (length (sleb128_encode v)), Some out)"
    and "sleb128_value out = of_int v"
    using sleb128_loop_encode [OF assms(1,2), of 0 0] assms(3,4) by auto
  then show ?thesis
    by (cases out) (simp add: xh_elf_sleb128_decoder_next_def sleb128_value_def)
qed

section \<open>Errors and termination\<close>

lemma sleb128_loop_returns: "sleb128_loop w cur ende val shift \<noteq> Inl Diverge"
proof (induction w cur ende val shift rule: sleb128_loop.induct)
  case (1 w cur ende val shift)
  show ?case
    using "1.IH" by (subst sleb128_loop.simps) (auto simp: seqE_Inl_iff Let_def dest: ld8_trap)
qed

lemma sleb128_decoder_next_returns: "xh_elf_sleb128_decoder_next w self \<noteq> Inl Diverge"
  using sleb128_loop_returns [of w "dcur self" "dend self" 0 0]
  by (auto simp: xh_elf_sleb128_decoder_next_def seqE_Inl_iff Let_def split: option.splits prod.splits)

lemma sleb128_decoder_next_error:
  "xh_elf_sleb128_decoder_next w self = Inr (Inl e, self') \<Longrightarrow> e = XH_ERRNO_FORMAT"
  by (auto simp: xh_elf_sleb128_decoder_next_def Let_def split: option.splits prod.splits)

end
