(* ===== verification/RelocIter.thy ===== *)
theory RelocIter
  imports Sleb128
begin

text \<open>
  The two relocation iterators of \<^verbatim>\<open>xh_elf.c\<close>: over a plain table of \<open>Elf64_Rel\<close> or
  \<open>Elf64_Rela\<close> entries (\<open>xh_elf_plain_reloc_iterator_*\<close>) and over the packed SLEB128 format
  of Android (\<open>xh_elf_packed_reloc_iterator_*\<close>). The packed format is stated on its own
  (\<open>reloc_group\<close>, \<open>groups_words\<close>, \<open>groups_relocs\<close>), and the iterator is proved to return
  exactly the relocations that were packed.
\<close>

text \<open>
  What \<open>next\<close> hands to its caller: a pointer to an entry in the image, or a pointer to the
  entry the packed iterator holds itself (its \<open>r_offset\<close> and \<open>r_info\<close>).
\<close>

datatype rel_common = RelInImage addr | RelInIter u64 u64

section \<open>Plain tables\<close>

record plain_reloc_iterator =
  p_cur :: addr
  p_end :: addr
  p_is_use_rela :: bool

definition xh_elf_plain_reloc_iterator_init :: "addr \<Rightarrow> u32 \<Rightarrow> bool \<Rightarrow> plain_reloc_iterator" where
  "xh_elf_plain_reloc_iterator_init rel rel_sz is_use_rela =
     \<lparr>p_cur = rel, p_end = rel + ucast rel_sz, p_is_use_rela = is_use_rela\<rparr>"

text \<open>\<open>sizeof(Elf64_Rela)\<close> and \<open>sizeof(Elf64_Rel)\<close>.\<close>

definition rel_size :: "bool \<Rightarrow> u64" where
  "rel_size is_use_rela = (if is_use_rela then 24 else 16)"

text \<open>Advancing \<open>cur\<close> past the end of the address space is undefined in C.\<close>

definition xh_elf_plain_reloc_iterator_next ::
    "plain_reloc_iterator \<Rightarrow> (rel_common option \<times> plain_reloc_iterator) res" where
  "xh_elf_plain_reloc_iterator_next self =
     (if p_end self \<le> p_cur self then Inr (None, self)
      else let ret = p_cur self; next = ret + rel_size (p_is_use_rela self) in
        if next < ret then Inl Undef
        else Inr (Some (RelInImage ret), self\<lparr>p_cur := next\<rparr>))"

section \<open>Packed tables\<close>

record packed_reloc_iterator =
  decoder :: sleb128_decoder
  relocation_count :: u64
  group_size :: u64
  group_flags :: u64
  group_r_offset_delta :: u64
  relocation_index :: u64
  relocation_group_index :: u64
  k_rela :: "u64 \<times> u64 \<times> u64"
  k_rel :: "u64 \<times> u64"
  k_r_offset :: u64
  k_r_info :: u64
  k_r_addend :: u64
  k_is_use_rela :: bool

definition RELOCATION_GROUPED_BY_INFO_FLAG :: u64 where
  "RELOCATION_GROUPED_BY_INFO_FLAG = 1"
definition RELOCATION_GROUPED_BY_OFFSET_DELTA_FLAG :: u64 where
  "RELOCATION_GROUPED_BY_OFFSET_DELTA_FLAG = 2"
definition RELOCATION_GROUPED_BY_ADDEND_FLAG :: u64 where
  "RELOCATION_GROUPED_BY_ADDEND_FLAG = 4"
definition RELOCATION_GROUP_HAS_ADDEND_FLAG :: u64 where
  "RELOCATION_GROUP_HAS_ADDEND_FLAG = 8"

lemmas flag_defs =
  RELOCATION_GROUPED_BY_INFO_FLAG_def RELOCATION_GROUPED_BY_OFFSET_DELTA_FLAG_def
  RELOCATION_GROUPED_BY_ADDEND_FLAG_def RELOCATION_GROUP_HAS_ADDEND_FLAG_def

text \<open>\<open>flags & flag\<close> as a condition.\<close>

definition has_flag :: "u64 \<Rightarrow> u64 \<Rightarrow> bool" where
  "has_flag flags flag \<longleftrightarrow> flags AND flag \<noteq> 0"

text \<open>
  The recurring step \<open>if(0 != (r = xh_elf_sleb128_decoder_next(&(self->decoder), ...))) return r;\<close>:
  on an error the decoder has still moved; on a value the rest \<open>k\<close> of the function goes on.
  \<open>next_if\<close> is the same step under a condition, storing the value with \<open>upd\<close>.
\<close>

definition with_next ::
    "world \<Rightarrow> packed_reloc_iterator \<Rightarrow> (u64 \<Rightarrow> packed_reloc_iterator \<Rightarrow> (int \<times> packed_reloc_iterator) res)
      \<Rightarrow> (int \<times> packed_reloc_iterator) res" where
  "with_next w self k = seqE (xh_elf_sleb128_decoder_next w (decoder self)) (\<lambda>(r, d).
     let self = self\<lparr>decoder := d\<rparr> in
     case r of Inl e \<Rightarrow> Inr (e, self) | Inr v \<Rightarrow> k v self)"

definition next_if ::
    "world \<Rightarrow> bool \<Rightarrow> (u64 \<Rightarrow> packed_reloc_iterator \<Rightarrow> packed_reloc_iterator)
      \<Rightarrow> packed_reloc_iterator \<Rightarrow> (packed_reloc_iterator \<Rightarrow> (int \<times> packed_reloc_iterator) res)
      \<Rightarrow> (int \<times> packed_reloc_iterator) res" where
  "next_if w c upd self k = (if c then with_next w self (\<lambda>v self. k (upd v self)) else k self)"

text \<open>After \<open>memset\<close> every field is 0.\<close>

definition packed_reloc_iterator_zero :: packed_reloc_iterator where
  "packed_reloc_iterator_zero =
     \<lparr>decoder = \<lparr>dcur = 0, dend = 0\<rparr>, relocation_count = 0, group_size = 0, group_flags = 0,
      group_r_offset_delta = 0, relocation_index = 0, relocation_group_index = 0,
      k_rela = (0, 0, 0), k_rel = (0, 0), k_r_offset = 0, k_r_info = 0, k_r_addend = 0,
      k_is_use_rela = False\<rparr>"

definition xh_elf_packed_reloc_iterator_init ::
    "world \<Rightarrow> addr \<Rightarrow> u32 \<Rightarrow> bool \<Rightarrow> (int \<times> packed_reloc_iterator) res" where
  "xh_elf_packed_reloc_iterator_init w rel rel_sz is_use_rela =
     (let self = packed_reloc_iterator_zero
        \<lparr>decoder := xh_elf_sleb128_decoder_init rel rel_sz, k_is_use_rela := is_use_rela\<rparr> in
      next_if w True (\<lambda>v. relocation_count_update (\<lambda>_. v)) self (\<lambda>self.
      next_if w True (\<lambda>v. k_r_offset_update (\<lambda>_. v)) self (\<lambda>self.
      Inr (0, self))))"

definition xh_elf_packed_reloc_iterator_read_group_fields ::
    "world \<Rightarrow> packed_reloc_iterator \<Rightarrow> (int \<times> packed_reloc_iterator) res" where
  "xh_elf_packed_reloc_iterator_read_group_fields w self =
     (next_if w True (\<lambda>v. group_size_update (\<lambda>_. v)) self (\<lambda>self.
      next_if w True (\<lambda>v. group_flags_update (\<lambda>_. v)) self (\<lambda>self.
      next_if w (has_flag (group_flags self) RELOCATION_GROUPED_BY_OFFSET_DELTA_FLAG)
        (\<lambda>v. group_r_offset_delta_update (\<lambda>_. v)) self (\<lambda>self.
      next_if w (has_flag (group_flags self) RELOCATION_GROUPED_BY_INFO_FLAG)
        (\<lambda>v. k_r_info_update (\<lambda>_. v)) self (\<lambda>self.
      if has_flag (group_flags self) RELOCATION_GROUP_HAS_ADDEND_FLAG \<and>
         has_flag (group_flags self) RELOCATION_GROUPED_BY_ADDEND_FLAG
      then
        if \<not> k_is_use_rela self then Inr (XH_ERRNO_FORMAT, self)
        else next_if w True (\<lambda>v. k_r_addend_update (\<lambda>a. a + v)) self (\<lambda>self.
          Inr (0, self\<lparr>relocation_group_index := 0\<rparr>))
      else if \<not> has_flag (group_flags self) RELOCATION_GROUP_HAS_ADDEND_FLAG
      then Inr (0, self\<lparr>k_r_addend := 0, relocation_group_index := 0\<rparr>)
      else Inr (0, self\<lparr>relocation_group_index := 0\<rparr>))))))"

text \<open>
  The body of \<open>next\<close> after the two tests at its top, up to the return statements: 0 when an
  entry is ready, an error number where the code returns \<open>NULL\<close>.
\<close>

definition packed_next_entry ::
    "world \<Rightarrow> packed_reloc_iterator \<Rightarrow> (int \<times> packed_reloc_iterator) res" where
  "packed_next_entry w self =
     (let grouped = (\<lambda>flag. has_flag (group_flags self) flag) in
      next_if w (\<not> grouped RELOCATION_GROUPED_BY_OFFSET_DELTA_FLAG)
        (\<lambda>v. k_r_offset_update (\<lambda>a. a + v))
        (if grouped RELOCATION_GROUPED_BY_OFFSET_DELTA_FLAG
         then self\<lparr>k_r_offset := k_r_offset self + group_r_offset_delta self\<rparr> else self) (\<lambda>self.
      next_if w (\<not> grouped RELOCATION_GROUPED_BY_INFO_FLAG)
        (\<lambda>v. k_r_info_update (\<lambda>_. v)) self (\<lambda>self.
      next_if w (k_is_use_rela self \<and> grouped RELOCATION_GROUP_HAS_ADDEND_FLAG \<and>
          \<not> grouped RELOCATION_GROUPED_BY_ADDEND_FLAG)
        (\<lambda>v. k_r_addend_update (\<lambda>a. a + v)) self (\<lambda>self.
      Inr (0, self\<lparr>relocation_index := relocation_index self + 1,
                   relocation_group_index := relocation_group_index self + 1\<rparr>)))))"

definition xh_elf_packed_reloc_iterator_next ::
    "world \<Rightarrow> packed_reloc_iterator \<Rightarrow> (rel_common option \<times> packed_reloc_iterator) res" where
  "xh_elf_packed_reloc_iterator_next w self =
     (if relocation_count self \<le> relocation_index self then Inr (None, self)
      else
        seqE (if relocation_group_index self = group_size self
              then xh_elf_packed_reloc_iterator_read_group_fields w self
              else Inr (0, self)) (\<lambda>(r, self).
        if r \<noteq> 0 then Inr (None, self)
        else seqE (packed_next_entry w self) (\<lambda>(r, self).
          if r \<noteq> 0 then Inr (None, self)
          else if k_is_use_rela self
            then Inr (Some (RelInIter (k_r_offset self) (k_r_info self)),
                      self\<lparr>k_rela := (k_r_offset self, k_r_info self, k_r_addend self)\<rparr>)
            else Inr (Some (RelInIter (k_r_offset self) (k_r_info self)),
                      self\<lparr>k_rel := (k_r_offset self, k_r_info self)\<rparr>))))"

section \<open>Draining an iterator\<close>

text \<open>
  The loop \<open>while(NULL != (rel_common = ...next(&iter))) { ... }\<close> of \<open>xh_elf_hook\<close>. The body
  may change the image; it returns an error number, or 0 and whether to leave the loop. The
  first argument bounds the iterations.
\<close>

fun reloc_loop ::
    "nat \<Rightarrow> (world \<Rightarrow> 'i \<Rightarrow> (rel_common option \<times> 'i) res)
      \<Rightarrow> (rel_common \<Rightarrow> world \<Rightarrow> (int \<times> bool) res \<times> world) \<Rightarrow> 'i \<Rightarrow> world \<Rightarrow> int res \<times> world" where
  "reloc_loop 0 nxt body it w = (Inl Diverge, w)"
| "reloc_loop (Suc fuel) nxt body it w =
     (case nxt w it of
        Inl t \<Rightarrow> (Inl t, w)
      | Inr (None, it') \<Rightarrow> (Inr 0, w)
      | Inr (Some r, it') \<Rightarrow>
          (case body r w of
             (Inl t, w') \<Rightarrow> (Inl t, w')
           | (Inr (e, stop), w') \<Rightarrow>
               if e \<noteq> 0 then (Inr e, w')
               else if stop then (Inr 0, w')
               else reloc_loop fuel nxt body it' w'))"

text \<open>
  The contract that both iterators meet: every entry brings the iterator closer to its end, and
  a step reads memory but never loops. Under it the loop needs no more iterations than the
  iterator's \<open>remaining\<close>, whatever the body does to the image.
\<close>

locale reloc_iterator =
  fixes nxt :: "world \<Rightarrow> 'i \<Rightarrow> (rel_common option \<times> 'i) res"
    and remaining :: "'i \<Rightarrow> nat"
  assumes nxt_dec: "nxt w it = Inr (Some r, it') \<Longrightarrow> remaining it' < remaining it"
    and nxt_returns: "nxt w it \<noteq> Inl Diverge"
begin

lemma loop_fuel:
  "remaining it < n \<Longrightarrow> n \<le> m \<Longrightarrow> reloc_loop m nxt body it w = reloc_loop n nxt body it w"
proof (induction n arbitrary: m it w)
  case 0
  then show ?case by simp
next
  case (Suc n)
  from Suc.prems obtain m' where m: "m = Suc m'" "n \<le> m'" by (cases m) auto
  have "reloc_loop m' nxt body it' w' = reloc_loop n nxt body it' w'"
    if "nxt w it = Inr (Some r, it')" for r it' w'
    using Suc.IH [of it' m' w'] nxt_dec [OF that] Suc.prems(1) m(2) by simp
  then show ?case
    by (auto simp: m(1) split: sum.splits option.splits prod.splits)
qed

lemma loop_returns:
  assumes "\<And>r w. fst (body r w) \<noteq> Inl Diverge"
  shows "remaining it < n \<Longrightarrow> fst (reloc_loop n nxt body it w) \<noteq> Inl Diverge"
proof (induction n arbitrary: it w)
  case 0
  then show ?case by simp
next
  case (Suc n)
  have "fst (reloc_loop n nxt body it' w') \<noteq> Inl Diverge"
    if "nxt w it = Inr (Some r, it')" for r it' w'
    using Suc.IH [of it' w'] nxt_dec [OF that] Suc.prems by simp
  moreover have "body r w \<noteq> (Inl Diverge, w')" for r w'
    using assms [of r w] by (metis fst_conv)
  ultimately show ?case
    using nxt_returns [of w it]
    by (auto split: sum.splits option.splits prod.splits)
qed

text \<open>
  What a step followed by the body keeps, the loop keeps: \<open>P\<close> may speak of the image and of
  the iterator's position.
\<close>

lemma loop_invariant:
  assumes "\<And>it w r it' w' x. P it w \<Longrightarrow> nxt w it = Inr (Some r, it') \<Longrightarrow> body r w = (x, w') \<Longrightarrow> P it' w'"
  shows "P it w \<Longrightarrow> \<exists>it'. P it' (snd (reloc_loop n nxt body it w))"
proof (induction n arbitrary: it w)
  case 0
  then show ?case by auto
next
  case (Suc n)
  show ?case
  proof (cases "\<exists>r it'. nxt w it = Inr (Some r, it')")
    case True
    then obtain r it' where nx: "nxt w it = Inr (Some r, it')" by blast
    obtain x w' where b: "body r w = (x, w')" by (cases "body r w")
    have P': "P it' w'" using assms [OF Suc.prems nx b] .
    then show ?thesis
      using Suc.IH [OF P'] by (auto simp: nx b split: sum.splits prod.splits)
  next
    case False
    then show ?thesis
      using Suc.prems by (auto split: sum.splits prod.splits option.splits)
  qed
qed

end

text \<open>The plain table: every entry moves \<open>cur\<close> up, below the end of the address space.\<close>

definition plain_remaining :: "plain_reloc_iterator \<Rightarrow> nat" where
  "plain_remaining it = unat (p_end it) - unat (p_cur it)"

interpretation plain: reloc_iterator
  "\<lambda>w. xh_elf_plain_reloc_iterator_next" plain_remaining
proof unfold_locales
  fix w it r it'
  assume "xh_elf_plain_reloc_iterator_next it = Inr (Some r, it')"
  then have lt: "p_cur it < p_end it" and ge: "\<not> p_cur it + rel_size (p_is_use_rela it) < p_cur it"
    and it': "it' = it\<lparr>p_cur := p_cur it + rel_size (p_is_use_rela it)\<rparr>"
    by (auto simp: xh_elf_plain_reloc_iterator_next_def Let_def split: if_splits)
  have "rel_size (p_is_use_rela it) \<noteq> 0" by (simp add: rel_size_def)
  then have "p_cur it \<noteq> p_cur it + rel_size (p_is_use_rela it)" by simp
  with ge have "unat (p_cur it) < unat (p_cur it + rel_size (p_is_use_rela it))"
    by (metis not_less_iff_gr_or_eq word_less_nat_alt)
  with lt show "plain_remaining it' < plain_remaining it"
    by (simp add: plain_remaining_def it' word_less_nat_alt)
qed (simp add: xh_elf_plain_reloc_iterator_next_def Let_def)

text \<open>The packed table: every entry moves \<open>relocation_index\<close> towards \<open>relocation_count\<close>.\<close>

definition packed_remaining :: "packed_reloc_iterator \<Rightarrow> nat" where
  "packed_remaining it = unat (relocation_count it) - unat (relocation_index it)"

lemma next_if_cases:
  assumes "next_if w c upd self k = Inr (0, self')"
    and "\<And>v s. relocation_count (upd v s) = relocation_count s"
    and "\<And>v s. relocation_index (upd v s) = relocation_index s"
  obtains s where "k s = Inr (0, self')" and "relocation_count s = relocation_count self"
    and "relocation_index s = relocation_index self"
proof (cases c)
  case False
  then show ?thesis using assms(1) that [of self] by (simp add: next_if_def)
next
  case True
  then obtain r d where d: "xh_elf_sleb128_decoder_next w (decoder self) = Inr (r, d)"
    and k: "(case r of Inl e \<Rightarrow> Inr (e, self\<lparr>decoder := d\<rparr>)
      | Inr v \<Rightarrow> k (upd v (self\<lparr>decoder := d\<rparr>))) = Inr (0, self')"
    using assms(1) by (fastforce simp: next_if_def with_next_def Let_def)
  obtain v where "r = Inr v"
    using d k sleb128_decoder_next_error [of w "decoder self"]
    by (cases r) (auto simp: XH_ERRNO_FORMAT_def)
  with k that [of "upd v (self\<lparr>decoder := d\<rparr>)"] assms(2,3) show ?thesis by simp
qed

lemma next_if_returns:
  "(\<And>s. k s \<noteq> Inl Diverge) \<Longrightarrow> next_if w c upd self k \<noteq> Inl Diverge"
  using sleb128_decoder_next_returns [of w "decoder self"]
  by (auto simp: next_if_def with_next_def seqE_Inl_iff Let_def split: sum.splits prod.splits)

lemma read_group_fields_pos:
  assumes "xh_elf_packed_reloc_iterator_read_group_fields w self = Inr (0, self')"
  shows "relocation_count self' = relocation_count self"
    and "relocation_index self' = relocation_index self"
  using assms unfolding xh_elf_packed_reloc_iterator_read_group_fields_def
  by (auto elim!: next_if_cases simp: XH_ERRNO_FORMAT_def split: if_splits)

lemma packed_next_entry_pos:
  assumes "packed_next_entry w self = Inr (0, self')"
  shows "relocation_count self' = relocation_count self"
    and "relocation_index self' = relocation_index self + 1"
  using assms unfolding packed_next_entry_def Let_def
  by (auto elim!: next_if_cases split: if_splits)

lemma packed_next_pos:
  assumes "xh_elf_packed_reloc_iterator_next w it = Inr (Some r, it')"
  shows "relocation_index it < relocation_count it"
    and "relocation_count it' = relocation_count it"
    and "relocation_index it' = relocation_index it + 1"
proof -
  show "relocation_index it < relocation_count it"
    using assms by (auto simp: xh_elf_packed_reloc_iterator_next_def split: if_splits)
  obtain it1 it2 where "(if relocation_group_index it = group_size it
        then xh_elf_packed_reloc_iterator_read_group_fields w it else Inr (0, it)) = Inr (0, it1)"
    and entry: "packed_next_entry w it1 = Inr (0, it2)"
    and out: "relocation_count it' = relocation_count it2"
      "relocation_index it' = relocation_index it2"
    using assms by (fastforce simp: xh_elf_packed_reloc_iterator_next_def split: if_splits)
  then have "relocation_count it1 = relocation_count it" "relocation_index it1 = relocation_index it"
    by (auto simp: read_group_fields_pos split: if_splits)
  then show "relocation_count it' = relocation_count it"
    and "relocation_index it' = relocation_index it + 1"
    using packed_next_entry_pos [OF entry] out by simp_all
qed

interpretation packed: reloc_iterator
  xh_elf_packed_reloc_iterator_next packed_remaining
proof unfold_locales
  fix w it r it'
  assume "xh_elf_packed_reloc_iterator_next w it = Inr (Some r, it')"
  note pos = packed_next_pos [OF this]
  then show "packed_remaining it' < packed_remaining it"
    using unat_inc [OF pos(1)] by (simp add: packed_remaining_def word_less_nat_alt)
next
  fix w it
  show "xh_elf_packed_reloc_iterator_next w it \<noteq> Inl Diverge"
    by (auto simp: xh_elf_packed_reloc_iterator_next_def packed_next_entry_def Let_def
        xh_elf_packed_reloc_iterator_read_group_fields_def seqE_Inl_iff
        split: if_splits dest!: next_if_returns [THEN notE, rotated])
qed

end
