(* ===== verification/PackedFormat.thy ===== *)
theory PackedFormat
  imports RelocIter
begin

text \<open>
  The packed relocation format (\<^verbatim>\<open>APS2\<close>) stated on its own: what a writer of it stores for a
  list of groups of relocations, and which relocations these groups stand for. The iterator of
  \<^verbatim>\<open>xh_elf.c\<close> is proved to return exactly those.
\<close>

section \<open>The format\<close>

text \<open>
  A group has its flags, the fields its relocations share, and per relocation the offset delta,
  the info word and the addend delta; which of them are stored depends on the flags.
\<close>

record reloc_group =
  g_flags :: u64
  g_delta :: u64
  g_info :: u64
  g_addend :: u64
  g_members :: "(u64 \<times> u64 \<times> u64) list"

abbreviation by_info :: "u64 \<Rightarrow> bool" where
  "by_info fl \<equiv> has_flag fl RELOCATION_GROUPED_BY_INFO_FLAG"
abbreviation by_offset :: "u64 \<Rightarrow> bool" where
  "by_offset fl \<equiv> has_flag fl RELOCATION_GROUPED_BY_OFFSET_DELTA_FLAG"
abbreviation by_addend :: "u64 \<Rightarrow> bool" where
  "by_addend fl \<equiv> has_flag fl RELOCATION_GROUPED_BY_ADDEND_FLAG"
abbreviation has_addend :: "u64 \<Rightarrow> bool" where
  "has_addend fl \<equiv> has_flag fl RELOCATION_GROUP_HAS_ADDEND_FLAG"

fun member_words :: "bool \<Rightarrow> u64 \<Rightarrow> u64 \<times> u64 \<times> u64 \<Rightarrow> u64 list" where
  "member_words rela fl (d, i, a) =
     (if \<not> by_offset fl then [d] else []) @ (if \<not> by_info fl then [i] else []) @
     (if rela \<and> has_addend fl \<and> \<not> by_addend fl then [a] else [])"

definition header_words :: "reloc_group \<Rightarrow> u64 list" where
  "header_words g = [of_nat (length (g_members g)), g_flags g] @
     (if by_offset (g_flags g) then [g_delta g] else []) @
     (if by_info (g_flags g) then [g_info g] else []) @
     (if has_addend (g_flags g) \<and> by_addend (g_flags g) then [g_addend g] else [])"

definition group_words :: "bool \<Rightarrow> reloc_group \<Rightarrow> u64 list" where
  "group_words rela g = header_words g @ concat (map (member_words rela (g_flags g)) (g_members g))"

definition group_total :: "reloc_group list \<Rightarrow> nat" where
  "group_total gs = sum_list (map (\<lambda>g. length (g_members g)) gs)"

definition packed_words :: "bool \<Rightarrow> u64 \<Rightarrow> reloc_group list \<Rightarrow> u64 list" where
  "packed_words rela off gs = of_nat (group_total gs) # off # concat (map (group_words rela) gs)"

definition words_bytes :: "u64 list \<Rightarrow> u8 list" where
  "words_bytes ws = concat (map (\<lambda>v. sleb128_encode (sint v)) ws)"

text \<open>A group the format can express: not empty, and a grouped addend only in a \<open>Rela\<close> table.\<close>

definition group_ok :: "bool \<Rightarrow> reloc_group \<Rightarrow> bool" where
  "group_ok rela g \<longleftrightarrow> g_members g \<noteq> [] \<and>
     (has_addend (g_flags g) \<and> by_addend (g_flags g) \<longrightarrow> rela)"

text \<open>The \<open>r_offset\<close> and \<open>r_info\<close> of the relocations that a list of groups stands for.\<close>

fun member_relocs :: "reloc_group \<Rightarrow> u64 \<Rightarrow> (u64 \<times> u64 \<times> u64) list \<Rightarrow> (u64 \<times> u64) list" where
  "member_relocs g off [] = []"
| "member_relocs g off ((d, i, a) # ms) =
     (let off = off + (if by_offset (g_flags g) then g_delta g else d) in
      (off, if by_info (g_flags g) then g_info g else i) # member_relocs g off ms)"

fun member_end :: "reloc_group \<Rightarrow> u64 \<Rightarrow> (u64 \<times> u64 \<times> u64) list \<Rightarrow> u64" where
  "member_end g off [] = off"
| "member_end g off ((d, i, a) # ms) =
     member_end g (off + (if by_offset (g_flags g) then g_delta g else d)) ms"

fun groups_relocs :: "u64 \<Rightarrow> reloc_group list \<Rightarrow> (u64 \<times> u64) list" where
  "groups_relocs off [] = []"
| "groups_relocs off (g # gs) =
     member_relocs g off (g_members g) @ groups_relocs (member_end g off (g_members g)) gs"

text \<open>All entries an iterator returns, at most \<open>n\<close> of them.\<close>

fun packed_drain :: "nat \<Rightarrow> world \<Rightarrow> packed_reloc_iterator \<Rightarrow> rel_common list res" where
  "packed_drain 0 w it = Inl Diverge"
| "packed_drain (Suc n) w it = seqE (xh_elf_packed_reloc_iterator_next w it) (\<lambda>(r, it).
     case r of None \<Rightarrow> Inr [] | Some r \<Rightarrow> seqE (packed_drain n w it) (\<lambda>rs. Inr (r # rs)))"

section \<open>Reading words off the stream\<close>

definition words_at :: "world \<Rightarrow> sleb128_decoder \<Rightarrow> u64 list \<Rightarrow> bool" where
  "words_at w d ws \<longleftrightarrow> bytes_at w (dcur d) (words_bytes ws) \<and>
     unat (dcur d) + length (words_bytes ws) \<le> unat (dend d)"

definition skip :: "sleb128_decoder \<Rightarrow> u64 list \<Rightarrow> sleb128_decoder" where
  "skip d ws = d\<lparr>dcur := dcur d + of_nat (length (words_bytes ws))\<rparr>"

lemma words_bytes_simps [simp]:
  "words_bytes [] = []"
  "words_bytes (v # vs) = sleb128_encode (sint v) @ words_bytes vs"
  "words_bytes (vs @ us) = words_bytes vs @ words_bytes us"
  by (simp_all add: words_bytes_def)

lemma skip_simps [simp]:
  "skip d [] = d" "skip (skip d us) vs = skip d (us @ vs)"
  by (simp_all add: skip_def add.assoc)

lemma words_at_skip: "words_at w d (us @ vs) \<Longrightarrow> words_at w (skip d us) vs"
  unfolding words_at_def skip_def
  using unat_add_le [of "dcur d" "length (words_bytes us)" "dend d"]
  by (auto simp: bytes_at_append)

lemma words_at_Cons:
  assumes "words_at w d (v # vs)"
  shows "xh_elf_sleb128_decoder_next w d = Inr (Inr v, skip d [v])"
    and "words_at w (skip d [v]) vs"
proof -
  have "bytes_at w (dcur d) (sleb128_encode (sint v))"
    and "unat (dcur d) + length (sleb128_encode (sint v)) \<le> unat (dend d)"
    using assms by (auto simp: words_at_def bytes_at_append)
  then show "xh_elf_sleb128_decoder_next w d = Inr (Inr v, skip d [v])"
    using sleb128_decoder_next_encode [of w d "sint v"] sint_greater_eq [of v] sint_less [of v]
    by (simp add: skip_def)
  show "words_at w (skip d [v]) vs"
    using words_at_skip [of w d "[v]" vs] assms by simp
qed

lemma words_at_ConsE:
  assumes "words_at w d (v # vs)"
  obtains "xh_elf_sleb128_decoder_next w d = Inr (Inr v, skip d [v])"
    and "words_at w (skip d [v]) vs"
  using words_at_Cons [OF assms] by blast

section \<open>One relocation\<close>

lemma packed_next_entry_words:
  assumes "words_at w (decoder self) (member_words (k_is_use_rela self) (group_flags self) (d, i, a) @ vs)"
  shows "packed_next_entry w self = Inr (0, self
      \<lparr>decoder := skip (decoder self) (member_words (k_is_use_rela self) (group_flags self) (d, i, a)),
       k_r_offset := k_r_offset self + (if by_offset (group_flags self) then group_r_offset_delta self else d),
       k_r_info := (if by_info (group_flags self) then k_r_info self else i),
       k_r_addend := k_r_addend self +
         (if k_is_use_rela self \<and> has_addend (group_flags self) \<and> \<not> by_addend (group_flags self)
          then a else 0),
       relocation_index := relocation_index self + 1,
       relocation_group_index := relocation_group_index self + 1\<rparr>)"
  using assms
  by (cases "by_offset (group_flags self)"; cases "by_info (group_flags self)";
      cases "k_is_use_rela self \<and> has_addend (group_flags self) \<and> \<not> by_addend (group_flags self)")
    (auto simp: packed_next_entry_def next_if_def with_next_def elim!: words_at_ConsE)

lemma read_group_fields_words:
  assumes "words_at w (decoder self) (header_words g @ vs)"
    and "has_addend (g_flags g) \<and> by_addend (g_flags g) \<longrightarrow> k_is_use_rela self"
  shows "xh_elf_packed_reloc_iterator_read_group_fields w self = Inr (0, self
      \<lparr>decoder := skip (decoder self) (header_words g),
       group_size := of_nat (length (g_members g)), group_flags := g_flags g,
       group_r_offset_delta := (if by_offset (g_flags g) then g_delta g else group_r_offset_delta self),
       k_r_info := (if by_info (g_flags g) then g_info g else k_r_info self),
       k_r_addend := (if has_addend (g_flags g)
         then k_r_addend self + (if by_addend (g_flags g) then g_addend g else 0) else 0),
       relocation_group_index := 0\<rparr>)"
  using assms
  by (cases "by_offset (g_flags g)"; cases "by_info (g_flags g)";
      cases "has_addend (g_flags g)"; cases "by_addend (g_flags g)")
    (auto simp: xh_elf_packed_reloc_iterator_read_group_fields_def next_if_def with_next_def
      header_words_def elim!: words_at_ConsE)

section \<open>A whole table\<close>

text \<open>
  \<open>inside rela w it g ms off gs\<close>: the iterator is inside group \<open>g\<close> with the relocations \<open>ms\<close>
  of it still to come, the running offset is \<open>off\<close>, and the groups \<open>gs\<close> follow.
\<close>

definition inside ::
    "bool \<Rightarrow> world \<Rightarrow> packed_reloc_iterator \<Rightarrow> reloc_group \<Rightarrow> (u64 \<times> u64 \<times> u64) list
      \<Rightarrow> u64 \<Rightarrow> reloc_group list \<Rightarrow> bool" where
  "inside rela w it g ms off gs \<longleftrightarrow>
     words_at w (decoder it) (concat (map (member_words rela (g_flags g)) ms) @
       concat (map (group_words rela) gs)) \<and>
     k_is_use_rela it = rela \<and> k_r_offset it = off \<and> group_flags it = g_flags g \<and>
     (by_offset (g_flags g) \<longrightarrow> group_r_offset_delta it = g_delta g) \<and>
     (by_info (g_flags g) \<longrightarrow> k_r_info it = g_info g) \<and>
     group_size it = relocation_group_index it + of_nat (length ms) \<and>
     unat (relocation_count it) = unat (relocation_index it) + length ms + group_total gs"

lemma inside_bound: "inside rela w it g ms off gs \<Longrightarrow> length ms + group_total gs < 2 ^ 64"
  using unat_lt_64 [of "relocation_count it"] by (simp add: inside_def)

lemma inside_lt:
  assumes "inside rela w it g ms off gs" and "0 < length ms + group_total gs"
  shows "\<not> relocation_count it \<le> relocation_index it"
  using assms by (simp add: inside_def word_le_nat_alt)

lemma of_nat_eq_0: "n < 2 ^ 64 \<Longrightarrow> (of_nat n :: u64) = 0 \<longleftrightarrow> n = 0"
  using word_of_nat_neq [of n 0] by auto

lemma inside_member:
  assumes "inside rela w it g ((d, i, a) # ms) off gs"
  shows "\<exists>it'. xh_elf_packed_reloc_iterator_next w it =
      Inr (Some (RelInIter (off + (if by_offset (g_flags g) then g_delta g else d))
                 (if by_info (g_flags g) then g_info g else i)), it')
    \<and> inside rela w it' g ms (off + (if by_offset (g_flags g) then g_delta g else d)) gs"
proof -
  let ?ws = "member_words rela (g_flags g) (d, i, a)"
  let ?vs = "concat (map (member_words rela (g_flags g)) ms) @ concat (map (group_words rela) gs)"
  have "words_at w (decoder it) (?ws @ ?vs)"
    and eqs: "k_is_use_rela it = rela" "group_flags it = g_flags g" "k_r_offset it = off"
      "by_offset (g_flags g) \<Longrightarrow> group_r_offset_delta it = g_delta g"
      "by_info (g_flags g) \<Longrightarrow> k_r_info it = g_info g"
      "group_size it = relocation_group_index it + 1 + of_nat (length ms)"
      "unat (relocation_count it) = Suc (unat (relocation_index it)) + length ms + group_total gs"
    using assms by (auto simp: inside_def)
  then have entry: "words_at w (decoder it)
      (member_words (k_is_use_rela it) (group_flags it) (d, i, a) @ ?vs)" by simp
  have lt: "\<not> relocation_count it \<le> relocation_index it"
    by (rule inside_lt [OF assms]) simp
  have "relocation_group_index it \<noteq> group_size it"
    using of_nat_eq_0 [of "Suc (length ms)"] inside_bound [OF assms] eqs(6)
    by (simp add: add.assoc)
  moreover have "unat (relocation_index it + 1) = Suc (unat (relocation_index it))"
    using lt by (simp add: unat_inc not_le)
  ultimately show ?thesis
    using lt packed_next_entry_words [OF entry] words_at_skip [OF entry] eqs
    by (auto simp: xh_elf_packed_reloc_iterator_next_def inside_def)
qed

lemma inside_next_group:
  assumes "inside rela w it g [] off (g' # gs)" and "group_ok rela g'"
  shows "\<exists>it'. xh_elf_packed_reloc_iterator_next w it = xh_elf_packed_reloc_iterator_next w it'
    \<and> inside rela w it' g' (g_members g') off gs"
proof -
  let ?vs = "concat (map (member_words rela (g_flags g')) (g_members g')) @
      concat (map (group_words rela) gs)"
  have ws: "words_at w (decoder it) (header_words g' @ ?vs)"
    using assms(1) by (simp add: inside_def group_words_def)
  have rela: "has_addend (g_flags g') \<and> by_addend (g_flags g') \<longrightarrow> k_is_use_rela it"
    using assms by (simp add: inside_def group_ok_def)
  have pos: "0 < length (g_members g')" using assms(2) by (simp add: group_ok_def)
  then have lt: "\<not> relocation_count it \<le> relocation_index it"
    by (intro inside_lt [OF assms(1)]) (simp add: group_total_def)
  obtain it' where it': "xh_elf_packed_reloc_iterator_read_group_fields w it = Inr (0, it')"
    "decoder it' = skip (decoder it) (header_words g')"
    "group_size it' = of_nat (length (g_members g'))" "relocation_group_index it' = 0"
    "group_flags it' = g_flags g'" "k_r_offset it' = k_r_offset it"
    "k_is_use_rela it' = k_is_use_rela it"
    "relocation_count it' = relocation_count it" "relocation_index it' = relocation_index it"
    "by_offset (g_flags g') \<longrightarrow> group_r_offset_delta it' = g_delta g'"
    "by_info (g_flags g') \<longrightarrow> k_r_info it' = g_info g'"
    by (simp add: read_group_fields_words [OF ws rela])
  have "group_size it' \<noteq> 0"
    using of_nat_eq_0 [of "length (g_members g')"] pos inside_bound [OF assms(1)]
    by (simp add: it'(3) group_total_def)
  moreover have "group_size it = relocation_group_index it"
    using assms(1) by (simp add: inside_def)
  ultimately have "xh_elf_packed_reloc_iterator_next w it = xh_elf_packed_reloc_iterator_next w it'"
    using lt it' by (simp add: xh_elf_packed_reloc_iterator_next_def)
  moreover have "inside rela w it' g' (g_members g') off gs"
    using assms(1) it' words_at_skip [OF ws] by (simp add: inside_def group_total_def)
  ultimately show ?thesis by blast
qed

lemma packed_drain_inside:
  assumes "\<forall>g\<in>set gs. group_ok rela g" and "inside rela w it g ms off gs"
    and "length ms + group_total gs < n"
  shows "packed_drain n w it = Inr (map (\<lambda>(off, info). RelInIter off info)
    (member_relocs g off ms @ groups_relocs (member_end g off ms) gs))"
  using assms
proof (induction n arbitrary: it g ms off gs)
  case 0
  then show ?case by simp
next
  case (Suc n)
  have step: ?case if ins: "inside rela w it' g' ((d, i, a) # ms') off gs'"
    and ok: "\<forall>g\<in>set gs'. group_ok rela g" and len: "length ms' + group_total gs' < n"
    and nxt: "xh_elf_packed_reloc_iterator_next w it = xh_elf_packed_reloc_iterator_next w it'"
    and eq: "member_relocs g off ms @ groups_relocs (member_end g off ms) gs
      = member_relocs g' off ((d, i, a) # ms') @ groups_relocs (member_end g' off ((d, i, a) # ms')) gs'"
    for it' g' d i a ms' gs'
  proof -
    let ?off = "off + (if by_offset (g_flags g') then g_delta g' else d)"
    obtain it'' where nx: "xh_elf_packed_reloc_iterator_next w it' =
        Inr (Some (RelInIter ?off (if by_info (g_flags g') then g_info g' else i)), it'')"
      and ins': "inside rela w it'' g' ms' ?off gs'"
      using inside_member [OF ins] by blast
    show ?thesis
      using nx Suc.IH [OF ok ins' len] nxt eq by (simp add: Let_def)
  qed
  show ?case
  proof (cases ms)
    case (Cons m ms')
    obtain d i a where m: "m = (d, i, a)" by (cases m)
    show ?thesis
      by (rule step [of it g d i a ms' gs]) (use Suc.prems Cons m in simp_all)
  next
    case Nil
    show ?thesis
    proof (cases gs)
      case Nil
      then have "relocation_count it \<le> relocation_index it"
        using Suc.prems(2) \<open>ms = []\<close> by (simp add: inside_def word_le_nat_alt group_total_def)
      then show ?thesis
        using \<open>ms = []\<close> Nil by (simp add: xh_elf_packed_reloc_iterator_next_def)
    next
      case (Cons g' gs')
      have ok: "group_ok rela g'" and oks: "\<forall>g\<in>set gs'. group_ok rela g"
        using Suc.prems(1) Cons by simp_all
      obtain it' where it': "xh_elf_packed_reloc_iterator_next w it = xh_elf_packed_reloc_iterator_next w it'"
        "inside rela w it' g' (g_members g') off gs'"
        using inside_next_group [OF _ ok] Suc.prems(2) \<open>ms = []\<close> Cons by blast
      obtain d i a ms' where ms': "g_members g' = (d, i, a) # ms'"
        using ok by (cases "g_members g'") (auto simp: group_ok_def)
      show ?thesis
        by (rule step [of it' g' d i a ms' gs'])
          (use it' ms' oks Suc.prems(3) \<open>ms = []\<close> Cons in \<open>simp_all add: group_total_def\<close>)
    qed
  qed
qed

lemma packed_init_words:
  assumes "words_at w (xh_elf_sleb128_decoder_init rel rel_sz) (n # off # vs)"
  shows "xh_elf_packed_reloc_iterator_init w rel rel_sz rela = Inr (0,
    packed_reloc_iterator_zero
      \<lparr>decoder := skip (xh_elf_sleb128_decoder_init rel rel_sz) [n, off], relocation_count := n,
       k_r_offset := off, k_is_use_rela := rela\<rparr>)"
    and "words_at w (skip (xh_elf_sleb128_decoder_init rel rel_sz) [n, off]) vs"
  using assms
  by (auto simp: xh_elf_packed_reloc_iterator_init_def next_if_def with_next_def
      packed_reloc_iterator_zero_def elim!: words_at_ConsE)

text \<open>
  Claim C9. The packed iterator returns exactly the relocations that were packed: over the bytes
  of any table of groups that the format can express, with any mixture of shared and individual
  fields, \<open>init\<close> succeeds, the calls of \<open>next\<close> return the \<open>r_offset\<close> and \<open>r_info\<close> of every
  relocation in order, and then \<open>NULL\<close>.
\<close>

theorem packed_reloc_roundtrip:
  assumes "\<forall>g\<in>set gs. group_ok rela g" and "group_total gs < 2 ^ 64"
    and "bytes_at w rel (words_bytes (packed_words rela off gs))"
    and "length (words_bytes (packed_words rela off gs)) = unat rel_sz"
    and "unat rel + unat rel_sz < 2 ^ 64"
  shows "\<exists>it. xh_elf_packed_reloc_iterator_init w rel rel_sz rela = Inr (0, it) \<and>
    packed_drain (Suc (group_total gs)) w it
      = Inr (map (\<lambda>(off, info). RelInIter off info) (groups_relocs off gs))"
proof -
  let ?d = "xh_elf_sleb128_decoder_init rel rel_sz"
  have "unat (rel + ucast rel_sz) = unat rel + unat rel_sz"
    using assms(5) by (simp add: unat_word_ariths)
  then have "words_at w ?d (packed_words rela off gs)"
    using assms(3,4) by (simp add: words_at_def xh_elf_sleb128_decoder_init_def)
  then have ws: "words_at w ?d (of_nat (group_total gs) # off # concat (map (group_words rela) gs))"
    by (simp add: packed_words_def)
  let ?it = "packed_reloc_iterator_zero
      \<lparr>decoder := skip ?d [of_nat (group_total gs), off], relocation_count := of_nat (group_total gs),
       k_r_offset := off, k_is_use_rela := rela\<rparr>"
  let ?g = "\<lparr>g_flags = 0, g_delta = 0, g_info = 0, g_addend = 0, g_members = []\<rparr>"
  have "inside rela w ?it ?g [] off gs"
    using packed_init_words(2) [OF ws] assms(2)
    by (simp add: inside_def packed_reloc_iterator_zero_def has_flag_def unat_of_nat take_bit_nat_eq_self)
  from packed_drain_inside [OF assms(1) this, of "Suc (group_total gs)"]
  show ?thesis using packed_init_words(1) [OF ws] by simp
qed

definition example_groups :: "reloc_group list" where
  "example_groups =
     [\<lparr>g_flags = 1, g_delta = 0, g_info = 0x401, g_addend = 0, g_members = [(8, 0, 0), (16, 0, 0)]\<rparr>,
      \<lparr>g_flags = 2, g_delta = 8, g_info = 0, g_addend = 0, g_members = [(0, 0x101, 0)]\<rparr>]"

definition example_packed :: world where
  "example_packed = \<lparr>mbytes = image [(0x1000,
     [3, 0x80, 0x20, 2, 1, 0x81, 8, 8, 16, 1, 2, 8, 0x81, 2])], mprot = (\<lambda>_. 1)\<rparr>"

theorem packed_reloc_roundtrip_witness:
  "\<exists>it. xh_elf_packed_reloc_iterator_init example_packed 0x1000 14 False = Inr (0, it) \<and>
    packed_drain (Suc 3) example_packed it
      = Inr [RelInIter 0x1008 0x401, RelInIter 0x1018 0x401, RelInIter 0x1020 0x101]"
proof -
  have bs: "words_bytes (packed_words False 0x1000 example_groups)
      = [3, 0x80, 0x20, 2, 1, 0x81, 8, 8, 16, 1, 2, 8, 0x81, 2]"
    by code_simp
  have at: "bytes_at example_packed 0x1000 (words_bytes (packed_words False 0x1000 example_groups))"
    unfolding bs by (simp add: example_packed_def ld8_def readable_def PROT_READ_def)
  have tot: "group_total example_groups = 3"
    by (simp add: group_total_def example_groups_def)
  have rs: "groups_relocs 0x1000 example_groups
      = [(0x1008, 0x401), (0x1018, 0x401), (0x1020, 0x101)]"
    by (simp add: example_groups_def has_flag_def flag_defs)
  have ok: "\<forall>g\<in>set example_groups. group_ok False g"
    by (simp add: example_groups_def group_ok_def has_flag_def flag_defs)
  show ?thesis
    using packed_reloc_roundtrip [OF ok _ at, of 14] unfolding bs tot rs by simp
qed

end
