(* ===== verification/RbTree.thy ===== *)
theory RbTree
  imports Main
begin

text \<open>
  The red-black trees that \<^verbatim>\<open>tree.h\<close> generates (\<open>RB_GENERATE\<close>). A node with its parent pointers
  is a zipper: the subtree in focus and the frames above it, innermost first; \<open>NULL\<close> is
  \<open>Leaf\<close>, and the parent of the root is the empty list. The rotations of the rebalancing loops
  are done on the frames, as the macros do them on pointers. An access through a null pointer
  makes a result \<open>None\<close>; the theorems show that it does not happen.
\<close>

datatype color = RB_BLACK | RB_RED

datatype 'a rbt = Leaf | Node "'a rbt" color 'a "'a rbt"

text \<open>A frame: the focus is the left child (\<open>FL\<close>) or the right child (\<open>FR\<close>) of this node.\<close>

datatype 'a frame = FL color 'a "'a rbt" | FR "'a rbt" color 'a

fun plug :: "'a frame list \<Rightarrow> 'a rbt \<Rightarrow> 'a rbt" where
  "plug [] t = t"
| "plug (FL c x r # ctx) t = plug ctx (Node t c x r)"
| "plug (FR l c x # ctx) t = plug ctx (Node l c x t)"

fun rb_color :: "'a rbt \<Rightarrow> color" where
  "rb_color Leaf = RB_BLACK"
| "rb_color (Node l c x r) = c"

text \<open>\<open>RB_COLOR(elm, field) = RB_BLACK\<close>, and nothing for \<open>NULL\<close>.\<close>

fun blacken :: "'a rbt \<Rightarrow> 'a rbt" where
  "blacken Leaf = Leaf"
| "blacken (Node l c x r) = Node l RB_BLACK x r"

section \<open>Insertion\<close>

text \<open>
  \<open>RB_INSERT_COLOR\<close>: the focus is \<open>elm\<close>. The loop recolours and moves up under a red uncle;
  otherwise one or two rotations end it, since the parent is black after them.
\<close>

fun rb_insert_color :: "'a frame list \<Rightarrow> 'a rbt \<Rightarrow> 'a rbt option" where
  "rb_insert_color [] elm = Some (blacken elm)"
| "rb_insert_color (FL RB_BLACK p s # ctx) elm = Some (blacken (plug (FL RB_BLACK p s # ctx) elm))"
| "rb_insert_color (FR s RB_BLACK p # ctx) elm = Some (blacken (plug (FR s RB_BLACK p # ctx) elm))"
| "rb_insert_color [FL RB_RED p s] elm = None"
| "rb_insert_color [FR s RB_RED p] elm = None"
| "rb_insert_color (FL RB_RED p s # FL gc g u # ctx) elm =
     (if rb_color u = RB_RED
      then rb_insert_color ctx (Node (Node elm RB_BLACK p s) RB_RED g (blacken u))
      else Some (blacken (plug ctx (Node elm RB_BLACK p (Node s RB_RED g u)))))"
| "rb_insert_color (FR s RB_RED p # FL gc g u # ctx) elm =
     (if rb_color u = RB_RED
      then rb_insert_color ctx (Node (Node s RB_BLACK p elm) RB_RED g (blacken u))
      else (case elm of Leaf \<Rightarrow> None | Node a c x b \<Rightarrow>
        Some (blacken (plug ctx (Node (Node s RB_RED p a) RB_BLACK x (Node b RB_RED g u))))))"
| "rb_insert_color (FR s RB_RED p # FR u gc g # ctx) elm =
     (if rb_color u = RB_RED
      then rb_insert_color ctx (Node (blacken u) RB_RED g (Node s RB_BLACK p elm))
      else Some (blacken (plug ctx (Node (Node u RB_RED g s) RB_BLACK p elm))))"
| "rb_insert_color (FL RB_RED p s # FR u gc g # ctx) elm =
     (if rb_color u = RB_RED
      then rb_insert_color ctx (Node (blacken u) RB_RED g (Node elm RB_BLACK p s))
      else (case elm of Leaf \<Rightarrow> None | Node a c x b \<Rightarrow>
        Some (blacken (plug ctx (Node (Node u RB_RED g a) RB_BLACK x (Node b RB_RED p s))))))"

text \<open>The descent that \<open>RB_INSERT\<close>, \<open>RB_FIND\<close> and \<open>RB_NFIND\<close> share: where the search ends.\<close>

fun rb_search :: "('a \<Rightarrow> 'a \<Rightarrow> int) \<Rightarrow> 'a \<Rightarrow> 'a frame list \<Rightarrow> 'a rbt \<Rightarrow> 'a frame list \<times> 'a rbt" where
  "rb_search cmp k ctx Leaf = (ctx, Leaf)"
| "rb_search cmp k ctx (Node l c x r) =
     (if cmp k x < 0 then rb_search cmp k (FL c x r # ctx) l
      else if cmp k x > 0 then rb_search cmp k (FR l c x # ctx) r
      else (ctx, Node l c x r))"

text \<open>\<open>RB_INSERT\<close>: the element that is there already, or \<open>NULL\<close> and the tree with \<open>elm\<close>.\<close>

definition rb_insert :: "('a \<Rightarrow> 'a \<Rightarrow> int) \<Rightarrow> 'a \<Rightarrow> 'a rbt \<Rightarrow> ('a option \<times> 'a rbt) option" where
  "rb_insert cmp elm t = (case rb_search cmp elm [] t of
       (ctx, Node l c x r) \<Rightarrow> Some (Some x, t)
     | (ctx, Leaf) \<Rightarrow> map_option (Pair None) (rb_insert_color ctx (Node Leaf RB_RED elm Leaf)))"

section \<open>Search and traversal\<close>

fun rb_find :: "('a \<Rightarrow> 'a \<Rightarrow> int) \<Rightarrow> 'a \<Rightarrow> 'a rbt \<Rightarrow> 'a option" where
  "rb_find cmp k Leaf = None"
| "rb_find cmp k (Node l c x r) =
     (if cmp k x < 0 then rb_find cmp k l else if cmp k x > 0 then rb_find cmp k r else Some x)"

text \<open>\<open>RB_MINMAX\<close>: \<open>parent\<close> is the node passed last.\<close>

fun rb_minmax_loop :: "int \<Rightarrow> 'a option \<Rightarrow> 'a rbt \<Rightarrow> 'a option" where
  "rb_minmax_loop val parent Leaf = parent"
| "rb_minmax_loop val parent (Node l c x r) = rb_minmax_loop val (Some x) (if val < 0 then l else r)"

definition rb_min :: "'a rbt \<Rightarrow> 'a option" where
  "rb_min t = rb_minmax_loop (- 1) None t"

text \<open>\<open>RB_NEXT\<close>: down into the right subtree, or up while the focus is a right child.\<close>

fun rb_leftmost :: "'a \<Rightarrow> 'a rbt \<Rightarrow> 'a" where
  "rb_leftmost x Leaf = x"
| "rb_leftmost x (Node l c y r) = rb_leftmost y l"

fun rb_climb :: "'a frame list \<Rightarrow> 'a option" where
  "rb_climb [] = None"
| "rb_climb (FL c x r # ctx) = Some x"
| "rb_climb (FR l c x # ctx) = rb_climb ctx"

definition rb_next :: "('a \<Rightarrow> 'a \<Rightarrow> int) \<Rightarrow> 'a \<Rightarrow> 'a rbt \<Rightarrow> 'a option" where
  "rb_next cmp elm t = (case rb_search cmp elm [] t of
       (ctx, Node l c x r) \<Rightarrow> (case r of Leaf \<Rightarrow> rb_climb ctx | Node rl rc y rr \<Rightarrow> Some (rb_leftmost y rl))
     | (ctx, Leaf) \<Rightarrow> None)"

section \<open>Removal\<close>

text \<open>
  \<open>RB_REMOVE_COLOR\<close>: the focus is \<open>elm\<close>, one black node short. \<open>remove_sibling_left\<close> and
  \<open>..._right\<close> are the rest of an iteration once \<open>tmp\<close> is black: \<open>Inl\<close> when the loop goes on with
  the parent as focus, \<open>Inr\<close> for the subtree after the final rotation.
\<close>

fun remove_right_sibling :: "'a rbt \<Rightarrow> color \<Rightarrow> 'a \<Rightarrow> 'a rbt \<Rightarrow> ('a rbt + 'a rbt) option" where
  "remove_right_sibling elm pc p Leaf = None"
| "remove_right_sibling elm pc p (Node a c y b) =
     (if rb_color a = RB_BLACK \<and> rb_color b = RB_BLACK
      then Some (Inl (Node elm pc p (Node a RB_RED y b)))
      else if rb_color b = RB_BLACK
      then (case a of Leaf \<Rightarrow> None | Node a1 ac z a2 \<Rightarrow>
        Some (Inr (Node (Node elm RB_BLACK p a1) pc z (Node a2 RB_BLACK y b))))
      else Some (Inr (Node (Node elm RB_BLACK p a) pc y (blacken b))))"

fun remove_left_sibling :: "'a rbt \<Rightarrow> 'a rbt \<Rightarrow> color \<Rightarrow> 'a \<Rightarrow> ('a rbt + 'a rbt) option" where
  "remove_left_sibling elm Leaf pc p = None"
| "remove_left_sibling elm (Node a c y b) pc p =
     (if rb_color a = RB_BLACK \<and> rb_color b = RB_BLACK
      then Some (Inl (Node (Node a RB_RED y b) pc p elm))
      else if rb_color a = RB_BLACK
      then (case b of Leaf \<Rightarrow> None | Node b1 bc z b2 \<Rightarrow>
        Some (Inr (Node (Node a RB_BLACK y b1) pc z (Node b2 RB_BLACK p elm))))
      else Some (Inr (Node (blacken a) pc y (Node b RB_BLACK p elm))))"

function rb_remove_color :: "'a frame list \<Rightarrow> 'a rbt \<Rightarrow> 'a rbt option" where
  "rb_remove_color ctx elm =
     (if rb_color elm = RB_RED then Some (plug ctx (blacken elm)) else
      case ctx of
        [] \<Rightarrow> Some (blacken elm)
      | FL pc p tmp # ctx \<Rightarrow>
          (case tmp of
             Node a RB_RED y b \<Rightarrow>
               (case remove_right_sibling elm RB_RED p a of
                  None \<Rightarrow> None
                | Some (Inl t) \<Rightarrow> Some (plug (FL RB_BLACK y b # ctx) (blacken t))
                | Some (Inr t) \<Rightarrow> Some (blacken (plug (FL RB_BLACK y b # ctx) t)))
           | _ \<Rightarrow>
               (case remove_right_sibling elm pc p tmp of
                  None \<Rightarrow> None
                | Some (Inl t) \<Rightarrow> rb_remove_color ctx t
                | Some (Inr t) \<Rightarrow> Some (blacken (plug ctx t))))
      | FR tmp pc p # ctx \<Rightarrow>
          (case tmp of
             Node a RB_RED y b \<Rightarrow>
               (case remove_left_sibling elm b RB_RED p of
                  None \<Rightarrow> None
                | Some (Inl t) \<Rightarrow> Some (plug (FR a RB_BLACK y # ctx) (blacken t))
                | Some (Inr t) \<Rightarrow> Some (blacken (plug (FR a RB_BLACK y # ctx) t)))
           | _ \<Rightarrow>
               (case remove_left_sibling elm tmp pc p of
                  None \<Rightarrow> None
                | Some (Inl t) \<Rightarrow> rb_remove_color ctx t
                | Some (Inr t) \<Rightarrow> Some (blacken (plug ctx t)))))"
  by pat_completeness auto
termination
  by (relation "measure (\<lambda>(ctx, elm). length ctx)") auto

declare rb_remove_color.simps [simp del]

text \<open>Down the left spine, to the node without a left child.\<close>

fun rb_descend :: "'a frame list \<Rightarrow> 'a rbt \<Rightarrow> color \<Rightarrow> 'a \<Rightarrow> 'a rbt \<Rightarrow> 'a frame list \<times> color \<times> 'a \<times> 'a rbt" where
  "rb_descend ctx Leaf c x r = (ctx, c, x, r)"
| "rb_descend ctx (Node ll lc y lr) c x r = rb_descend (FL c x r # ctx) ll lc y lr"

text \<open>
  \<open>RB_REMOVE\<close> of the node in focus: the colour that leaves the tree, and the child that takes its
  place with the frames above it. With two children the next node moves into the place of the
  removed one and takes its colour.
\<close>

definition rb_unlink :: "'a frame list \<Rightarrow> 'a rbt \<Rightarrow> color \<Rightarrow> 'a \<Rightarrow> 'a rbt \<Rightarrow> color \<times> 'a frame list \<times> 'a rbt" where
  "rb_unlink ctx l c x r =
     (case l of Leaf \<Rightarrow> (c, ctx, r) | Node ll lc lx lr \<Rightarrow>
      case r of Leaf \<Rightarrow> (c, ctx, l) | Node rl rc rx rr \<Rightarrow>
        let (path, color, y, child) = rb_descend [] rl rc rx rr
        in (color, path @ FR l c y # ctx, child))"

definition rb_remove :: "('a \<Rightarrow> 'a \<Rightarrow> int) \<Rightarrow> 'a \<Rightarrow> 'a rbt \<Rightarrow> 'a rbt option" where
  "rb_remove cmp elm t = (case rb_search cmp elm [] t of
       (ctx, Node l c x r) \<Rightarrow>
         let (color, ctx, child) = rb_unlink ctx l c x r
         in if color = RB_BLACK then rb_remove_color ctx child else Some (plug ctx child)
     | (ctx, Leaf) \<Rightarrow> None)"

end
