(* ===== verification/RbProofs.thy ===== *)
theory RbProofs
  imports RbTree
begin

text \<open>
  Red-black invariants and the order of the elements under the operations of \<^verbatim>\<open>tree.h\<close>.
\<close>

section \<open>Elements in order\<close>

fun inorder :: "'a rbt \<Rightarrow> 'a list" where
  "inorder Leaf = []"
| "inorder (Node l c x r) = inorder l @ x # inorder r"

text \<open>The elements left and right of a focus.\<close>

fun before :: "'a frame list \<Rightarrow> 'a list" where
  "before [] = []"
| "before (FL c x r # ctx) = before ctx"
| "before (FR l c x # ctx) = before ctx @ inorder l @ [x]"

fun after :: "'a frame list \<Rightarrow> 'a list" where
  "after [] = []"
| "after (FL c x r # ctx) = x # inorder r @ after ctx"
| "after (FR l c x # ctx) = after ctx"

lemma inorder_plug: "inorder (plug ctx t) = before ctx @ inorder t @ after ctx"
  by (induction ctx t rule: plug.induct) auto

lemma inorder_blacken [simp]: "inorder (blacken t) = inorder t"
  by (cases t) auto

lemma before_append: "before (p @ q) = before q @ before p"
  by (induction p rule: before.induct) auto

lemma after_append: "after (p @ q) = after p @ after q"
  by (induction p rule: after.induct) auto

lemma plug_append: "plug (p @ q) t = plug q (plug p t)"
  by (induction p t rule: plug.induct) auto

lemma inorder_insert_color:
  "rb_insert_color ctx t = Some t' \<Longrightarrow> inorder t' = before ctx @ inorder t @ after ctx"
  by (induction ctx t arbitrary: t' rule: rb_insert_color.induct)
    (auto simp: inorder_plug split: if_splits rbt.splits)

section \<open>Red-black invariants\<close>

text \<open>A tree of black height \<open>n\<close> without a red node under a red node.\<close>

fun rb :: "nat \<Rightarrow> 'a rbt \<Rightarrow> bool" where
  "rb n Leaf = (n = 0)"
| "rb n (Node l c x r) =
     (if c = RB_RED then rb_color l = RB_BLACK \<and> rb_color r = RB_BLACK \<and> rb n l \<and> rb n r
      else (\<exists>m. n = Suc m \<and> rb m l \<and> rb m r))"

definition rb_tree :: "'a rbt \<Rightarrow> bool" where
  "rb_tree t \<longleftrightarrow> rb_color t = RB_BLACK \<and> (\<exists>n. rb n t)"

text \<open>The frames around a hole that takes a tree of black height \<open>n\<close>.\<close>

fun frame_color :: "'a frame list \<Rightarrow> color" where
  "frame_color [] = RB_BLACK"
| "frame_color (FL c x r # ctx) = c"
| "frame_color (FR l c x # ctx) = c"

fun ctx_rb :: "nat \<Rightarrow> 'a frame list \<Rightarrow> bool" where
  "ctx_rb n [] = True"
| "ctx_rb n (FL c x r # ctx) = (rb n r \<and>
     (if c = RB_RED then ctx \<noteq> [] \<and> frame_color ctx = RB_BLACK \<and> rb_color r = RB_BLACK \<and> ctx_rb n ctx
      else ctx_rb (Suc n) ctx))"
| "ctx_rb n (FR l c x # ctx) = (rb n l \<and>
     (if c = RB_RED then ctx \<noteq> [] \<and> frame_color ctx = RB_BLACK \<and> rb_color l = RB_BLACK \<and> ctx_rb n ctx
      else ctx_rb (Suc n) ctx))"

lemma color_cases: "c \<noteq> RB_RED \<longleftrightarrow> c = RB_BLACK"
  by (cases c) auto

lemma blacken_color [simp]: "rb_color (blacken t) = RB_BLACK"
  by (cases t) simp_all

lemma rb_blacken_red: "rb n t \<Longrightarrow> rb_color t = RB_RED \<Longrightarrow> rb (Suc n) (blacken t)"
  by (cases t) auto

lemma rb_blacken: "rb n t \<Longrightarrow> \<exists>m. rb m (blacken t)"
proof (cases "rb_color t")
  case RB_BLACK
  moreover assume "rb n t"
  ultimately show ?thesis by (cases t) auto
next
  case RB_RED
  moreover assume "rb n t"
  ultimately show ?thesis using rb_blacken_red by blast
qed

lemma blacken_id: "rb_color t = RB_BLACK \<Longrightarrow> blacken t = t"
  by (cases t) auto

text \<open>Plugging a tree into the hole gives a red-black tree.\<close>

definition fits :: "'a frame list \<Rightarrow> 'a rbt \<Rightarrow> bool" where
  "fits ctx t \<longleftrightarrow> rb_color t = RB_BLACK \<or> ctx \<noteq> [] \<and> frame_color ctx = RB_BLACK"

lemma plug_rb: "ctx_rb n ctx \<Longrightarrow> rb n t \<Longrightarrow> fits ctx t \<Longrightarrow> rb_tree (plug ctx t)"
proof (induction ctx t arbitrary: n rule: plug.induct)
  case (1 t)
  then show ?case by (auto simp: rb_tree_def fits_def)
next
  case (2 c x r ctx t)
  show ?case
  proof (cases c)
    case RB_RED
    with 2 show ?thesis by (auto simp: fits_def)
  next
    case RB_BLACK
    then show ?thesis using 2(1) [of "Suc n"] 2(2-4) by (auto simp: fits_def)
  qed
next
  case (3 l c x ctx t)
  show ?case
  proof (cases c)
    case RB_RED
    with 3 show ?thesis by (auto simp: fits_def)
  next
    case RB_BLACK
    then show ?thesis using 3(1) [of "Suc n"] 3(2-4) by (auto simp: fits_def)
  qed
qed

lemma blacken_plug_rb: "ctx_rb n ctx \<Longrightarrow> rb n t \<Longrightarrow> fits ctx t \<Longrightarrow> rb_tree (blacken (plug ctx t))"
  using plug_rb [of n ctx t] by (simp add: blacken_id rb_tree_def)

text \<open>The tree with a red root in focus, whose parent may be red.\<close>

lemma insert_color_rb:
  "rb n t \<Longrightarrow> rb_color t = RB_RED \<Longrightarrow> ctx_rb n ctx \<Longrightarrow>
     \<exists>t'. rb_insert_color ctx t = Some t' \<and> rb_tree t'"
proof (induction ctx t arbitrary: n rule: rb_insert_color.induct)
  case (1 elm)
  then show ?case using rb_blacken by (auto simp: rb_tree_def)
next
  case (2 p s ctx elm)
  have "rb_tree (blacken (plug (FL RB_BLACK p s # ctx) elm))"
    using 2 by (intro blacken_plug_rb [of n]) (auto simp: fits_def)
  then show ?case by simp
next
  case (3 s p ctx elm)
  have "rb_tree (blacken (plug (FR s RB_BLACK p # ctx) elm))"
    using 3 by (intro blacken_plug_rb [of n]) (auto simp: fits_def)
  then show ?case by simp
next
  case (6 p s gc g u ctx elm)
  show ?case
  proof (cases "rb_color u = RB_RED")
    case True
    then show ?thesis
      using 6(1) [OF True, of "Suc n"] 6(2-4) by (auto simp: rb_blacken_red color_cases split: if_splits)
  next
    case False
    then have "rb_tree (blacken (plug ctx (Node elm RB_BLACK p (Node s RB_RED g u))))"
      using 6(2-4) by (intro blacken_plug_rb [of "Suc n"]) (auto simp: color_cases fits_def)
    then show ?thesis using False by simp
  qed
next
  case (7 s p gc g u ctx elm)
  show ?case
  proof (cases "rb_color u = RB_RED")
    case True
    then show ?thesis
      using 7(1) [OF True, of "Suc n"] 7(2-4) by (auto simp: rb_blacken_red color_cases split: if_splits)
  next
    case False
    obtain a x b where elm: "elm = Node a RB_RED x b"
      using 7(3) by (cases elm) auto
    then have "rb_tree (blacken (plug ctx (Node (Node s RB_RED p a) RB_BLACK x (Node b RB_RED g u))))"
      using 7(2-4) False by (intro blacken_plug_rb [of "Suc n"]) (auto simp: color_cases fits_def)
    then show ?thesis using False elm by simp
  qed
next
  case (8 s p u gc g ctx elm)
  show ?case
  proof (cases "rb_color u = RB_RED")
    case True
    then show ?thesis
      using 8(1) [OF True, of "Suc n"] 8(2-4) by (auto simp: rb_blacken_red color_cases split: if_splits)
  next
    case False
    then have "rb_tree (blacken (plug ctx (Node (Node u RB_RED g s) RB_BLACK p elm)))"
      using 8(2-4) by (intro blacken_plug_rb [of "Suc n"]) (auto simp: color_cases fits_def)
    then show ?thesis using False by simp
  qed
next
  case (9 p s u gc g ctx elm)
  show ?case
  proof (cases "rb_color u = RB_RED")
    case True
    then show ?thesis
      using 9(1) [OF True, of "Suc n"] 9(2-4) by (auto simp: rb_blacken_red color_cases split: if_splits)
  next
    case False
    obtain a x b where elm: "elm = Node a RB_RED x b"
      using 9(3) by (cases elm) auto
    then have "rb_tree (blacken (plug ctx (Node (Node u RB_RED g a) RB_BLACK x (Node b RB_RED p s))))"
      using 9(2-4) False by (intro blacken_plug_rb [of "Suc n"]) (auto simp: color_cases fits_def)
    then show ?thesis using False elm by simp
  qed
qed simp_all

section \<open>Removal\<close>

text \<open>A focus that lacks one black node: a red root of it may still be blackened.\<close>

definition short :: "nat \<Rightarrow> 'a rbt \<Rightarrow> bool" where
  "short n t \<longleftrightarrow> (if rb_color t = RB_RED then rb (Suc n) (blacken t) else rb n t)"

lemma short_if_rb: "rb n t \<Longrightarrow> short n t"
  by (simp add: short_def rb_blacken_red)

lemma rb_SucE:
  assumes "rb (Suc n) t" and "rb_color t = RB_BLACK"
  obtains a y b where "t = Node a RB_BLACK y b" and "rb n a" and "rb n b"
  using assms by (cases t) auto

definition up :: "color \<Rightarrow> nat \<Rightarrow> nat" where
  "up c n = (if c = RB_RED then n else Suc n)"

lemma up_simps [simp]: "up RB_RED n = n" "up RB_BLACK n = Suc n" "up c (Suc n) = Suc (up c n)"
  by (simp_all add: up_def)

text \<open>What an iteration leaves in the place of a parent of colour \<open>c\<close>.\<close>

fun mended :: "nat \<Rightarrow> color \<Rightarrow> 'a rbt + 'a rbt \<Rightarrow> bool" where
  "mended n c (Inl t) = (short (up c n) t \<and> rb_color t = c)"
| "mended n c (Inr t) = (rb (up c (Suc n)) t \<and> rb_color t = c)"

lemma right_sibling_rb:
  assumes "rb n elm" "rb_color elm = RB_BLACK" "rb (Suc n) tmp" "rb_color tmp = RB_BLACK"
  obtains s where "remove_right_sibling elm pc p tmp = Some s" and "mended n pc s"
proof -
  obtain a y b where "tmp = Node a RB_BLACK y b" "rb n a" "rb n b"
    using assms(3,4) by (rule rb_SucE)
  then have "\<exists>s. remove_right_sibling elm pc p tmp = Some s \<and> mended n pc s"
    using assms(1,2) by (cases a; cases b; cases pc) (auto simp: short_def color_cases split: if_splits)
  then show ?thesis using that by blast
qed

lemma left_sibling_rb:
  assumes "rb n elm" "rb_color elm = RB_BLACK" "rb (Suc n) tmp" "rb_color tmp = RB_BLACK"
  obtains s where "remove_left_sibling elm tmp pc p = Some s" and "mended n pc s"
proof -
  obtain a y b where "tmp = Node a RB_BLACK y b" "rb n a" "rb n b"
    using assms(3,4) by (rule rb_SucE)
  then have "\<exists>s. remove_left_sibling elm tmp pc p = Some s \<and> mended n pc s"
    using assms(1,2) by (cases a; cases b; cases pc) (auto simp: short_def color_cases split: if_splits)
  then show ?thesis using that by blast
qed

text \<open>The end of an iteration: the loop goes on, or the subtree closes the tree.\<close>

lemma mended_closes:
  assumes "mended n c s" and "ctx_rb (up c (Suc n)) ctx" and "c = RB_RED \<Longrightarrow> ctx \<noteq> [] \<and> frame_color ctx = RB_BLACK"
  shows "s = Inr t \<Longrightarrow> rb_tree (blacken (plug ctx t))"
    and "s = Inl t \<Longrightarrow> c = RB_RED \<Longrightarrow> rb_tree (plug ctx (blacken t))"
proof -
  assume "s = Inr t"
  with assms show "rb_tree (blacken (plug ctx t))"
    by (cases c) (auto simp: fits_def intro!: blacken_plug_rb [of "up c (Suc n)"])
next
  assume "s = Inl t" "c = RB_RED"
  with assms show "rb_tree (plug ctx (blacken t))"
    by (auto simp: short_def fits_def intro!: plug_rb [of "Suc n"])
qed

text \<open>The loop of \<open>RB_REMOVE_COLOR\<close>, one equation for each way into an iteration.\<close>

lemma remove_color_eqs:
  "rb_color elm = RB_RED \<Longrightarrow> rb_remove_color ctx elm = Some (plug ctx (blacken elm))"
  "rb_color elm = RB_BLACK \<Longrightarrow> rb_remove_color [] elm = Some (blacken elm)"
  "rb_color elm = RB_BLACK \<Longrightarrow> rb_remove_color (FL pc p (Node a RB_RED y b) # ctx) elm =
     (case remove_right_sibling elm RB_RED p a of
        None \<Rightarrow> None
      | Some (Inl t) \<Rightarrow> Some (plug (FL RB_BLACK y b # ctx) (blacken t))
      | Some (Inr t) \<Rightarrow> Some (blacken (plug (FL RB_BLACK y b # ctx) t)))"
  "rb_color elm = RB_BLACK \<Longrightarrow> rb_color tmp = RB_BLACK \<Longrightarrow> rb_remove_color (FL pc p tmp # ctx) elm =
     (case remove_right_sibling elm pc p tmp of
        None \<Rightarrow> None
      | Some (Inl t) \<Rightarrow> rb_remove_color ctx t
      | Some (Inr t) \<Rightarrow> Some (blacken (plug ctx t)))"
  "rb_color elm = RB_BLACK \<Longrightarrow> rb_remove_color (FR (Node a RB_RED y b) pc p # ctx) elm =
     (case remove_left_sibling elm b RB_RED p of
        None \<Rightarrow> None
      | Some (Inl t) \<Rightarrow> Some (plug (FR a RB_BLACK y # ctx) (blacken t))
      | Some (Inr t) \<Rightarrow> Some (blacken (plug (FR a RB_BLACK y # ctx) t)))"
  "rb_color elm = RB_BLACK \<Longrightarrow> rb_color tmp = RB_BLACK \<Longrightarrow> rb_remove_color (FR tmp pc p # ctx) elm =
     (case remove_left_sibling elm tmp pc p of
        None \<Rightarrow> None
      | Some (Inl t) \<Rightarrow> rb_remove_color ctx t
      | Some (Inr t) \<Rightarrow> Some (blacken (plug ctx t)))"
proof -
  note loop = rb_remove_color.simps [of _ elm]
  show "rb_color elm = RB_RED \<Longrightarrow> rb_remove_color ctx elm = Some (plug ctx (blacken elm))"
    by (simp add: loop)
  assume elm: "rb_color elm = RB_BLACK"
  then show "rb_remove_color [] elm = Some (blacken elm)"
    by (simp add: loop)
  show "rb_remove_color (FL pc p (Node a RB_RED y b) # ctx) elm =
     (case remove_right_sibling elm RB_RED p a of
        None \<Rightarrow> None
      | Some (Inl t) \<Rightarrow> Some (plug (FL RB_BLACK y b # ctx) (blacken t))
      | Some (Inr t) \<Rightarrow> Some (blacken (plug (FL RB_BLACK y b # ctx) t)))"
    using elm by (simp add: loop)
  show "rb_remove_color (FR (Node a RB_RED y b) pc p # ctx) elm =
     (case remove_left_sibling elm b RB_RED p of
        None \<Rightarrow> None
      | Some (Inl t) \<Rightarrow> Some (plug (FR a RB_BLACK y # ctx) (blacken t))
      | Some (Inr t) \<Rightarrow> Some (blacken (plug (FR a RB_BLACK y # ctx) t)))"
    using elm by (simp add: loop)
  assume tmp: "rb_color tmp = RB_BLACK"
  show "rb_remove_color (FL pc p tmp # ctx) elm =
     (case remove_right_sibling elm pc p tmp of
        None \<Rightarrow> None
      | Some (Inl t) \<Rightarrow> rb_remove_color ctx t
      | Some (Inr t) \<Rightarrow> Some (blacken (plug ctx t)))"
    using elm tmp by (cases tmp) (simp_all only: loop rb_color.simps, simp_all)
  show "rb_remove_color (FR tmp pc p # ctx) elm =
     (case remove_left_sibling elm tmp pc p of
        None \<Rightarrow> None
      | Some (Inl t) \<Rightarrow> rb_remove_color ctx t
      | Some (Inr t) \<Rightarrow> Some (blacken (plug ctx t)))"
    using elm tmp by (cases tmp) (simp_all only: loop rb_color.simps, simp_all)
qed

text \<open>What the proof of an iteration needs of the following ones.\<close>

definition removes_below :: "'a frame list \<Rightarrow> bool" where
  "removes_below ctx \<longleftrightarrow> (\<forall>n t. short n t \<longrightarrow> ctx_rb (Suc n) ctx \<longrightarrow>
     (\<exists>t'. rb_remove_color ctx t = Some t' \<and> rb_tree t'))"

lemma remove_color_FL:
  assumes elm: "rb n elm" "rb_color elm = RB_BLACK"
    and ctx: "ctx_rb (Suc n) (FL pc p tmp # ctx)" and below: "removes_below ctx"
  shows "\<exists>t'. rb_remove_color (FL pc p tmp # ctx) elm = Some t' \<and> rb_tree t'"
proof (cases "rb_color tmp")
  case RB_RED
  then obtain a y b where tmp: "tmp = Node a RB_RED y b" by (cases tmp) auto
  with ctx have ab: "rb (Suc n) a" "rb_color a = RB_BLACK" "ctx_rb (Suc n) (FL RB_BLACK y b # ctx)"
    by (auto simp: color_cases split: if_splits)
  obtain s where s: "remove_right_sibling elm RB_RED p a = Some s" "mended n RB_RED s"
    using elm ab(1,2) by (rule right_sibling_rb)
  then show ?thesis
    using elm tmp mended_closes [OF s(2), of "FL RB_BLACK y b # ctx"] ab(3)
    by (cases s) (simp_all add: remove_color_eqs)
next
  case RB_BLACK
  have n: "rb (Suc n) tmp" using ctx by simp
  have up: "ctx_rb (up pc (Suc n)) ctx" "pc = RB_RED \<Longrightarrow> ctx \<noteq> [] \<and> frame_color ctx = RB_BLACK"
    using ctx by (auto simp: up_def split: if_splits)
  obtain s where s: "remove_right_sibling elm pc p tmp = Some s" "mended n pc s"
    using elm n RB_BLACK by (rule right_sibling_rb)
  then show ?thesis
    using elm RB_BLACK mended_closes [OF s(2) up] below up(1)
    by (cases s) (auto simp: remove_color_eqs removes_below_def)
qed

lemma remove_color_FR:
  assumes elm: "rb n elm" "rb_color elm = RB_BLACK"
    and ctx: "ctx_rb (Suc n) (FR tmp pc p # ctx)" and below: "removes_below ctx"
  shows "\<exists>t'. rb_remove_color (FR tmp pc p # ctx) elm = Some t' \<and> rb_tree t'"
proof (cases "rb_color tmp")
  case RB_RED
  then obtain a y b where tmp: "tmp = Node a RB_RED y b" by (cases tmp) auto
  with ctx have ab: "rb (Suc n) b" "rb_color b = RB_BLACK" "ctx_rb (Suc n) (FR a RB_BLACK y # ctx)"
    by (auto simp: color_cases split: if_splits)
  obtain s where s: "remove_left_sibling elm b RB_RED p = Some s" "mended n RB_RED s"
    using elm ab(1,2) by (rule left_sibling_rb)
  then show ?thesis
    using elm tmp mended_closes [OF s(2), of "FR a RB_BLACK y # ctx"] ab(3)
    by (cases s) (simp_all add: remove_color_eqs)
next
  case RB_BLACK
  have n: "rb (Suc n) tmp" using ctx by simp
  have up: "ctx_rb (up pc (Suc n)) ctx" "pc = RB_RED \<Longrightarrow> ctx \<noteq> [] \<and> frame_color ctx = RB_BLACK"
    using ctx by (auto simp: up_def split: if_splits)
  obtain s where s: "remove_left_sibling elm tmp pc p = Some s" "mended n pc s"
    using elm n RB_BLACK by (rule left_sibling_rb)
  then show ?thesis
    using elm RB_BLACK mended_closes [OF s(2) up] below up(1)
    by (cases s) (auto simp: remove_color_eqs removes_below_def)
qed

lemma remove_color_removes: "removes_below ctx"
proof (induction ctx)
  case Nil
  show ?case
    unfolding removes_below_def
  proof (intro allI impI)
    fix n and t :: "'a rbt" assume "short n t"
    then show "\<exists>t'. rb_remove_color [] t = Some t' \<and> rb_tree t'"
      using rb_blacken [of n t]
      by (cases "rb_color t") (auto simp: remove_color_eqs rb_tree_def short_def)
  qed
next
  case (Cons f ctx)
  show ?case
    unfolding removes_below_def
  proof (intro allI impI)
    fix n and t :: "'a rbt" assume t: "short n t" "ctx_rb (Suc n) (f # ctx)"
    show "\<exists>t'. rb_remove_color (f # ctx) t = Some t' \<and> rb_tree t'"
    proof (cases "rb_color t")
      case RB_RED
      then have "rb_tree (plug (f # ctx) (blacken t))"
        using t by (intro plug_rb [of "Suc n"]) (auto simp: short_def fits_def)
      then show ?thesis using RB_RED by (simp add: remove_color_eqs)
    next
      case RB_BLACK
      then show ?thesis
        using t Cons by (cases f) (auto simp: short_def intro: remove_color_FL remove_color_FR)
    qed
  qed
qed

lemma remove_color_rb:
  "short n t \<Longrightarrow> ctx_rb (Suc n) ctx \<Longrightarrow> \<exists>t'. rb_remove_color ctx t = Some t' \<and> rb_tree t'"
  using remove_color_removes by (auto simp: removes_below_def)

text \<open>The elements keep their order.\<close>

lemma rbt_color_cases:
  obtains (black) "rb_color t = RB_BLACK" | (red) a y b where "t = Node a RB_RED y b"
  by (cases t rule: rb_color.cases; cases "rb_color t") auto

lemma inorder_right_sibling:
  "remove_right_sibling elm pc p tmp = Some s \<Longrightarrow> inorder (case_sum id id s) = inorder elm @ p # inorder tmp"
  by (cases tmp) (auto split: if_splits rbt.splits)

lemma inorder_left_sibling:
  "remove_left_sibling elm tmp pc p = Some s \<Longrightarrow> inorder (case_sum id id s) = inorder tmp @ p # inorder elm"
  by (cases tmp) (auto split: if_splits rbt.splits)

lemma inorder_remove_color:
  "rb_remove_color ctx elm = Some t' \<Longrightarrow> inorder t' = before ctx @ inorder elm @ after ctx"
proof (induction ctx arbitrary: elm)
  case Nil
  then show ?case by (cases "rb_color elm") (auto simp: remove_color_eqs)
next
  case (Cons f ctx)
  show ?case
  proof (cases "rb_color elm")
    case RB_RED
    with Cons.prems show ?thesis by (auto simp: remove_color_eqs inorder_plug simp del: plug.simps)
  next
    case elm: RB_BLACK
    show ?thesis
    proof (cases f)
      case (FL pc p tmp)
      with Cons.prems elm show ?thesis
        by (cases tmp rule: rbt_color_cases)
          (auto simp: remove_color_eqs inorder_plug dest!: inorder_right_sibling Cons.IH
            split: option.splits sum.splits)
    next
      case (FR tmp pc p)
      with Cons.prems elm show ?thesis
        by (cases tmp rule: rbt_color_cases)
          (auto simp: remove_color_eqs inorder_plug dest!: inorder_left_sibling Cons.IH
            split: option.splits sum.splits)
    qed
  qed
qed

section \<open>A focus in a red-black tree\<close>

definition focus_rb :: "'a frame list \<Rightarrow> 'a rbt \<Rightarrow> bool" where
  "focus_rb ctx t \<longleftrightarrow> (\<exists>n. ctx_rb n ctx \<and> rb n t) \<and> fits ctx t"

lemma focus_rb_root: "rb_tree t \<Longrightarrow> focus_rb [] t"
  by (auto simp: focus_rb_def rb_tree_def fits_def)

lemma focus_rb_plug: "focus_rb ctx t \<Longrightarrow> rb_tree (plug ctx t)"
  by (auto simp: focus_rb_def intro: plug_rb)

lemma focus_rb_left: "focus_rb ctx (Node l c x r) \<Longrightarrow> focus_rb (FL c x r # ctx) l"
  and focus_rb_right: "focus_rb ctx (Node l c x r) \<Longrightarrow> focus_rb (FR l c x # ctx) r"
  by (cases c; fastforce simp: focus_rb_def fits_def)+

lemma focus_rb_search: "focus_rb ctx t \<Longrightarrow> rb_search cmp k ctx t = (ctx', t') \<Longrightarrow> focus_rb ctx' t'"
  by (induction cmp k ctx t rule: rb_search.induct)
    (auto intro: focus_rb_left focus_rb_right split: if_splits)

lemma focus_rb_descend:
  "focus_rb ctx (Node l c x r) \<Longrightarrow> rb_descend ctx l c x r = (ctx', c', y, child) \<Longrightarrow>
     focus_rb ctx' (Node Leaf c' y child)"
  by (induction ctx l c x r rule: rb_descend.induct) (auto dest: focus_rb_left)

lemma rb_descend_append:
  "rb_descend (p @ ctx) l c x r =
     (case rb_descend p l c x r of (p', c', y, child) \<Rightarrow> (p' @ ctx, c', y, child))"
  by (induction p l c x r rule: rb_descend.induct) auto

lemma frame_color_same_shape: "frame_color (p @ FR l c x # ctx) = frame_color (p @ FR l c y # ctx)"
  by (cases p rule: frame_color.cases) auto

lemma ctx_rb_same_shape: "ctx_rb n (p @ FR l c x # ctx) \<Longrightarrow> ctx_rb n (p @ FR l c y # ctx)"
  by (induction p arbitrary: n rule: before.induct)
    (auto simp: frame_color_same_shape [of _ l c x ctx y] split: if_splits)

lemma focus_rb_same_shape: "focus_rb (p @ FR l c x # ctx) t \<Longrightarrow> focus_rb (p @ FR l c y # ctx) t"
  unfolding focus_rb_def fits_def frame_color_same_shape [of p l c x ctx y]
  by (auto intro: ctx_rb_same_shape)

text \<open>The unlinked node leaves a focus that is complete, or short when a black node has gone.\<close>

lemma unlink_leaf:
  assumes "focus_rb ctx (Node Leaf c x t)"
  shows "(c = RB_RED \<longrightarrow> rb_tree (plug ctx t)) \<and> (c = RB_BLACK \<longrightarrow> (\<exists>n. short n t \<and> ctx_rb (Suc n) ctx))"
proof (cases c)
  case RB_RED
  with assms show ?thesis by (auto simp: focus_rb_def fits_def intro!: plug_rb)
next
  case RB_BLACK
  with assms show ?thesis by (auto simp: focus_rb_def intro: short_if_rb)
qed

lemma unlink_leaf_left:
  assumes "focus_rb ctx (Node t c x Leaf)"
  shows "(c = RB_RED \<longrightarrow> rb_tree (plug ctx t)) \<and> (c = RB_BLACK \<longrightarrow> (\<exists>n. short n t \<and> ctx_rb (Suc n) ctx))"
proof (cases c)
  case RB_RED
  with assms show ?thesis by (auto simp: focus_rb_def fits_def intro!: plug_rb)
next
  case RB_BLACK
  with assms show ?thesis by (auto simp: focus_rb_def intro: short_if_rb)
qed

section \<open>Operations on a focus\<close>

lemma plug_search: "rb_search cmp k ctx t = (ctx', t') \<Longrightarrow> plug ctx' t' = plug ctx t"
  by (induction cmp k ctx t rule: rb_search.induct) (auto split: if_splits)

lemma inorder_search:
  assumes "rb_search cmp k [] t = (ctx, t')"
  shows "inorder t = before ctx @ inorder t' @ after ctx"
  using plug_search [OF assms] inorder_plug [of ctx t'] by simp

lemma search_found: "rb_search cmp k ctx t = (ctx', Node l c x r) \<Longrightarrow> cmp k x = 0"
  by (induction cmp k ctx t rule: rb_search.induct) (auto split: if_splits)

lemma inorder_descend:
  "rb_descend ctx l c x r = (ctx', c', y, child) \<Longrightarrow>
     before ctx' = before ctx \<and> y # inorder child @ after ctx' = inorder l @ x # inorder r @ after ctx"
  by (induction ctx l c x r rule: rb_descend.induct) auto

lemma inorder_unlink:
  "rb_unlink ctx l c x r = (c', ctx', child) \<Longrightarrow>
     before ctx' @ inorder child @ after ctx' = before ctx @ inorder l @ inorder r @ after ctx"
  by (cases l; cases r)
    (auto simp: rb_unlink_def before_append after_append split: prod.splits dest!: inorder_descend)

lemma unlink_rb:
  assumes "focus_rb ctx (Node l c x r)" and "rb_unlink ctx l c x r = (c', ctx', child)"
  shows "(c' = RB_RED \<longrightarrow> rb_tree (plug ctx' child)) \<and>
    (c' = RB_BLACK \<longrightarrow> (\<exists>n. short n child \<and> ctx_rb (Suc n) ctx'))"
proof (cases l)
  case Leaf
  then have "c' = c" "ctx' = ctx" "child = r"
    using assms(2) by (simp_all add: rb_unlink_def)
  then show ?thesis using Leaf assms(1) unlink_leaf [of ctx c x r] by simp
next
  case l: (Node ll lc lx lr)
  show ?thesis
  proof (cases r)
    case Leaf
    then have "c' = c" "ctx' = ctx" "child = l"
      using assms(2) l by (simp_all add: rb_unlink_def)
    then show ?thesis using Leaf assms(1) unlink_leaf_left [of ctx l c x] by simp
  next
    case r: (Node rl rc rx rr)
    obtain p d y t where d: "rb_descend [] rl rc rx rr = (p, d, y, t)" by (cases "rb_descend [] rl rc rx rr")
    then have eq: "c' = d" "ctx' = p @ FR l c y # ctx" "child = t"
      using assms(2) l r by (simp_all add: rb_unlink_def)
    have "rb_descend [FR l c x] rl rc rx rr = (p @ [FR l c x], d, y, t)"
      using rb_descend_append [of "[]" "[FR l c x]" rl rc rx rr] d by simp
    then have "rb_descend (FR l c x # ctx) rl rc rx rr = (p @ FR l c x # ctx, d, y, t)"
      using rb_descend_append [of "[FR l c x]" ctx rl rc rx rr] by simp
    moreover have "focus_rb (FR l c x # ctx) (Node rl rc rx rr)"
      using assms(1) r by (blast intro: focus_rb_right)
    ultimately have "focus_rb (p @ FR l c x # ctx) (Node Leaf d y t)"
      by (rule focus_rb_descend [rotated])
    then have "focus_rb (p @ FR l c y # ctx) (Node Leaf d y t)"
      by (rule focus_rb_same_shape)
    then show ?thesis
      unfolding eq by (rule unlink_leaf)
  qed
qed

section \<open>The depth of a search\<close>

fun height :: "'a rbt \<Rightarrow> nat" where
  "height Leaf = 0"
| "height (Node l c x r) = Suc (max (height l) (height r))"

lemma rb_size: "rb n t \<Longrightarrow> 2 ^ n \<le> Suc (length (inorder t))"
proof (induction t arbitrary: n)
  case (Node l c x r)
  show ?case
  proof (cases c)
    case RB_RED
    with Node have "2 ^ n \<le> Suc (length (inorder l))" by simp
    then show ?thesis by simp
  next
    case RB_BLACK
    with Node.prems obtain m where "n = Suc m" "rb m l" "rb m r" by auto
    with Node.IH(1) [of m] Node.IH(2) [of m] show ?thesis by simp
  qed
qed simp

lemma rb_height: "rb n t \<Longrightarrow> height t \<le> (if rb_color t = RB_RED then Suc (2 * n) else 2 * n)"
proof (induction t arbitrary: n)
  case (Node l c x r)
  show ?case
  proof (cases c)
    case RB_RED
    with Node.prems Node.IH(1) [of n] Node.IH(2) [of n] show ?thesis by simp
  next
    case RB_BLACK
    with Node.prems obtain m where m: "n = Suc m" "rb m l" "rb m r" by auto
    then have "height l \<le> Suc (2 * m)" "height r \<le> Suc (2 * m)"
      using Node.IH(1) [of m] Node.IH(2) [of m] by (auto split: if_splits)
    then show ?thesis using m RB_BLACK by simp
  qed
qed simp

section \<open>The order of a traversal\<close>

definition head_option :: "'a list \<Rightarrow> 'a option" where
  "head_option xs = (case xs of [] \<Rightarrow> None | x # xs \<Rightarrow> Some x)"

lemma head_option_simps [simp]: "head_option [] = None" "head_option (x # xs) = Some x"
  by (simp_all add: head_option_def)

lemma min_inorder: "rb_min t = head_option (inorder t)"
proof -
  have "rb_minmax_loop (- 1) p t = (case inorder t of [] \<Rightarrow> p | x # xs \<Rightarrow> Some x)" for p
    by (induction t arbitrary: p) (auto split: list.splits)
  then show ?thesis by (simp add: rb_min_def head_option_def)
qed

lemma leftmost_inorder: "head_option (inorder l @ y # ys) = Some (rb_leftmost y l)"
  by (induction l arbitrary: y ys) auto

lemma climb_after: "rb_climb ctx = head_option (after ctx)"
  by (induction ctx rule: rb_climb.induct) auto

lemma same_middle:
  assumes "distinct (map key (xs @ x # zs))" and "xs @ x # zs = us @ x # vs"
  shows "xs = us" and "zs = vs"
proof -
  have "key x \<notin> key ` set xs" "key x \<notin> key ` set zs" using assms(1) by auto
  then have "x \<notin> set xs" "x \<notin> set zs" by auto
  with assms(2) show "xs = us" and "zs = vs" by (simp_all add: append_Cons_eq_iff)
qed

section \<open>Trees ordered by a key\<close>

definition ordered :: "('a \<Rightarrow> 'k::linorder) \<Rightarrow> 'a rbt \<Rightarrow> bool" where
  "ordered key t \<longleftrightarrow> sorted_wrt (<) (map key (inorder t))"

definition valid_tree :: "('a \<Rightarrow> 'k::linorder) \<Rightarrow> 'a rbt \<Rightarrow> bool" where
  "valid_tree key t \<longleftrightarrow> rb_tree t \<and> ordered key t"

text \<open>The finite map that a tree stands for: the element with a key.\<close>

definition keyed :: "('a \<Rightarrow> 'k) \<Rightarrow> 'a list \<Rightarrow> 'k \<Rightarrow> 'a option" where
  "keyed key xs = map_of (map (\<lambda>x. (key x, x)) xs)"

definition entry :: "('a \<Rightarrow> 'k) \<Rightarrow> 'a rbt \<Rightarrow> 'k \<Rightarrow> 'a option" where
  "entry key t = keyed key (inorder t)"

lemma keyed_simps [simp]:
  "keyed key [] = Map.empty"
  "keyed key (x # xs) = (keyed key xs)(key x \<mapsto> x)"
  "keyed key (xs @ ys) = keyed key ys ++ keyed key xs"
  by (simp_all add: keyed_def)

lemma keyed_SomeD: "keyed key xs k = Some x \<Longrightarrow> key x = k \<and> x \<in> set xs"
  by (induction xs) (auto split: if_splits)

lemma keyed_None_iff: "keyed key xs k = None \<longleftrightarrow> k \<notin> key ` set xs"
  by (induction xs) auto

lemma keyed_Some: "distinct (map key xs) \<Longrightarrow> x \<in> set xs \<Longrightarrow> keyed key xs (key x) = Some x"
  by (induction xs) (auto simp: image_iff)

lemma ordered_distinct: "ordered key t \<Longrightarrow> distinct (map key (inorder t))"
  by (auto simp: ordered_def strict_sorted_iff)

lemma entry_iff: "ordered key t \<Longrightarrow> entry key t k = Some x \<longleftrightarrow> x \<in> set (inorder t) \<and> key x = k"
  using keyed_SomeD [of key "inorder t" k x] keyed_Some [OF ordered_distinct [of key t], of x]
  by (auto simp: entry_def)

lemma valid_Leaf: "valid_tree key Leaf" "entry key Leaf = Map.empty"
  by (auto simp: valid_tree_def rb_tree_def ordered_def entry_def)

lemma distinct_middle:
  assumes "distinct (map key (xs @ x # zs))"
  shows "\<forall>y \<in> set xs. key y \<noteq> key x" and "\<forall>y \<in> set zs. key y \<noteq> key x"
proof -
  have "key x \<notin> key ` set xs" "key x \<notin> key ` set zs" using assms by auto
  then show "\<forall>y \<in> set xs. key y \<noteq> key x" and "\<forall>y \<in> set zs. key y \<noteq> key x"
    by (metis image_eqI)+
qed

text \<open>An element between two parts of an ordered list, and the map without it.\<close>

lemma keyed_middle:
  assumes "\<forall>y \<in> set xs. key y \<noteq> key x" and "\<forall>y \<in> set zs. key y \<noteq> key x"
  shows "keyed key (xs @ x # zs) = (keyed key (xs @ zs))(key x \<mapsto> x)"
    and "keyed key (xs @ zs) = (keyed key (xs @ x # zs))(key x := None)"
proof -
  have "keyed key xs (key x) = None" "keyed key zs (key x) = None"
    using assms by (force simp: keyed_None_iff)+
  then show "keyed key (xs @ x # zs) = (keyed key (xs @ zs))(key x \<mapsto> x)"
    and "keyed key (xs @ zs) = (keyed key (xs @ x # zs))(key x := None)"
    by (auto simp: fun_eq_iff map_add_def split: option.splits)
qed

text \<open>
  The macros are generated for a comparison function. It has to compare a key of the elements,
  as \<^verbatim>\<open>xh_core_map_info_cmp\<close> does with the path names.
\<close>

locale comparison =
  fixes cmp :: "'a \<Rightarrow> 'a \<Rightarrow> int" and key :: "'a \<Rightarrow> 'k::linorder"
  assumes cmp_less: "cmp a b < 0 \<longleftrightarrow> key a < key b"
    and cmp_greater: "cmp a b > 0 \<longleftrightarrow> key b < key a"
begin

lemma cmp_eq: "cmp a b = 0 \<longleftrightarrow> key a = key b"
  using cmp_less [of a b] cmp_greater [of a b] by (cases "key a" "key b" rule: linorder_cases) auto

text \<open>The search leaves smaller elements on its left and greater ones on its right.\<close>

definition splits :: "'a \<Rightarrow> 'a frame list \<Rightarrow> bool" where
  "splits k ctx \<longleftrightarrow> (\<forall>x \<in> set (before ctx). key x < key k) \<and> (\<forall>x \<in> set (after ctx). key k < key x)"

lemma splits_search:
  "rb_search cmp k ctx t = (ctx', t') \<Longrightarrow> ordered key t \<Longrightarrow> splits k ctx \<Longrightarrow> splits k ctx'"
proof (induction t arbitrary: ctx)
  case (Node l d y r)
  have sub: "ordered key l" "ordered key r"
    "x \<in> set (inorder l) \<Longrightarrow> key x < key y" "x \<in> set (inorder r) \<Longrightarrow> key y < key x" for x
    using Node.prems(2) by (auto simp: ordered_def sorted_wrt_append)
  show ?case
  proof (cases "key k" "key y" rule: linorder_cases)
    case less
    then have "splits k (FL d y r # ctx)"
      using Node.prems(3) sub(4) by (fastforce simp: splits_def)
    then show ?thesis
      using Node.IH(1) Node.prems(1) less sub(1) cmp_less by simp
  next
    case greater
    then have "splits k (FR l d y # ctx)"
      using Node.prems(3) sub(3) by (fastforce simp: splits_def)
    moreover have "\<not> cmp k y < 0" "cmp k y > 0" using greater cmp_less cmp_greater by auto
    ultimately show ?thesis
      using Node.IH(2) Node.prems(1) sub(2) by simp
  next
    case equal
    then show ?thesis using Node.prems cmp_less cmp_greater by simp
  qed
qed simp

lemma found:
  assumes "rb_search cmp k [] t = (ctx, Node l c x r)" and "ordered key t"
  shows "key x = key k" and "entry key t (key k) = Some x" and "x \<in> set (inorder t)"
proof -
  show "key x = key k" using search_found [OF assms(1)] cmp_eq by simp
  moreover show "x \<in> set (inorder t)" using inorder_search [OF assms(1)] by simp
  ultimately show "entry key t (key k) = Some x" using assms(2) by (simp add: entry_iff)
qed

lemma not_found:
  assumes "rb_search cmp k [] t = (ctx, Leaf)" and "ordered key t"
  shows "inorder t = before ctx @ after ctx" and "splits k ctx" and "entry key t (key k) = None"
proof -
  show t: "inorder t = before ctx @ after ctx" using inorder_search [OF assms(1)] by simp
  show s: "splits k ctx" using splits_search [OF assms] by (simp add: splits_def)
  then show "entry key t (key k) = None"
    unfolding entry_def keyed_None_iff t by (force simp: splits_def)
qed

lemma search_cases:
  assumes "ordered key t"
  obtains (present) ctx l c x r where "rb_search cmp k [] t = (ctx, Node l c x r)" "entry key t (key k) = Some x"
    | (absent) ctx where "rb_search cmp k [] t = (ctx, Leaf)" "entry key t (key k) = None"
proof (cases "rb_search cmp k [] t")
  case (Pair ctx t')
  then show ?thesis
    using assms that(1) found(2) that(2) not_found(3) by (cases t') auto
qed

lemma splits_neq: "splits k ctx \<Longrightarrow> \<forall>y \<in> set (before ctx). key y \<noteq> key k" "splits k ctx \<Longrightarrow> \<forall>y \<in> set (after ctx). key y \<noteq> key k"
  by (auto simp: splits_def)

text \<open>\<open>RB_INSERT\<close>: it changes nothing when the key is there, and adds the element otherwise.\<close>

lemma insert_present:
  assumes "valid_tree key t" and "entry key t (key elm) = Some x"
  shows "rb_insert cmp elm t = Some (Some x, t)"
proof -
  have "ordered key t" using assms(1) by (simp add: valid_tree_def)
  then show ?thesis
    by (cases rule: search_cases [where k = elm]) (use assms(2) in \<open>auto simp: rb_insert_def\<close>)
qed

lemma insert_absent:
  assumes "valid_tree key t" and "entry key t (key elm) = None"
  shows "\<exists>t'. rb_insert cmp elm t = Some (None, t') \<and> valid_tree key t' \<and>
    entry key t' = (entry key t)(key elm \<mapsto> elm)"
proof -
  have t: "rb_tree t" "ordered key t" using assms(1) by (simp_all add: valid_tree_def)
  obtain ctx where s: "rb_search cmp elm [] t = (ctx, Leaf)"
    using t(2) by (cases rule: search_cases [where k = elm]) (use assms(2) in auto)
  obtain n where "ctx_rb n ctx" "rb n (Leaf :: 'a rbt)"
    using focus_rb_search [OF focus_rb_root [OF t(1)] s] by (auto simp: focus_rb_def)
  then obtain t' where t': "rb_insert_color ctx (Node Leaf RB_RED elm Leaf) = Some t'" "rb_tree t'"
    using insert_color_rb [of n "Node Leaf RB_RED elm Leaf" ctx] by auto
  have i: "inorder t' = before ctx @ elm # after ctx" using inorder_insert_color [OF t'(1)] by simp
  note nf = not_found [OF s t(2)]
  have "ordered key t'"
    using t(2) nf by (auto simp: ordered_def i sorted_wrt_append splits_def)
  moreover have "entry key t' = (entry key t)(key elm \<mapsto> elm)"
    unfolding entry_def i nf(1) by (intro keyed_middle splits_neq nf(2))
  ultimately show ?thesis
    using s t' by (auto simp: rb_insert_def valid_tree_def)
qed

lemma find_search:
  "rb_find cmp k t = (case rb_search cmp k ctx t of (c, Leaf) \<Rightarrow> None | (c, Node l d x r) \<Rightarrow> Some x)"
  by (induction t arbitrary: ctx) auto

lemma find_entry:
  assumes "valid_tree key t"
  shows "rb_find cmp k t = entry key t (key k)"
proof -
  have "ordered key t" using assms(1) by (simp add: valid_tree_def)
  then show ?thesis
    by (cases rule: search_cases [where k = k]) (simp_all add: find_search [of k t "[]"])
qed

text \<open>\<open>RB_REMOVE\<close> of an element that is in the tree.\<close>

lemma remove_split:
  assumes "valid_tree key t" and "entry key t (key elm) = Some x"
  obtains t' xs y ys where "rb_remove cmp elm t = Some t'" and "valid_tree key t'" and "key y = key elm"
    and "inorder t = xs @ y # ys" and "inorder t' = xs @ ys"
proof -
  have t: "rb_tree t" "ordered key t" using assms(1) by (simp_all add: valid_tree_def)
  obtain ctx l c y r where s: "rb_search cmp elm [] t = (ctx, Node l c y r)"
    using t(2) by (cases rule: search_cases [where k = elm]) (use assms(2) in auto)
  obtain c' ctx' child where u: "rb_unlink ctx l c y r = (c', ctx', child)" by (cases "rb_unlink ctx l c y r")
  have "focus_rb ctx (Node l c y r)" using focus_rb_search [OF focus_rb_root [OF t(1)] s] .
  note shape = unlink_rb [OF this u]
  have "\<exists>t'. rb_remove cmp elm t = Some t' \<and> rb_tree t' \<and> inorder t' = before ctx' @ inorder child @ after ctx'"
  proof (cases c')
    case RB_BLACK
    then show ?thesis
      using shape s u remove_color_rb inorder_remove_color by (fastforce simp: rb_remove_def)
  next
    case RB_RED
    then show ?thesis
      using shape s u by (auto simp: rb_remove_def inorder_plug)
  qed
  then obtain t' where t': "rb_remove cmp elm t = Some t'" "rb_tree t'"
    "inorder t' = (before ctx @ inorder l) @ (inorder r @ after ctx)"
    using inorder_unlink [OF u] by auto
  have i: "inorder t = (before ctx @ inorder l) @ y # (inorder r @ after ctx)"
    using inorder_search [OF s] by simp
  have "ordered key t'"
    using t(2) by (auto simp: ordered_def i t'(3) sorted_wrt_append)
  then show ?thesis
    using that [OF t'(1) _ _ i t'(3)] t'(2) found(1) [OF s t(2)] by (simp add: valid_tree_def)
qed

lemma remove_entry:
  assumes "valid_tree key t" and "entry key t (key elm) = Some x"
  shows "\<exists>t'. rb_remove cmp elm t = Some t' \<and> valid_tree key t' \<and> entry key t' = (entry key t)(key elm := None)"
proof -
  obtain t' xs y ys where t': "rb_remove cmp elm t = Some t'" "valid_tree key t'" "key y = key elm"
    and i: "inorder t = xs @ y # ys" "inorder t' = xs @ ys"
    by (rule remove_split [OF assms])
  have "distinct (map key (xs @ y # ys))"
    using assms(1) ordered_distinct [of key t] i(1) by (simp add: valid_tree_def)
  from keyed_middle(2) [OF distinct_middle [OF this]]
  have "entry key t' = (entry key t)(key elm := None)"
    unfolding entry_def i t'(3) .
  then show ?thesis using t' by blast
qed

lemma remove_inorder:
  assumes "valid_tree key t" and "inorder t = xs @ x # ys"
  obtains t' where "rb_remove cmp x t = Some t'" and "valid_tree key t'" and "inorder t' = xs @ ys"
proof -
  have o: "ordered key t" using assms(1) by (simp add: valid_tree_def)
  have "entry key t (key x) = Some x" using o assms(2) by (simp add: entry_iff)
  then obtain t' us y vs where t': "rb_remove cmp x t = Some t'" "valid_tree key t'" "key y = key x"
    "inorder t = us @ y # vs" "inorder t' = us @ vs"
    using assms(1) by (metis remove_split)
  have "y = x"
    using ordered_distinct [OF o] t'(3,4) assms(2) by (metis distinct_map in_set_conv_decomp inj_onD)
  with t'(4) assms(2) have "us @ x # vs = xs @ x # ys" "inorder t = us @ x # vs" by simp_all
  then have "us = xs" "vs = ys"
    using ordered_distinct [OF o] same_middle [of key us x vs xs ys] by simp_all
  then show ?thesis using that t' by simp
qed

text \<open>\<open>RB_MIN\<close> and \<open>RB_NEXT\<close> go through the elements in ascending order.\<close>

lemma next_inorder:
  assumes "valid_tree key t" and "inorder t = xs @ x # ys"
  shows "rb_next cmp x t = head_option ys"
proof -
  have t: "ordered key t" using assms(1) by (simp add: valid_tree_def)
  have "entry key t (key x) = Some x" using t assms(2) by (simp add: entry_iff)
  then obtain ctx l c r where s: "rb_search cmp x [] t = (ctx, Node l c x r)"
    using t by (auto elim: search_cases [where k = x])
  have "inorder t = (before ctx @ inorder l) @ x # (inorder r @ after ctx)"
    using inorder_search [OF s] by simp
  then have "ys = inorder r @ after ctx"
    using same_middle(2) [of key xs x ys "before ctx @ inorder l"] ordered_distinct [OF t] assms(2) by metis
  then show ?thesis
    using s by (cases r) (simp_all add: rb_next_def climb_after leftmost_inorder)
qed

end

end
