(* ===== verification/MapInfo.thy ===== *)
theory MapInfo
  imports Prelude RbProofs "HOL-Library.List_Lexorder" "HOL-Library.Char_ord"
begin

text \<open>
  The records of the loaded ELF files (\<open>xh_core_map_info_t\<close> of \<^verbatim>\<open>xh_core.c\<close>) and the red-black tree that
  holds them, ordered by path name.
\<close>

section \<open>strcmp\<close>

text \<open>The characters of a buffer up to its NUL; the end of a list stands for a NUL too.\<close>

definition c_str :: "string \<Rightarrow> string" where
  "c_str s = takeWhile (\<lambda>c. c \<noteq> CHR 0x00) s"

fun strcmp :: "string \<Rightarrow> string \<Rightarrow> int" where
  "strcmp [] [] = 0"
| "strcmp [] (d # ds) = - of_char d"
| "strcmp (c # cs) [] = of_char c"
| "strcmp (c # cs) (d # ds) = (if c = d \<and> c \<noteq> CHR 0x00 then strcmp cs ds else of_char c - of_char d)"

lemma c_str_simps [simp]:
  "c_str [] = []" "c_str (c # s) = (if c = CHR 0x00 then [] else c # c_str s)"
  by (simp_all add: c_str_def)

lemma c_str_no_NUL: "CHR 0x00 \<notin> set s \<Longrightarrow> c_str s = s"
  by (induction s) auto

lemma of_char_nonneg [simp]: "0 \<le> (of_char c :: int)"
  by (metis of_nat_0_le_iff of_nat_of_char)

lemma of_char_not_neg [simp]: "\<not> (of_char c :: int) < 0"
  by (simp add: not_less)

lemma of_char_pos: "0 < (of_char c :: int) \<longleftrightarrow> c \<noteq> CHR 0x00"
proof -
  have "(of_char c :: int) = 0 \<longleftrightarrow> c = CHR 0x00"
    using of_char_eq_iff [of c "CHR 0x00", where ?'a = int] by simp
  then show ?thesis by (simp add: order.strict_iff_order)
qed

lemma char_less_int: "c < d \<longleftrightarrow> (of_char c :: int) < of_char d"
  by (simp add: less_char_def of_nat_of_char [symmetric, where ?'a = int] del: of_nat_of_char)

lemma strcmp_less: "strcmp a b < 0 \<longleftrightarrow> c_str a < c_str b"
  by (induction a b rule: strcmp.induct) (auto simp: char_less_int of_char_pos)

lemma strcmp_greater: "strcmp a b > 0 \<longleftrightarrow> c_str b < c_str a"
  by (induction a b rule: strcmp.induct) (auto simp: char_less_int of_char_pos)

section \<open>The records and their order\<close>

text \<open>
  The member \<open>elf\<close> is not kept: \<open>xh_elf_init\<close> fills it anew whenever a file is hooked, and nothing
  else reads it. It is a value of \<open>xh_core_hook_impl\<close> here.
\<close>

record map_info =
  mi_pathname :: string
  mi_base_addr :: addr

definition xh_core_map_info_cmp :: "map_info \<Rightarrow> map_info \<Rightarrow> int" where
  "xh_core_map_info_cmp a b = strcmp (mi_pathname a) (mi_pathname b)"

definition path_key :: "map_info \<Rightarrow> string" where
  "path_key mi = c_str (mi_pathname mi)"

interpretation mi: comparison xh_core_map_info_cmp path_key
  by unfold_locales (simp_all add: xh_core_map_info_cmp_def path_key_def strcmp_less strcmp_greater)

section \<open>Trees through their entries\<close>

lemma entry_card:
  assumes "valid_tree key t"
  shows "finite (dom (entry key t))" and "card (dom (entry key t)) = length (inorder t)"
proof -
  have d: "distinct (map key (inorder t))"
    using assms ordered_distinct by (auto simp: valid_tree_def)
  have "dom (entry key t) = set (map key (inorder t))"
    unfolding entry_def by (rule set_eqI) (simp add: domIff keyed_None_iff)
  then show "finite (dom (entry key t))" and "card (dom (entry key t)) = length (inorder t)"
    using distinct_card [OF d] by simp_all
qed

text \<open>A store to the elements that leaves their keys alone.\<close>

lemma inorder_map: "inorder (map_rbt f t) = map f (inorder t)"
  by (induction t) auto

lemma rb_map: "rb n (map_rbt f t) = rb n t"
proof -
  have "rb_color (map_rbt f t) = rb_color t" for t by (cases t) auto
  then show ?thesis by (induction t arbitrary: n) auto
qed

lemma keyed_map:
  assumes "\<And>x. key (f x) = key x"
  shows "keyed key (map f xs) k = map_option f (keyed key xs k)"
  using assms by (induction xs) (auto simp: fun_upd_apply)

lemma map_valid:
  assumes "valid_tree key t" and "\<And>x. key (f x) = key x"
  shows "valid_tree key (map_rbt f t)" and "entry key (map_rbt f t) k = map_option f (entry key t k)"
proof -
  have "rb_color (map_rbt f t) = rb_color t" by (cases t) auto
  moreover have "map key (map f (inorder t)) = map key (inorder t)"
    using assms(2) by simp
  ultimately show "valid_tree key (map_rbt f t)"
    using assms(1) by (simp add: valid_tree_def rb_tree_def rb_map ordered_def inorder_map del: map_map)
  show "entry key (map_rbt f t) k = map_option f (entry key t k)"
    using keyed_map [of key f] assms(2) by (simp add: entry_def inorder_map)
qed

section \<open>Emptying a tree\<close>

text \<open>A null dereference faults.\<close>

definition derefE :: "'a option \<Rightarrow> 'a res" where
  "derefE r = (case r of None \<Rightarrow> Inl Segv | Some x \<Rightarrow> Inr x)"

text \<open>
  \<open>RB_FOREACH_SAFE\<close> with a body that removes the element and hands it to \<open>release\<close>, which frees it:
  the next element is found before.
\<close>

fun RB_FOREACH_SAFE_free ::
    "nat \<Rightarrow> ('a \<Rightarrow> 'a \<Rightarrow> int) \<Rightarrow> 'a option \<Rightarrow> ('a \<Rightarrow> 's \<Rightarrow> 's) \<Rightarrow> 'a rbt \<Rightarrow> 's \<Rightarrow> ('a rbt \<times> 's) res" where
  "RB_FOREACH_SAFE_free fuel cmp None release t s = Inr (t, s)"
| "RB_FOREACH_SAFE_free 0 cmp (Some x) release t s = Inl Diverge"
| "RB_FOREACH_SAFE_free (Suc fuel) cmp (Some x) release t s =
     (let y = rb_next cmp x t
      in seqE (derefE (rb_remove cmp x t)) (\<lambda>t.
         RB_FOREACH_SAFE_free fuel cmp y release t (release x s)))"

context comparison
begin

lemma foreach_safe_free:
  "valid_tree key t \<Longrightarrow> length (inorder t) \<le> fuel \<Longrightarrow>
     RB_FOREACH_SAFE_free fuel cmp (rb_min t) release t s = Inr (Leaf, fold release (inorder t) s)"
proof (induction "inorder t" arbitrary: t fuel s)
  case Nil
  then have "t = Leaf" by (cases t) auto
  then show ?case by (simp add: min_inorder)
next
  case (Cons x xs)
  obtain n where n: "fuel = Suc n" using Cons.prems(2) Cons.hyps(2) by (cases fuel) auto
  have x: "inorder t = [] @ x # xs" using Cons.hyps(2) by simp
  obtain t' where t': "rb_remove cmp x t = Some t'" "valid_tree key t'" "inorder t' = [] @ xs"
    by (rule remove_inorder [OF Cons.prems(1) x])
  then have "RB_FOREACH_SAFE_free n cmp (rb_min t') release t' (release x s) = Inr (Leaf, fold release xs (release x s))"
    using Cons.hyps(1) [of t' n "release x s"] Cons.prems(2) n x by simp
  then show ?case
    using n x t' next_inorder [OF Cons.prems(1) x] by (simp add: min_inorder derefE_def)
qed

end

section \<open>The tree of the loaded files\<close>

text \<open>
  Claim C5. A red-black tree of file records, ordered by path name, is a finite map from path names to records
  under the operations of \<^verbatim>\<open>tree.h\<close>: \<open>RB_FIND\<close> looks a path up, \<open>RB_INSERT\<close> adds a record whose
  path is new and only reports the record that is there otherwise, and \<open>RB_REMOVE\<close> takes a record out. No rotation follows a null pointer,
  and the results are red-black trees in the order of the path names again.
\<close>

theorem map_info_tree_is_map:
  assumes "valid_tree path_key t"
  shows "rb_find xh_core_map_info_cmp k t = entry path_key t (path_key k) \<and>
    (case entry path_key t (path_key k) of
       None \<Rightarrow> \<exists>t'. rb_insert xh_core_map_info_cmp k t = Some (None, t') \<and> valid_tree path_key t' \<and>
         entry path_key t' = (entry path_key t)(path_key k \<mapsto> k)
     | Some x \<Rightarrow> rb_insert xh_core_map_info_cmp k t = Some (Some x, t) \<and>
         (\<exists>t'. rb_remove xh_core_map_info_cmp k t = Some t' \<and> valid_tree path_key t' \<and>
           entry path_key t' = (entry path_key t)(path_key k := None)))"
  using mi.find_entry [OF assms] mi.insert_absent [OF assms] mi.insert_present [OF assms]
    mi.remove_entry [OF assms]
  by (auto split: option.splits)

definition example_tree :: "map_info rbt" where
  "example_tree = Node (Node Leaf RB_RED \<lparr>mi_pathname = ''a'', mi_base_addr = 1\<rparr> Leaf) RB_BLACK
     \<lparr>mi_pathname = ''b'', mi_base_addr = 2\<rparr> Leaf"

lemma example_tree_valid: "valid_tree path_key example_tree"
proof -
  have "rb 1 example_tree" by (simp add: example_tree_def)
  moreover have "rb_color example_tree = RB_BLACK" by (simp add: example_tree_def)
  moreover have "ordered path_key example_tree"
    by (simp add: ordered_def example_tree_def path_key_def less_char_def)
  ultimately show ?thesis by (auto simp: valid_tree_def rb_tree_def)
qed

lemma map_info_tree_is_map_witness:
  "rb_find xh_core_map_info_cmp \<lparr>mi_pathname = ''a'', mi_base_addr = 0\<rparr> example_tree =
     Some \<lparr>mi_pathname = ''a'', mi_base_addr = 1\<rparr>"
  using map_info_tree_is_map [OF example_tree_valid, of "\<lparr>mi_pathname = ''a'', mi_base_addr = 0\<rparr>"]
  by (simp add: entry_def keyed_def example_tree_def path_key_def)

section \<open>A history of the tree\<close>

text \<open>
  What \<^verbatim>\<open>xh_core.c\<close> does with the tree over time: \<open>RB_INSERT\<close> of a record, and \<open>RB_REMOVE\<close> of the record that
  \<open>RB_FIND\<close> has found under a path; \<open>None\<close> when a null pointer is followed.
\<close>

datatype tree_op = InsertRecord map_info | RemoveRecord map_info

fun tree_op_run :: "tree_op \<Rightarrow> map_info rbt \<Rightarrow> map_info rbt option" where
  "tree_op_run (InsertRecord mi) t = map_option snd (rb_insert xh_core_map_info_cmp mi t)"
| "tree_op_run (RemoveRecord mi) t =
     (case rb_find xh_core_map_info_cmp mi t of None \<Rightarrow> Some t | Some x \<Rightarrow> rb_remove xh_core_map_info_cmp x t)"

fun tree_ops_run :: "tree_op list \<Rightarrow> map_info rbt \<Rightarrow> map_info rbt option" where
  "tree_ops_run [] t = Some t"
| "tree_ops_run (op1 # ops) t = Option.bind (tree_op_run op1 t) (tree_ops_run ops)"

text \<open>The same on maps.\<close>

fun map_op :: "tree_op \<Rightarrow> (string \<Rightarrow> map_info option) \<Rightarrow> (string \<Rightarrow> map_info option)" where
  "map_op (InsertRecord mi) m = (if m (path_key mi) = None then m(path_key mi \<mapsto> mi) else m)"
| "map_op (RemoveRecord mi) m = m(path_key mi := None)"

text \<open>\<open>RB_FIND\<close> with the number of calls of the comparison function that it makes.\<close>

fun rb_find_counted :: "('a \<Rightarrow> 'a \<Rightarrow> int) \<Rightarrow> 'a \<Rightarrow> 'a rbt \<Rightarrow> 'a option \<times> nat" where
  "rb_find_counted cmp k Leaf = (None, 0)"
| "rb_find_counted cmp k (Node l c x r) =
     (if cmp k x < 0 then apsnd Suc (rb_find_counted cmp k l)
      else if cmp k x > 0 then apsnd Suc (rb_find_counted cmp k r) else (Some x, 1))"

lemma find_counted: "fst (rb_find_counted cmp k t) = rb_find cmp k t" "snd (rb_find_counted cmp k t) \<le> height t"
  by (induction t) auto

lemma find_counted_bound:
  assumes "valid_tree key t"
  shows "2 ^ snd (rb_find_counted cmp k t) \<le> (Suc (card (dom (entry key t))))\<^sup>2"
proof -
  obtain n where n: "rb n t" "rb_color t = RB_BLACK"
    using assms by (auto simp: valid_tree_def rb_tree_def)
  have "snd (rb_find_counted cmp k t) \<le> 2 * n"
    using find_counted(2) [of cmp k t] rb_height [OF n(1)] n(2) by simp
  then have "(2::nat) ^ snd (rb_find_counted cmp k t) \<le> 2 ^ (2 * n)"
    by (rule power_increasing) simp
  also have "\<dots> = (2 ^ n)\<^sup>2"
    by (simp add: power_mult [symmetric] mult.commute)
  also have "\<dots> \<le> (Suc (length (inorder t)))\<^sup>2"
    using rb_size [OF n(1)] by (intro power_mono) auto
  finally show ?thesis by (simp add: entry_card [OF assms])
qed

lemma entry_key:
  assumes "entry key t k = Some x"
  shows "key x = k"
proof -
  have "(k, x) \<in> set (map (\<lambda>x. (key x, x)) (inorder t))"
    using assms map_of_SomeD unfolding entry_def keyed_def by fastforce
  then show ?thesis by auto
qed

lemma tree_op_run_valid:
  assumes "valid_tree path_key t"
  shows "\<exists>t'. tree_op_run op1 t = Some t' \<and> valid_tree path_key t' \<and> entry path_key t' = map_op op1 (entry path_key t)"
proof (cases op1)
  case (InsertRecord mi)
  then show ?thesis
    using mi.insert_absent [OF assms, of mi] mi.insert_present [OF assms, of mi] assms
    by (cases "entry path_key t (path_key mi)") auto
next
  case (RemoveRecord mi)
  show ?thesis
  proof (cases "entry path_key t (path_key mi)")
    case None
    then have "(entry path_key t)(path_key mi := None) = entry path_key t" by auto
    then show ?thesis using RemoveRecord None assms by (simp add: mi.find_entry [OF assms])
  next
    case (Some x)
    then show ?thesis
      using RemoveRecord mi.remove_entry [OF assms, of x x] entry_key [OF Some] by (simp add: mi.find_entry [OF assms])
  qed
qed

lemma tree_ops_run_valid:
  "valid_tree path_key t \<Longrightarrow> \<exists>t'. tree_ops_run ops t = Some t' \<and> valid_tree path_key t' \<and>
     entry path_key t' = fold map_op ops (entry path_key t)"
proof (induction ops arbitrary: t)
  case (Cons op1 ops)
  obtain t1 where "tree_op_run op1 t = Some t1" "valid_tree path_key t1" "entry path_key t1 = map_op op1 (entry path_key t)"
    using tree_op_run_valid [OF Cons.prems] by blast
  with Cons.IH [of t1] show ?case by simp
qed simp

text \<open>
  Claim C33. Whatever records are inserted and removed, in whatever order, from the empty tree on: no operation follows a null
  pointer, \<open>RB_FIND\<close> then gives what the same operations make of a finite map from path names to records, and a search,
  successful or not, calls the comparison function at most \<open>2 log (n + 1)\<close> times when \<open>n\<close> records are in the tree.
\<close>

theorem tree_history_fast_map:
  "\<exists>t. tree_ops_run ops Leaf = Some t \<and>
     (\<forall>k. rb_find xh_core_map_info_cmp k t = fold map_op ops Map.empty (path_key k) \<and>
        fst (rb_find_counted xh_core_map_info_cmp k t) = rb_find xh_core_map_info_cmp k t \<and>
        2 ^ snd (rb_find_counted xh_core_map_info_cmp k t) \<le> (Suc (card (dom (fold map_op ops Map.empty))))\<^sup>2)"
proof -
  obtain t where t: "tree_ops_run ops Leaf = Some t" "valid_tree path_key t" "entry path_key t = fold map_op ops Map.empty"
    using tree_ops_run_valid [OF valid_Leaf(1), of ops] by (auto simp: valid_Leaf(2))
  then show ?thesis
    using mi.find_entry [OF t(2)] find_counted(1) [of xh_core_map_info_cmp _ t] find_counted_bound [OF t(2), of xh_core_map_info_cmp]
    by (intro exI [of _ t]) simp
qed

end
