(* ===== verification/RbOrder.thy ===== *)
theory RbOrder
  imports MapInfo
begin

text \<open>
  The operations of \<^verbatim>\<open>tree.h\<close> that go by the order of the elements and are generated for the records, though \<^verbatim>\<open>xh_core.c\<close> calls
  none of them: \<open>RB_NFIND\<close>, \<open>RB_MAX\<close> and \<open>RB_PREV\<close>.
\<close>

section \<open>The operations\<close>

text \<open>\<open>RB_NFIND\<close>: \<open>res\<close> is the last node at which the search went left.\<close>

fun rb_nfind_loop :: "('a \<Rightarrow> 'a \<Rightarrow> int) \<Rightarrow> 'a \<Rightarrow> 'a option \<Rightarrow> 'a rbt \<Rightarrow> 'a option" where
  "rb_nfind_loop cmp k res Leaf = res"
| "rb_nfind_loop cmp k res (Node l c x r) =
     (if cmp k x < 0 then rb_nfind_loop cmp k (Some x) l
      else if cmp k x > 0 then rb_nfind_loop cmp k res r
      else Some x)"

definition rb_nfind :: "('a \<Rightarrow> 'a \<Rightarrow> int) \<Rightarrow> 'a \<Rightarrow> 'a rbt \<Rightarrow> 'a option" where
  "rb_nfind cmp k t = rb_nfind_loop cmp k None t"

definition rb_max :: "'a rbt \<Rightarrow> 'a option" where
  "rb_max t = rb_minmax_loop 1 None t"

text \<open>\<open>RB_PREV\<close>: down into the left subtree, or up while the focus is a left child.\<close>

fun rb_rightmost :: "'a \<Rightarrow> 'a rbt \<Rightarrow> 'a" where
  "rb_rightmost x Leaf = x"
| "rb_rightmost x (Node l c y r) = rb_rightmost y r"

fun rb_climb_left :: "'a frame list \<Rightarrow> 'a option" where
  "rb_climb_left [] = None"
| "rb_climb_left (FR l c x # ctx) = Some x"
| "rb_climb_left (FL c x r # ctx) = rb_climb_left ctx"

definition rb_prev :: "('a \<Rightarrow> 'a \<Rightarrow> int) \<Rightarrow> 'a \<Rightarrow> 'a rbt \<Rightarrow> 'a option" where
  "rb_prev cmp elm t = (case rb_search cmp elm [] t of
       (ctx, Node l c x r) \<Rightarrow> (case l of Leaf \<Rightarrow> rb_climb_left ctx | Node ll lc y lr \<Rightarrow> Some (rb_rightmost y lr))
     | (ctx, Leaf) \<Rightarrow> None)"

section \<open>What they return\<close>

lemma max_inorder: "rb_max t = head_option (rev (inorder t))"
proof -
  have "rb_minmax_loop 1 p t = (case rev (inorder t) of [] \<Rightarrow> p | x # xs \<Rightarrow> Some x)" for p
    by (induction t arbitrary: p) (auto split: list.splits)
  then show ?thesis by (simp add: rb_max_def head_option_def)
qed

lemma rightmost_inorder: "head_option (rev (inorder r) @ y # ys) = Some (rb_rightmost y r)"
  by (induction r arbitrary: y ys) auto

lemma climb_before: "rb_climb_left ctx = head_option (rev (before ctx))"
  by (induction ctx rule: rb_climb_left.induct) auto

lemma find_none: "(\<forall>x\<in>set xs. \<not> P x) \<Longrightarrow> find P xs = None"
  by (simp add: find_None_iff)

context comparison
begin

text \<open>The first element that is not smaller than the key.\<close>

lemma nfind_loop:
  assumes "ordered key t"
  shows "rb_nfind_loop cmp k res t = (case find (\<lambda>x. key k \<le> key x) (inorder t) of None \<Rightarrow> res | Some x \<Rightarrow> Some x)"
  using assms
proof (induction t arbitrary: res)
  case (Node l c x r)
  have sub: "ordered key l" "ordered key r" "\<forall>y\<in>set (inorder l). key y < key x"
    using Node.prems by (auto simp: ordered_def sorted_wrt_append)
  show ?case
  proof (cases "key k" "key x" rule: linorder_cases)
    case less
    then show ?thesis
      using Node.IH(1) [OF sub(1)] cmp_less by (simp add: find_append less_imp_le [OF less] split: option.splits)
  next
    case greater
    then have "find (\<lambda>x. key k \<le> key x) (inorder l) = None" using sub(3) by (intro find_none) auto
    moreover have "\<not> key k \<le> key x" using greater by simp
    ultimately show ?thesis
      using greater Node.IH(2) [OF sub(2)] cmp_less [of k x] cmp_greater [of k x] by (simp add: find_append)
  next
    case equal
    then have "find (\<lambda>x. key k \<le> key x) (inorder l) = None" using sub(3) by (intro find_none) auto
    then show ?thesis
      using equal cmp_less [of k x] cmp_greater [of k x] by (simp add: find_append)
  qed
qed simp

lemma nfind_first: "valid_tree key t \<Longrightarrow> rb_nfind cmp k t = find (\<lambda>x. key k \<le> key x) (inorder t)"
  by (auto simp: rb_nfind_def nfind_loop valid_tree_def split: option.splits)

text \<open>\<open>RB_PREV\<close> goes back one step.\<close>

lemma prev_inorder:
  assumes "valid_tree key t" and "inorder t = xs @ x # ys"
  shows "rb_prev cmp x t = head_option (rev xs)"
proof -
  have t: "ordered key t" using assms(1) by (simp add: valid_tree_def)
  have "entry key t (key x) = Some x" using t assms(2) by (simp add: entry_iff)
  then obtain ctx l c r where s: "rb_search cmp x [] t = (ctx, Node l c x r)"
    using t by (auto elim: search_cases [where k = x])
  have "inorder t = (before ctx @ inorder l) @ x # (inorder r @ after ctx)"
    using inorder_search [OF s] by simp
  then have "xs = before ctx @ inorder l"
    using same_middle(1) [of key xs x ys "before ctx @ inorder l"] ordered_distinct [OF t] assms(2) by metis
  then show ?thesis
    using s by (cases l) (simp_all add: rb_prev_def climb_before rightmost_inorder)
qed

lemma prev_next:
  assumes "valid_tree key t" and "x \<in> set (inorder t)" and "rb_next cmp x t = Some y"
  shows "rb_prev cmp y t = Some x"
proof -
  obtain xs ys where i: "inorder t = xs @ x # ys" using assms(2) by (auto simp: in_set_conv_decomp)
  then obtain zs where "ys = y # zs"
    using next_inorder [OF assms(1) i] assms(3) by (cases ys) auto
  then have "inorder t = (xs @ [x]) @ y # zs" using i by simp
  from prev_inorder [OF assms(1) this] show ?thesis by simp
qed

end

section \<open>The records\<close>

text \<open>Going back undoes going forward, and a search for a path finds the first record that is not before it.\<close>

lemma map_info_order:
  assumes "valid_tree path_key t"
  shows "rb_nfind xh_core_map_info_cmp k t = find (\<lambda>mi. path_key k \<le> path_key mi) (inorder t)"
    and "mi \<in> set (inorder t) \<Longrightarrow> rb_next xh_core_map_info_cmp mi t = Some mi' \<Longrightarrow> rb_prev xh_core_map_info_cmp mi' t = Some mi"
    and "rb_max t = head_option (rev (inorder t))"
  by (rule mi.nfind_first [OF assms], rule mi.prev_next [OF assms], assumption+, rule max_inorder)

end
