(* ===== verification/Effects.thy ===== *)
theory Effects
  imports Prelude
begin

text \<open>
  Computations that change a state and may end abnormally: the state is kept when they do, since
  what the C code has stored before a fault stays stored.
\<close>

type_synonym ('s, 'a) eff = "'s \<Rightarrow> 'a res \<times> 's"

definition retE :: "'a \<Rightarrow> ('s, 'a) eff" where
  "retE x w = (Inr x, w)"

definition bindE :: "('s, 'a) eff \<Rightarrow> ('a \<Rightarrow> ('s, 'b) eff) \<Rightarrow> ('s, 'b) eff" where
  "bindE m f w = (case m w of (Inl t, w') \<Rightarrow> (Inl t, w') | (Inr x, w') \<Rightarrow> f x w')"

text \<open>A computation that only reads, and a store.\<close>

definition readE :: "('s \<Rightarrow> 'a res) \<Rightarrow> ('s, 'a) eff" where
  "readE r w = (r w, w)"

definition storeE :: "('s \<Rightarrow> 's res) \<Rightarrow> ('s, unit) eff" where
  "storeE st w = (case st w of Inl t \<Rightarrow> (Inl t, w) | Inr w' \<Rightarrow> (Inr (), w'))"

text \<open>A call of the kernel: it does not fault.\<close>

definition sysE :: "('s \<Rightarrow> 'a \<times> 's) \<Rightarrow> ('s, 'a) eff" where
  "sysE f w = (let (x, w') = f w in (Inr x, w'))"

lemma retE_simps [simp]: "retE x w = (Inr x, w)"
  by (simp add: retE_def)

text \<open>Inversion of a run: the first part ends it, or the second part goes on.\<close>

lemma bindE_cases [consumes 1, case_names trap go]:
  assumes "bindE m f w = (r, w')"
  obtains t where "m w = (Inl t, w')" and "r = Inl t"
    | x w1 where "m w = (Inr x, w1)" and "f x w1 = (r, w')"
  using assms by (auto simp: bindE_def split: prod.splits sum.splits)

lemma readE_run: "readE f w = (r, w') \<longleftrightarrow> r = f w \<and> w' = w"
  by (auto simp: readE_def)

lemma storeE_run:
  "storeE f w = (r, w') \<longleftrightarrow> (\<exists>t. f w = Inl t \<and> r = Inl t \<and> w' = w) \<or> (f w = Inr w' \<and> r = Inr ())"
  by (auto simp: storeE_def split: sum.splits)

lemma sysE_run: "sysE f w = (r, w') \<longleftrightarrow> (\<exists>x. f w = (x, w') \<and> r = Inr x)"
  by (auto simp: sysE_def Let_def split: prod.splits)

lemmas eff_run = readE_run storeE_run sysE_run

end
