(* ===== verification/Tailq.thy ===== *)
theory Tailq
  imports Effects
begin

text \<open>
  The tail queues of \<^verbatim>\<open>queue.h\<close> at the level of their pointers. An element is named by its
  address, a number; \<open>cells\<close> holds the elements that are allocated. \<open>tqh_last\<close> and \<open>tqe_prev\<close> point
  to a pointer: the one in the head, or the \<open>tqe_next\<close> of an element. An access to an element that is not
  allocated is \<open>Undef\<close>.
\<close>

section \<open>Heads, entries and the pointers to pointers\<close>

datatype slot_ref = HeadFirst | NextOf nat

record 'a node =
  content :: 'a
  tqe_next :: "nat option"
  tqe_prev :: slot_ref

record 'a tailq =
  tqh_first :: "nat option"
  tqh_last :: slot_ref
  cells :: "nat \<Rightarrow> 'a node option"

definition TAILQ_HEAD_INITIALIZER :: "'a tailq" where
  "TAILQ_HEAD_INITIALIZER = \<lparr>tqh_first = None, tqh_last = HeadFirst, cells = Map.empty\<rparr>"

text \<open>\<open>TAILQ_NEXT\<close> of an element, and the stores through its pointers.\<close>

definition cell :: "'a tailq \<Rightarrow> nat \<Rightarrow> 'a node res" where
  "cell q n = (case cells q n of None \<Rightarrow> Inl Undef | Some c \<Rightarrow> Inr c)"

definition TAILQ_NEXT :: "'a tailq \<Rightarrow> nat \<Rightarrow> nat option res" where
  "TAILQ_NEXT q n = seqE (cell q n) (\<lambda>c. Inr (tqe_next c))"

definition set_next :: "nat \<Rightarrow> nat option \<Rightarrow> 'a tailq \<Rightarrow> 'a tailq res" where
  "set_next n v q = seqE (cell q n) (\<lambda>c. Inr (q\<lparr>cells := (cells q)(n \<mapsto> c\<lparr>tqe_next := v\<rparr>)\<rparr>))"

definition set_prev :: "nat \<Rightarrow> slot_ref \<Rightarrow> 'a tailq \<Rightarrow> 'a tailq res" where
  "set_prev n v q = seqE (cell q n) (\<lambda>c. Inr (q\<lparr>cells := (cells q)(n \<mapsto> c\<lparr>tqe_prev := v\<rparr>)\<rparr>))"

fun set_ref :: "slot_ref \<Rightarrow> nat option \<Rightarrow> 'a tailq \<Rightarrow> 'a tailq res" where
  "set_ref HeadFirst v q = Inr (q\<lparr>tqh_first := v\<rparr>)"
| "set_ref (NextOf n) v q = set_next n v q"

text \<open>\<open>malloc\<close> and \<open>free\<close> of an element; its link is not set before it is inserted.\<close>

definition new_cell :: "nat \<Rightarrow> 'a \<Rightarrow> 'a tailq \<Rightarrow> 'a tailq" where
  "new_cell n x q = q\<lparr>cells := (cells q)(n \<mapsto> \<lparr>content = x, tqe_next = None, tqe_prev = HeadFirst\<rparr>)\<rparr>"

definition free_cell :: "nat \<Rightarrow> 'a tailq \<Rightarrow> 'a tailq res" where
  "free_cell n q = seqE (cell q n) (\<lambda>c. Inr (q\<lparr>cells := (cells q)(n := None)\<rparr>))"

section \<open>Insertion and removal\<close>

definition TAILQ_INSERT_TAIL :: "nat \<Rightarrow> 'a tailq \<Rightarrow> 'a tailq res" where
  "TAILQ_INSERT_TAIL elm q =
     seqE (set_next elm None q) (\<lambda>q.
     seqE (set_prev elm (tqh_last q) q) (\<lambda>q.
     seqE (set_ref (tqh_last q) (Some elm) q) (\<lambda>q.
     Inr (q\<lparr>tqh_last := NextOf elm\<rparr>))))"

definition TAILQ_REMOVE :: "nat \<Rightarrow> 'a tailq \<Rightarrow> 'a tailq res" where
  "TAILQ_REMOVE elm q =
     seqE (cell q elm) (\<lambda>c.
     seqE (case tqe_next c of
         Some next \<Rightarrow> set_prev next (tqe_prev c) q
       | None \<Rightarrow> Inr (q\<lparr>tqh_last := tqe_prev c\<rparr>)) (\<lambda>q.
     set_ref (tqe_prev c) (tqe_next c) q))"

section \<open>Traversals\<close>

text \<open>
  \<open>TAILQ_FOREACH\<close> from the element \<open>var\<close>: the body may end the loop with a value, as \<open>break\<close>,
  \<open>return\<close> and \<open>goto\<close> out of it do. The first argument bounds the iterations.
\<close>

fun TAILQ_FOREACH :: "nat \<Rightarrow> 'a tailq \<Rightarrow> nat option \<Rightarrow> ('a \<Rightarrow> ('s, 'b option) eff) \<Rightarrow> ('s, 'b option) eff" where
  "TAILQ_FOREACH fuel q None body = retE None"
| "TAILQ_FOREACH 0 q (Some var) body = readE (\<lambda>_. Inl Diverge)"
| "TAILQ_FOREACH (Suc fuel) q (Some var) body =
     bindE (readE (\<lambda>_. cell q var)) (\<lambda>c.
     bindE (body (content c)) (\<lambda>r.
     case r of Some b \<Rightarrow> retE (Some b) | None \<Rightarrow> TAILQ_FOREACH fuel q (tqe_next c) body))"

text \<open>
  \<open>TAILQ_FOREACH_SAFE\<close> with the body of \<open>xh_core_clear\<close>: remove the element, hand its content
  to \<open>release\<close>, and free it.
\<close>

fun TAILQ_FOREACH_SAFE_free :: "nat \<Rightarrow> nat option \<Rightarrow> ('a \<Rightarrow> 's \<Rightarrow> 's) \<Rightarrow> 'a tailq \<Rightarrow> 's \<Rightarrow> ('a tailq \<times> 's) res" where
  "TAILQ_FOREACH_SAFE_free fuel None release q s = Inr (q, s)"
| "TAILQ_FOREACH_SAFE_free 0 (Some var) release q s = Inl Diverge"
| "TAILQ_FOREACH_SAFE_free (Suc fuel) (Some var) release q s =
     seqE (TAILQ_NEXT q var) (\<lambda>tvar.
     seqE (TAILQ_REMOVE var q) (\<lambda>q.
     seqE (cell q var) (\<lambda>c.
     seqE (free_cell var q) (\<lambda>q.
     TAILQ_FOREACH_SAFE_free fuel tvar release q (release (content c) s)))))"

section \<open>The list a queue stands for\<close>

text \<open>The elements \<open>xs\<close> are linked from the pointer \<open>p\<close>, which is stored at \<open>l\<close>, to \<open>r\<close>.\<close>

fun segment :: "(nat \<Rightarrow> 'a node option) \<Rightarrow> slot_ref \<Rightarrow> (nat \<times> 'a) list \<Rightarrow> nat option \<Rightarrow> nat option \<Rightarrow> bool" where
  "segment cs l [] p r \<longleftrightarrow> p = r"
| "segment cs l (x # xs) p r \<longleftrightarrow> p = Some (fst x) \<and>
     (\<exists>c. cs (fst x) = Some c \<and> content c = snd x \<and> tqe_prev c = l \<and>
       segment cs (NextOf (fst x)) xs (tqe_next c) r)"

definition end_ref :: "slot_ref \<Rightarrow> (nat \<times> 'a) list \<Rightarrow> slot_ref" where
  "end_ref l xs = (if xs = [] then l else NextOf (fst (last xs)))"

definition queue_list :: "'a tailq \<Rightarrow> (nat \<times> 'a) list \<Rightarrow> bool" where
  "queue_list q xs \<longleftrightarrow> distinct (map fst xs) \<and> segment (cells q) HeadFirst xs (tqh_first q) None \<and>
     tqh_last q = end_ref HeadFirst xs"

lemma end_ref_simps [simp]:
  "end_ref l [] = l" "end_ref l (x # xs) = end_ref (NextOf (fst x)) xs" "end_ref l (xs @ ys) = end_ref (end_ref l xs) ys"
  by (auto simp: end_ref_def)

lemma segment_append [simp]:
  "segment cs l (xs @ ys) p r \<longleftrightarrow> (\<exists>m. segment cs l xs p m \<and> segment cs (end_ref l xs) ys m r)"
  by (induction xs arbitrary: l p) auto

lemma segment_other [simp]:
  "n \<notin> fst ` set xs \<Longrightarrow> segment (cs(n := v)) l xs p r = segment cs l xs p r"
  by (induction xs arbitrary: l p) auto

lemma segment_alive: "segment cs l xs p r \<Longrightarrow> x \<in> set xs \<Longrightarrow> \<exists>c. cs (fst x) = Some c \<and> content c = snd x"
  by (induction xs arbitrary: l p) auto

lemma segment_cong: "(\<And>n. n \<in> fst ` set xs \<Longrightarrow> cs n = cs' n) \<Longrightarrow> segment cs l xs p r = segment cs' l xs p r"
  by (induction xs arbitrary: l p) auto

text \<open>A segment with a new end: only the pointer at its end is stored.\<close>

lemma segment_new_end:
  assumes "segment cs l (xs @ [x]) p r" and "distinct (map fst (xs @ [x]))" and "cs (fst x) = Some c"
  shows "segment (cs(fst x \<mapsto> c\<lparr>tqe_next := v\<rparr>)) l (xs @ [x]) p v"
  using assms by auto

lemma queue_list_empty: "queue_list TAILQ_HEAD_INITIALIZER []"
  by (simp add: queue_list_def TAILQ_HEAD_INITIALIZER_def)

lemma queue_list_first: "queue_list q xs \<Longrightarrow> tqh_first q = (case xs of [] \<Rightarrow> None | x # _ \<Rightarrow> Some (fst x))"
  by (auto simp: queue_list_def split: list.splits)

lemma queue_list_alive: "queue_list q xs \<Longrightarrow> x \<in> set xs \<Longrightarrow> \<exists>c. cells q (fst x) = Some c \<and> content c = snd x"
  by (auto simp: queue_list_def intro: segment_alive)

lemma set_ref_segment:
  assumes "segment (cells q) HeadFirst xs (tqh_first q) r" and "distinct (map fst xs)"
  obtains q' where "set_ref (end_ref HeadFirst xs) v q = Inr q'" and "tqh_last q' = tqh_last q"
    and "segment (cells q') HeadFirst xs (tqh_first q') v"
    and "\<And>n. n \<notin> fst ` set xs \<Longrightarrow> cells q' n = cells q n" and "dom (cells q') = dom (cells q)"
proof (cases xs rule: rev_cases)
  case Nil
  with assms that [of "q\<lparr>tqh_first := v\<rparr>"] show ?thesis by simp
next
  case (snoc ys x)
  obtain c where c: "cells q (fst x) = Some c"
    using segment_alive [OF assms(1), of x] snoc by auto
  let ?q = "q\<lparr>cells := (cells q)(fst x \<mapsto> c\<lparr>tqe_next := v\<rparr>)\<rparr>"
  have "segment (cells ?q) HeadFirst xs (tqh_first ?q) v"
    using segment_new_end [of "cells q" HeadFirst ys x "tqh_first q" r c v] assms c snoc
    by (simp del: segment_append)
  moreover have "set_ref (end_ref HeadFirst xs) v q = Inr ?q"
    using c snoc by (simp add: set_next_def cell_def)
  moreover have "dom (cells ?q) = dom (cells q)" using c by auto
  ultimately show ?thesis using that [of ?q] snoc by auto
qed

text \<open>\<open>TAILQ_INSERT_TAIL\<close> appends, \<open>TAILQ_REMOVE\<close> takes one element out; neither faults.\<close>

lemma INSERT_TAIL_list:
  assumes "queue_list q xs" and "n \<notin> fst ` set xs" and "cells q n = Some c"
  obtains q' where "TAILQ_INSERT_TAIL n q = Inr q'" and "queue_list q' (xs @ [(n, content c)])"
    and "dom (cells q') = dom (cells q)"
proof -
  let ?c = "c\<lparr>tqe_next := None, tqe_prev := tqh_last q\<rparr>"
  let ?q = "q\<lparr>cells := (cells q)(n \<mapsto> ?c)\<rparr>"
  have "segment (cells ?q) HeadFirst xs (tqh_first ?q) None" "distinct (map fst xs)"
    using assms(1,2) by (simp_all add: queue_list_def)
  then obtain q' where q': "set_ref (end_ref HeadFirst xs) (Some n) ?q = Inr q'" "tqh_last q' = tqh_last ?q"
    "segment (cells q') HeadFirst xs (tqh_first q') (Some n)"
    "\<And>n. n \<notin> fst ` set xs \<Longrightarrow> cells q' n = cells ?q n" "dom (cells q') = dom (cells ?q)"
    by (rule set_ref_segment [where v = "Some n"]) blast
  have l: "tqh_last q = end_ref HeadFirst xs" using assms(1) by (simp add: queue_list_def)
  have "set_prev n (tqh_last q) (q\<lparr>cells := (cells q)(n \<mapsto> c\<lparr>tqe_next := None\<rparr>)\<rparr>) = Inr ?q"
    by (simp add: set_prev_def cell_def)
  then have "TAILQ_INSERT_TAIL n q = Inr (q'\<lparr>tqh_last := NextOf n\<rparr>)"
    using assms(3) q'(1) l by (simp add: TAILQ_INSERT_TAIL_def set_next_def cell_def)
  moreover have "queue_list (q'\<lparr>tqh_last := NextOf n\<rparr>) (xs @ [(n, content c)])"
    using assms(1,2) q'(3) q'(4) [OF assms(2)] l by (auto simp: queue_list_def)
  moreover have "dom (cells q') = dom (cells q)" using q'(5) assms(3) by auto
  ultimately show ?thesis using that by simp
qed

lemma REMOVE_list:
  assumes "queue_list q (xs @ x # ys)"
  obtains q' where "TAILQ_REMOVE (fst x) q = Inr q'" and "queue_list q' (xs @ ys)"
    and "dom (cells q') = dom (cells q)"
    and "\<exists>c. cells q' (fst x) = Some c \<and> content c = snd x"
proof -
  have d: "distinct (map fst xs)" "fst x \<notin> fst ` set xs" "fst x \<notin> fst ` set ys"
    using assms by (auto simp: queue_list_def)
  obtain c where c: "cells q (fst x) = Some c" "content c = snd x" "tqe_prev c = end_ref HeadFirst xs"
    "segment (cells q) HeadFirst xs (tqh_first q) (Some (fst x))"
    "segment (cells q) (NextOf (fst x)) ys (tqe_next c) None"
    using assms by (auto simp: queue_list_def)
  show ?thesis
  proof (cases ys)
    case Nil
    obtain q' where q': "set_ref (end_ref HeadFirst xs) None (q\<lparr>tqh_last := tqe_prev c\<rparr>) = Inr q'"
      "tqh_last q' = tqe_prev c" "segment (cells q') HeadFirst xs (tqh_first q') None"
      "\<And>n. n \<notin> fst ` set xs \<Longrightarrow> cells q' n = cells q n" "dom (cells q') = dom (cells q)"
      using set_ref_segment [of "q\<lparr>tqh_last := tqe_prev c\<rparr>" xs _ None] c(4) d(1) by auto
    with Nil c d show ?thesis
      using that [of q'] by (simp add: TAILQ_REMOVE_def cell_def queue_list_def)
  next
    case (Cons y zs)
    then obtain cy where y: "tqe_next c = Some (fst y)" "cells q (fst y) = Some cy" "content cy = snd y"
      "segment (cells q) (NextOf (fst y)) zs (tqe_next cy) None"
      using c(5) by auto
    have n: "fst y \<notin> fst ` set xs" "fst y \<notin> fst ` set zs" "distinct (map fst zs)" "fst ` set xs \<inter> fst ` set zs = {}"
      "fst x \<noteq> fst y"
      using assms Cons by (auto simp: queue_list_def)
    let ?q = "q\<lparr>cells := (cells q)(fst y \<mapsto> cy\<lparr>tqe_prev := tqe_prev c\<rparr>)\<rparr>"
    have "segment (cells ?q) HeadFirst xs (tqh_first ?q) (Some (fst x))" using c(4) n(1) by simp
    then obtain q' where q': "set_ref (end_ref HeadFirst xs) (Some (fst y)) ?q = Inr q'"
      "tqh_last q' = tqh_last q" "segment (cells q') HeadFirst xs (tqh_first q') (Some (fst y))"
      "\<And>n. n \<notin> fst ` set xs \<Longrightarrow> cells q' n = cells ?q n" "dom (cells q') = dom (cells ?q)"
      using set_ref_segment [of ?q xs _ "Some (fst y)"] d(1) by auto
    have agree: "cells q' m = cells q m" if "m \<in> fst ` set zs" for m
    proof -
      have "m \<notin> fst ` set xs" "m \<noteq> fst y" using that n(2,4) by blast+
      then show ?thesis using q'(4) by simp
    qed
    have "segment (cells q') (NextOf (fst y)) zs (tqe_next cy) None"
      using y(4) agree segment_cong [of zs "cells q'" "cells q"] by blast
    then have "queue_list q' (xs @ ys)"
      using assms Cons c(3) y(3) n q'(2,3) q'(4) [OF n(1)] by (auto simp: queue_list_def)
    moreover have "TAILQ_REMOVE (fst x) q = Inr q'"
      using c(1,3) y(1,2) q'(1) by (simp add: TAILQ_REMOVE_def cell_def set_prev_def)
    moreover have "dom (cells q') = dom (cells q)" using q'(5) y(2) by auto
    ultimately show ?thesis
      using that [of q'] q'(4) [OF d(2)] n(5) c(1,2) by simp
  qed
qed

text \<open>A traversal runs over the list; it ends within as many iterations as there are elements.\<close>

fun list_foreach :: "'a list \<Rightarrow> ('a \<Rightarrow> ('s, 'b option) eff) \<Rightarrow> ('s, 'b option) eff" where
  "list_foreach [] body = retE None"
| "list_foreach (x # xs) body =
     bindE (body x) (\<lambda>r. case r of Some b \<Rightarrow> retE (Some b) | None \<Rightarrow> list_foreach xs body)"

lemma FOREACH_segment:
  "segment (cells q) l xs p None \<Longrightarrow> length xs \<le> fuel \<Longrightarrow>
     TAILQ_FOREACH fuel q p body s = list_foreach (map snd xs) body s"
proof (induction xs arbitrary: l p fuel s)
  case Nil
  then show ?case by simp
next
  case (Cons x xs)
  obtain n where n: "fuel = Suc n" "length xs \<le> n" using Cons.prems(2) by (cases fuel) auto
  obtain c where c: "p = Some (fst x)" "cells q (fst x) = Some c" "content c = snd x"
    "segment (cells q) (NextOf (fst x)) xs (tqe_next c) None"
    using Cons.prems(1) by auto
  show ?case
    using Cons.IH [OF c(4) n(2)] c(1-3) n(1)
    by (auto simp: bindE_def readE_def cell_def split: prod.splits sum.splits option.splits)
qed

lemma FOREACH_list:
  "queue_list q xs \<Longrightarrow> length xs \<le> fuel \<Longrightarrow>
     TAILQ_FOREACH fuel q (tqh_first q) body = list_foreach (map snd xs) body"
  by (auto simp: queue_list_def intro!: ext FOREACH_segment)

lemma FOREACH_SAFE_free_list:
  assumes "queue_list q xs" and "length xs \<le> fuel"
  shows "\<exists>q'. TAILQ_FOREACH_SAFE_free fuel (tqh_first q) release q s = Inr (q', fold release (map snd xs) s) \<and>
    queue_list q' [] \<and> dom (cells q') = dom (cells q) - fst ` set xs"
  using assms
proof (induction xs arbitrary: q fuel s)
  case Nil
  then show ?case using queue_list_first [OF Nil.prems(1)] by auto
next
  case (Cons x xs)
  obtain n where n: "fuel = Suc n" "length xs \<le> n" using Cons.prems(2) by (cases fuel) auto
  obtain c where c: "cells q (fst x) = Some c" "tqe_next c = (case xs of [] \<Rightarrow> None | x # _ \<Rightarrow> Some (fst x))"
    using Cons.prems(1) by (cases xs) (auto simp: queue_list_def)
  have q: "queue_list q ([] @ x # xs)" using Cons.prems(1) by simp
  obtain q1 c1 where q1: "TAILQ_REMOVE (fst x) q = Inr q1" "queue_list q1 xs" "dom (cells q1) = dom (cells q)"
    "cells q1 (fst x) = Some c1" "content c1 = snd x"
    by (rule REMOVE_list [OF q]) auto
  let ?q = "q1\<lparr>cells := (cells q1)(fst x := None)\<rparr>"
  have "queue_list ?q xs" using q1(2) Cons.prems(1) by (simp add: queue_list_def)
  from Cons.IH [OF this n(2), of "release (snd x) s"] obtain q' where q': "TAILQ_FOREACH_SAFE_free n (tqh_first ?q) release ?q (release (snd x) s) =
      Inr (q', fold release (map snd xs) (release (snd x) s))" "queue_list q' []"
    "dom (cells q') = dom (cells ?q) - fst ` set xs"
    by blast
  have "dom (cells ?q) = dom (cells q) - {fst x}" using q1(3) by simp
  then have d: "dom (cells q') = dom (cells q) - fst ` set (x # xs)"
    unfolding q'(3) by auto
  have "tqh_first ?q = tqe_next c" using queue_list_first [OF q1(2)] c(2) by simp
  then have "TAILQ_FOREACH_SAFE_free fuel (tqh_first q) release q s = Inr (q', fold release (map snd (x # xs)) s)"
    using q'(1) q1 n(1) c(1) queue_list_first [OF Cons.prems(1)]
    by (simp add: TAILQ_NEXT_def cell_def free_cell_def)
  with q'(2) d show ?case by blast
qed

section \<open>The interface\<close>

text \<open>
  What the lists of registered hooks rely on: an element allocated at a new address and appended
  comes last, one that is removed and freed is gone, and the others keep their order.
\<close>

locale fifo =
  fixes rep :: "'q \<Rightarrow> (nat \<times> 'a) list \<Rightarrow> bool" and alive :: "'q \<Rightarrow> nat set"
    and empty :: 'q and append :: "nat \<Rightarrow> 'a \<Rightarrow> 'q \<Rightarrow> 'q res" and discard :: "nat \<Rightarrow> 'q \<Rightarrow> 'q res"
  assumes rep_empty: "rep empty []" and alive_empty: "alive empty = {}"
    and rep_distinct: "rep q xs \<Longrightarrow> distinct (map fst xs)"
    and append_rep: "rep q xs \<Longrightarrow> n \<notin> alive q \<Longrightarrow> n \<notin> fst ` set xs \<Longrightarrow>
      \<exists>q'. append n x q = Inr q' \<and> rep q' (xs @ [(n, x)]) \<and> alive q' = insert n (alive q)"
    and discard_rep: "rep q (xs @ e # ys) \<Longrightarrow>
      \<exists>q'. discard (fst e) q = Inr q' \<and> rep q' (xs @ ys) \<and> alive q' = alive q - {fst e}"
begin

text \<open>No element is allocated outside the queue.\<close>

definition owns :: "'q \<Rightarrow> (nat \<times> 'a) list \<Rightarrow> bool" where
  "owns q xs \<longleftrightarrow> rep q xs \<and> alive q = fst ` set xs"

lemma owns_empty: "owns empty []"
  by (simp add: owns_def rep_empty alive_empty)

lemma owns_append:
  assumes "owns q xs" and "n \<notin> fst ` set xs"
  obtains q' where "append n x q = Inr q'" and "owns q' (xs @ [(n, x)])"
  using assms append_rep [of q xs n x] by (auto simp: owns_def)

lemma owns_discard:
  assumes "owns q (xs @ e # ys)"
  obtains q' where "discard (fst e) q = Inr q'" and "owns q' (xs @ ys)"
proof -
  have "fst e \<notin> fst ` set xs" "fst e \<notin> fst ` set ys"
    using assms rep_distinct [of q "xs @ e # ys"] by (auto simp: owns_def)
  moreover obtain q' where "discard (fst e) q = Inr q'" "rep q' (xs @ ys)" "alive q' = alive q - {fst e}"
    using assms discard_rep [of q xs e ys] by (auto simp: owns_def)
  ultimately show ?thesis using assms that by (auto simp: owns_def)
qed

end

definition append_new :: "nat \<Rightarrow> 'a \<Rightarrow> 'a tailq \<Rightarrow> 'a tailq res" where
  "append_new n x q = TAILQ_INSERT_TAIL n (new_cell n x q)"

definition remove_free :: "nat \<Rightarrow> 'a tailq \<Rightarrow> 'a tailq res" where
  "remove_free n q = seqE (TAILQ_REMOVE n q) (free_cell n)"

lemma append_new_list:
  assumes "queue_list q xs" and "n \<notin> dom (cells q)" and "n \<notin> fst ` set xs"
  shows "\<exists>q'. append_new n x q = Inr q' \<and> queue_list q' (xs @ [(n, x)]) \<and> dom (cells q') = insert n (dom (cells q))"
proof -
  have "queue_list (new_cell n x q) xs"
    using assms(1,3) by (simp add: queue_list_def new_cell_def)
  moreover obtain c where "cells (new_cell n x q) n = Some c" "content c = x"
    by (simp add: new_cell_def)
  ultimately obtain q' where "TAILQ_INSERT_TAIL n (new_cell n x q) = Inr q'"
    "queue_list q' (xs @ [(n, x)])" "dom (cells q') = dom (cells (new_cell n x q))"
    using assms(3) by (metis INSERT_TAIL_list)
  then show ?thesis by (auto simp: append_new_def new_cell_def)
qed

lemma remove_free_list:
  assumes "queue_list q (xs @ e # ys)"
  shows "\<exists>q'. remove_free (fst e) q = Inr q' \<and> queue_list q' (xs @ ys) \<and> dom (cells q') = dom (cells q) - {fst e}"
proof -
  obtain q1 c where q1: "TAILQ_REMOVE (fst e) q = Inr q1" "queue_list q1 (xs @ ys)"
    "dom (cells q1) = dom (cells q)" "cells q1 (fst e) = Some c"
    by (rule REMOVE_list [OF assms]) auto
  let ?q = "q1\<lparr>cells := (cells q1)(fst e := None)\<rparr>"
  have "fst e \<notin> fst ` set (xs @ ys)" using assms by (auto simp: queue_list_def)
  then have "queue_list ?q (xs @ ys)"
    using q1(2) by (simp add: queue_list_def del: segment_append)
  moreover have "remove_free (fst e) q = Inr ?q"
    using q1(1,4) by (simp add: remove_free_def free_cell_def cell_def)
  moreover have "dom (cells ?q) = dom (cells q) - {fst e}" using q1(3) by simp
  ultimately show ?thesis by blast
qed

interpretation tq: fifo queue_list "\<lambda>q. dom (cells q)" TAILQ_HEAD_INITIALIZER append_new remove_free
proof unfold_locales
  show "queue_list TAILQ_HEAD_INITIALIZER []" by (rule queue_list_empty)
  show "dom (cells TAILQ_HEAD_INITIALIZER) = {}" by (simp add: TAILQ_HEAD_INITIALIZER_def)
  show "queue_list q xs \<Longrightarrow> distinct (map fst xs)" for q :: "'a tailq" and xs
    by (simp add: queue_list_def)
qed (rule append_new_list remove_free_list; assumption)+

section \<open>A queue in use\<close>

text \<open>
  Claim C12. In a queue that holds the elements \<open>xs @ e # ys\<close>, \<open>TAILQ_REMOVE\<close> of \<open>e\<close> and then
  \<open>TAILQ_INSERT_TAIL\<close> of a new element \<open>x\<close> follow only pointers to live elements, and a
  \<open>TAILQ_FOREACH\<close> afterwards visits \<open>xs\<close>, \<open>ys\<close> and \<open>x\<close> in this order, whatever its body does, and
  ends after as many iterations as there are elements.
\<close>

theorem tailq_keeps_order:
  assumes "queue_list q (xs @ e # ys)" and "n \<notin> dom (cells q)"
  shows "\<exists>q1 q2. TAILQ_REMOVE (fst e) q = Inr q1 \<and> TAILQ_INSERT_TAIL n (new_cell n x q1) = Inr q2 \<and>
    queue_list q2 (xs @ ys @ [(n, x)]) \<and>
    TAILQ_FOREACH (length (xs @ ys @ [(n, x)])) q2 (tqh_first q2) body = list_foreach (map snd (xs @ ys) @ [x]) body"
proof -
  obtain q1 where q1: "TAILQ_REMOVE (fst e) q = Inr q1" "queue_list q1 (xs @ ys)"
    "dom (cells q1) = dom (cells q)"
    by (rule REMOVE_list [OF assms(1)])
  have "n \<notin> fst ` set (xs @ ys)"
    using assms(2) queue_list_alive [OF q1(2)] q1(3) by fastforce
  then obtain q2 where q2: "append_new n x q1 = Inr q2" "queue_list q2 ((xs @ ys) @ [(n, x)])"
    using append_new_list [OF q1(2)] assms(2) q1(3) by blast
  then show ?thesis
    using q1(1) FOREACH_list [OF q2(2), of "length (xs @ ys @ [(n, x)])" body]
    by (auto simp: append_new_def)
qed

definition example_queue :: "nat tailq" where
  "example_queue = \<lparr>tqh_first = Some 1, tqh_last = NextOf 2,
     cells = [1 \<mapsto> \<lparr>content = 10, tqe_next = Some 2, tqe_prev = HeadFirst\<rparr>,
              2 \<mapsto> \<lparr>content = 20, tqe_next = None, tqe_prev = NextOf 1\<rparr>]\<rparr>"

lemma tailq_keeps_order_witness:
  "\<exists>q1 q2. TAILQ_REMOVE 1 example_queue = Inr q1 \<and> TAILQ_INSERT_TAIL 3 (new_cell 3 30 q1) = Inr q2 \<and>
    queue_list q2 [(2, 20), (3, 30)] \<and>
    TAILQ_FOREACH 2 q2 (tqh_first q2) (\<lambda>c. retE (Some c)) = (list_foreach [20, 30] (\<lambda>c. retE (Some c)) :: (unit, nat option) eff)"
proof -
  have "queue_list example_queue ([] @ (1, 10) # [(2, 20)])"
    by (simp add: queue_list_def example_queue_def end_ref_def)
  moreover have "3 \<notin> dom (cells example_queue)" by (simp add: example_queue_def)
  ultimately show ?thesis
    using tailq_keeps_order [of example_queue "[]" "(1, 10)" "[(2, 20)]" 3 30 "\<lambda>c. retE (Some c)"]
    by (simp add: numeral_2_eq_2)
qed

end
