(* ===== verification/ElfFile.thy ===== *)
theory ElfFile
  imports Memory
begin

text \<open>
  The ELF image of \<^verbatim>\<open>xh_elf.c\<close>: the record \<open>xh_elf_t\<close>, the header check
  (\<open>xh_elf_check_elfheader\<close>), the search for a segment (\<open>xh_elf_get_first_segment_by_type\<close> and
  \<open>..._by_type_offset\<close>), the parser of the dynamic segment and \<open>xh_elf_init\<close>. The structures of
  \<^verbatim>\<open><elf.h>\<close> are read at their 64-bit layout.
\<close>

datatype arch = AArch64 | X86_64

section \<open>The structures of elf.h\<close>

text \<open>Field offsets of \<open>Elf64_Ehdr\<close>, \<open>Elf64_Phdr\<close> and \<open>Elf64_Dyn\<close>.\<close>

definition e_type :: "world \<Rightarrow> addr \<Rightarrow> u16 res" where "e_type w ehdr = ld16 w (ehdr + 16)"
definition e_machine :: "world \<Rightarrow> addr \<Rightarrow> u16 res" where "e_machine w ehdr = ld16 w (ehdr + 18)"
definition e_version :: "world \<Rightarrow> addr \<Rightarrow> u32 res" where "e_version w ehdr = ld32 w (ehdr + 20)"
definition e_phoff :: "world \<Rightarrow> addr \<Rightarrow> u64 res" where "e_phoff w ehdr = ld64 w (ehdr + 32)"
definition e_phnum :: "world \<Rightarrow> addr \<Rightarrow> u16 res" where "e_phnum w ehdr = ld16 w (ehdr + 56)"

definition p_type :: "world \<Rightarrow> addr \<Rightarrow> u32 res" where "p_type w phdr = ld32 w phdr"
definition p_offset :: "world \<Rightarrow> addr \<Rightarrow> u64 res" where "p_offset w phdr = ld64 w (phdr + 8)"
definition p_vaddr :: "world \<Rightarrow> addr \<Rightarrow> u64 res" where "p_vaddr w phdr = ld64 w (phdr + 16)"
definition p_memsz :: "world \<Rightarrow> addr \<Rightarrow> u64 res" where "p_memsz w phdr = ld64 w (phdr + 40)"

definition d_tag :: "world \<Rightarrow> addr \<Rightarrow> u64 res" where "d_tag w dyn = ld64 w dyn"
definition d_un :: "world \<Rightarrow> addr \<Rightarrow> u64 res" where "d_un w dyn = ld64 w (dyn + 8)"

lemmas layout_defs =
  e_type_def e_machine_def e_version_def e_phoff_def e_phnum_def
  p_type_def p_offset_def p_vaddr_def p_memsz_def d_tag_def d_un_def

definition PT_LOAD :: u32 where "PT_LOAD = 1"
definition PT_DYNAMIC :: u32 where "PT_DYNAMIC = 2"

text \<open>\<open>memcmp(p, bytes, n) == 0\<close>, reading up to the first difference.\<close>

fun memcmp_eq :: "world \<Rightarrow> addr \<Rightarrow> u8 list \<Rightarrow> bool res" where
  "memcmp_eq w p [] = Inr True"
| "memcmp_eq w p (b # bs) =
     seqE (ld8 w p) (\<lambda>c. if c = b then memcmp_eq w (p + 1) bs else Inr False)"

section \<open>The header check\<close>

definition EM :: "arch \<Rightarrow> u16" where
  "EM a = (case a of AArch64 \<Rightarrow> 183 | X86_64 \<Rightarrow> 62)"

definition xh_elf_check_elfheader :: "arch \<Rightarrow> world \<Rightarrow> addr \<Rightarrow> int res" where
  "xh_elf_check_elfheader arch w base_addr =
     (let ehdr = base_addr in
      seqE (memcmp_eq w ehdr [0x7f, 0x45, 0x4c, 0x46]) (\<lambda>mag.
      if \<not> mag then Inr XH_ERRNO_FORMAT else
      seqE (ld8 w (ehdr + 4)) (\<lambda>cls.
      if cls \<noteq> 2 then Inr XH_ERRNO_FORMAT else
      seqE (ld8 w (ehdr + 5)) (\<lambda>data.
      if data \<noteq> 1 then Inr XH_ERRNO_FORMAT else
      seqE (ld8 w (ehdr + 6)) (\<lambda>ver.
      if ver \<noteq> 1 then Inr XH_ERRNO_FORMAT else
      seqE (e_type w ehdr) (\<lambda>t.
      if t \<noteq> 2 \<and> t \<noteq> 3 then Inr XH_ERRNO_FORMAT else
      seqE (e_machine w ehdr) (\<lambda>m.
      if m \<noteq> EM arch then Inr XH_ERRNO_FORMAT else
      seqE (e_version w ehdr) (\<lambda>v.
      if v \<noteq> 1 then Inr XH_ERRNO_FORMAT else Inr 0))))))))"

section \<open>The ELF record\<close>

text \<open>Pointers are addresses, \<open>NULL\<close> is 0; \<open>pathname\<close> is \<open>None\<close> for \<open>NULL\<close>.\<close>

record xh_elf =
  pathname :: "string option"
  base_addr :: addr
  bias_addr :: addr
  ehdr :: addr
  phdr :: addr
  dyn :: addr
  dyn_sz :: u32
  strtab :: addr
  symtab :: addr
  relplt :: addr
  relplt_sz :: u32
  reldyn :: addr
  reldyn_sz :: u32
  relandroid :: addr
  relandroid_sz :: u32
  bucket :: addr
  bucket_cnt :: u32
  chain :: addr
  chain_cnt :: u32
  symoffset :: u32
  bloom :: addr
  bloom_sz :: u32
  bloom_shift :: u32
  is_use_rela :: bool
  is_use_gnu_hash :: bool

definition xh_elf_zero :: xh_elf where
  "xh_elf_zero = \<lparr>pathname = None, base_addr = 0, bias_addr = 0, ehdr = 0, phdr = 0, dyn = 0,
     dyn_sz = 0, strtab = 0, symtab = 0, relplt = 0, relplt_sz = 0, reldyn = 0, reldyn_sz = 0,
     relandroid = 0, relandroid_sz = 0, bucket = 0, bucket_cnt = 0, chain = 0, chain_cnt = 0,
     symoffset = 0, bloom = 0, bloom_sz = 0, bloom_shift = 0, is_use_rela = False,
     is_use_gnu_hash = False\<rparr>"

section \<open>Segments\<close>

text \<open>
  The loop over the program headers. The pointer comparison \<^verbatim>\<open>phdr < self->phdr + e_phnum\<close> is
  the comparison of the index with \<open>e_phnum\<close>, since C pointers into a table do not wrap.
\<close>

fun first_match :: "('a \<Rightarrow> bool res) \<Rightarrow> 'a list \<Rightarrow> 'a option res" where
  "first_match test [] = Inr None"
| "first_match test (p # ps) =
     seqE (test p) (\<lambda>hit. if hit then Inr (Some p) else first_match test ps)"

definition entries :: "addr \<Rightarrow> u64 \<Rightarrow> nat \<Rightarrow> addr list" where
  "entries start sz n = map (\<lambda>k. start + sz * of_nat k) [0..<n]"

definition xh_elf_get_first_segment_by_type :: "world \<Rightarrow> xh_elf \<Rightarrow> u32 \<Rightarrow> addr option res" where
  "xh_elf_get_first_segment_by_type w self type =
     seqE (e_phnum w (ehdr self)) (\<lambda>n.
       first_match (\<lambda>p. seqE (p_type w p) (\<lambda>t. Inr (t = type))) (entries (phdr self) 56 (unat n)))"

definition xh_elf_get_first_segment_by_type_offset ::
    "world \<Rightarrow> xh_elf \<Rightarrow> u32 \<Rightarrow> u64 \<Rightarrow> addr option res" where
  "xh_elf_get_first_segment_by_type_offset w self type offset =
     seqE (e_phnum w (ehdr self)) (\<lambda>n.
       first_match (\<lambda>p. seqE (p_type w p) (\<lambda>t.
         if t = type then seqE (p_offset w p) (\<lambda>off. Inr (off = offset)) else Inr False))
         (entries (phdr self) 56 (unat n)))"

section \<open>The dynamic segment\<close>

definition DT_NULL :: u64 where "DT_NULL = 0"
definition DT_PLTRELSZ :: u64 where "DT_PLTRELSZ = 2"
definition DT_HASH :: u64 where "DT_HASH = 4"
definition DT_STRTAB :: u64 where "DT_STRTAB = 5"
definition DT_SYMTAB :: u64 where "DT_SYMTAB = 6"
definition DT_RELA :: u64 where "DT_RELA = 7"
definition DT_RELASZ :: u64 where "DT_RELASZ = 8"
definition DT_REL :: u64 where "DT_REL = 17"
definition DT_RELSZ :: u64 where "DT_RELSZ = 18"
definition DT_PLTREL :: u64 where "DT_PLTREL = 20"
definition DT_JMPREL :: u64 where "DT_JMPREL = 23"
definition DT_GNU_HASH :: u64 where "DT_GNU_HASH = 0x6ffffef5"
definition DT_ANDROID_REL :: u64 where "DT_ANDROID_REL = 0x6000000f"
definition DT_ANDROID_RELSZ :: u64 where "DT_ANDROID_RELSZ = 0x60000010"
definition DT_ANDROID_RELA :: u64 where "DT_ANDROID_RELA = 0x60000011"
definition DT_ANDROID_RELASZ :: u64 where "DT_ANDROID_RELASZ = 0x60000012"

lemmas dt_defs = DT_NULL_def DT_PLTRELSZ_def DT_HASH_def DT_STRTAB_def DT_SYMTAB_def DT_RELA_def
  DT_RELASZ_def DT_REL_def DT_RELSZ_def DT_PLTREL_def DT_JMPREL_def DT_GNU_HASH_def
  DT_ANDROID_REL_def DT_ANDROID_RELSZ_def DT_ANDROID_RELA_def DT_ANDROID_RELASZ_def

text \<open>How the loop goes on after an entry: next entry, end of the section, or return.\<close>

datatype dyn_flow = Go | End | Ret int

text \<open>
  The cases of the \<^verbatim>\<open>switch\<close>: an address is stored and then compared with the base; a number is
  stored; the two hash tables are read from the image.
\<close>

definition dyn_ptr ::
    "world \<Rightarrow> addr \<Rightarrow> (addr \<Rightarrow> xh_elf \<Rightarrow> xh_elf) \<Rightarrow> xh_elf \<Rightarrow> (dyn_flow \<times> xh_elf) res" where
  "dyn_ptr w d store self = seqE (d_un w d) (\<lambda>v.
     let p = bias_addr self + v; self = store p self in
     Inr (if p < base_addr self then Ret XH_ERRNO_FORMAT else Go, self))"

definition dyn_num ::
    "world \<Rightarrow> addr \<Rightarrow> (u64 \<Rightarrow> xh_elf \<Rightarrow> xh_elf) \<Rightarrow> xh_elf \<Rightarrow> (dyn_flow \<times> xh_elf) res" where
  "dyn_num w d store self = seqE (d_un w d) (\<lambda>v. Inr (Go, store v self))"

definition dyn_hash :: "world \<Rightarrow> addr \<Rightarrow> xh_elf \<Rightarrow> (dyn_flow \<times> xh_elf) res" where
  "dyn_hash w d self =
     (if is_use_gnu_hash self then Inr (Go, self)
      else seqE (d_un w d) (\<lambda>v.
        let raw = bias_addr self + v in
        if raw < base_addr self then Inr (Ret XH_ERRNO_FORMAT, self)
        else seqE (ld32 w raw) (\<lambda>nbucket.
          seqE (ld32 w (raw + 4)) (\<lambda>nchain.
          let bkt = raw + 8 in
          Inr (Go, self\<lparr>bucket_cnt := nbucket, chain_cnt := nchain, bucket := bkt,
                         chain := bkt + 4 * ucast nbucket\<rparr>)))))"

definition dyn_gnu_hash :: "world \<Rightarrow> addr \<Rightarrow> xh_elf \<Rightarrow> (dyn_flow \<times> xh_elf) res" where
  "dyn_gnu_hash w d self =
     seqE (d_un w d) (\<lambda>v.
       let raw = bias_addr self + v in
       if raw < base_addr self then Inr (Ret XH_ERRNO_FORMAT, self)
       else seqE (ld32 w raw) (\<lambda>nbucket.
         seqE (ld32 w (raw + 4)) (\<lambda>symoff.
         seqE (ld32 w (raw + 8)) (\<lambda>nbloom.
         seqE (ld32 w (raw + 12)) (\<lambda>shift.
         let blm = raw + 16; bkt = blm + 8 * ucast nbloom in
         Inr (Go, self\<lparr>bucket_cnt := nbucket, symoffset := symoff, bloom_sz := nbloom,
                        bloom_shift := shift, bloom := blm, bucket := bkt,
                        chain := bkt + 4 * ucast nbucket, is_use_gnu_hash := True\<rparr>))))))"

definition dyn_step :: "world \<Rightarrow> addr \<Rightarrow> xh_elf \<Rightarrow> (dyn_flow \<times> xh_elf) res" where
  "dyn_step w d self = seqE (d_tag w d) (\<lambda>tag.
     if tag = DT_NULL then Inr (End, self)
     else if tag = DT_STRTAB then dyn_ptr w d (\<lambda>p s. s\<lparr>strtab := p\<rparr>) self
     else if tag = DT_SYMTAB then dyn_ptr w d (\<lambda>p s. s\<lparr>symtab := p\<rparr>) self
     else if tag = DT_PLTREL then dyn_num w d (\<lambda>v s. s\<lparr>is_use_rela := (v = DT_RELA)\<rparr>) self
     else if tag = DT_JMPREL then dyn_ptr w d (\<lambda>p s. s\<lparr>relplt := p\<rparr>) self
     else if tag = DT_PLTRELSZ then dyn_num w d (\<lambda>v s. s\<lparr>relplt_sz := ucast v\<rparr>) self
     else if tag = DT_REL \<or> tag = DT_RELA then dyn_ptr w d (\<lambda>p s. s\<lparr>reldyn := p\<rparr>) self
     else if tag = DT_RELSZ \<or> tag = DT_RELASZ
     then dyn_num w d (\<lambda>v s. s\<lparr>reldyn_sz := ucast v\<rparr>) self
     else if tag = DT_ANDROID_REL \<or> tag = DT_ANDROID_RELA
     then dyn_ptr w d (\<lambda>p s. s\<lparr>relandroid := p\<rparr>) self
     else if tag = DT_ANDROID_RELSZ \<or> tag = DT_ANDROID_RELASZ
     then dyn_num w d (\<lambda>v s. s\<lparr>relandroid_sz := ucast v\<rparr>) self
     else if tag = DT_HASH then dyn_hash w d self
     else if tag = DT_GNU_HASH then dyn_gnu_hash w d self
     else Inr (Go, self))"

text \<open>The loop: 0 when it reaches the end, or the number it returns.\<close>

fun dyn_loop :: "world \<Rightarrow> addr list \<Rightarrow> xh_elf \<Rightarrow> (int \<times> xh_elf) res" where
  "dyn_loop w [] self = Inr (0, self)"
| "dyn_loop w (d # ds) self = seqE (dyn_step w d self) (\<lambda>(flow, self).
     case flow of Go \<Rightarrow> dyn_loop w ds self | End \<Rightarrow> Inr (0, self) | Ret e \<Rightarrow> Inr (e, self))"

section \<open>Checks and initialisation\<close>

definition xh_elf_check :: "xh_elf \<Rightarrow> int" where
  "xh_elf_check self =
     (if base_addr self = 0 then 1
      else if bias_addr self = 0 then 1
      else if ehdr self = 0 then 1
      else if phdr self = 0 then 1
      else if strtab self = 0 then 1
      else if symtab self = 0 then 1
      else if bucket self = 0 then 1
      else if chain self = 0 then 1
      else if is_use_gnu_hash self \<and> bloom self = 0 then 1
      else 0)"

text \<open>The check of the Android table: its magic number \<open>APS2\<close> is skipped.\<close>

definition check_relandroid :: "world \<Rightarrow> xh_elf \<Rightarrow> (int \<times> xh_elf) res" where
  "check_relandroid w self =
     (if relandroid self \<noteq> 0 then
        if relandroid_sz self < 4 then Inr (XH_ERRNO_FORMAT, self)
        else seqE (memcmp_eq w (relandroid self) [0x41, 0x50, 0x53, 0x32]) (\<lambda>magic.
          if \<not> magic then Inr (XH_ERRNO_FORMAT, self)
          else Inr (0, self\<lparr>relandroid := relandroid self + 4,
                            relandroid_sz := relandroid_sz self - 4\<rparr>))
      else Inr (0, self))"

definition xh_elf_init :: "world \<Rightarrow> xh_elf \<Rightarrow> addr \<Rightarrow> string option \<Rightarrow> (int \<times> xh_elf) res" where
  "xh_elf_init w self base path =
     (if base = 0 \<or> path = None then Inr (XH_ERRNO_INVAL, self)
      else
      let self = xh_elf_zero\<lparr>pathname := path, base_addr := base, ehdr := base\<rparr> in
      seqE (e_phoff w base) (\<lambda>phoff.
      let self = self\<lparr>phdr := base + phoff\<rparr> in
      seqE (xh_elf_get_first_segment_by_type_offset w self PT_LOAD 0) (\<lambda>phdr0.
      case phdr0 of None \<Rightarrow> Inr (XH_ERRNO_FORMAT, self) | Some phdr0 \<Rightarrow>
      seqE (p_vaddr w phdr0) (\<lambda>vaddr.
      if base_addr self < vaddr then Inr (XH_ERRNO_FORMAT, self)
      else
      let self = self\<lparr>bias_addr := base_addr self - vaddr\<rparr> in
      seqE (xh_elf_get_first_segment_by_type w self PT_DYNAMIC) (\<lambda>dhdr.
      case dhdr of None \<Rightarrow> Inr (XH_ERRNO_FORMAT, self) | Some dhdr \<Rightarrow>
      seqE (p_vaddr w dhdr) (\<lambda>dvaddr.
      seqE (p_memsz w dhdr) (\<lambda>dmemsz.
      let self = self\<lparr>dyn := bias_addr self + dvaddr, dyn_sz := ucast dmemsz\<rparr> in
      seqE (dyn_loop w (entries (dyn self) 16 (unat (dyn_sz self div 16))) self) (\<lambda>(r, self).
      if r \<noteq> 0 then Inr (r, self)
      else seqE (check_relandroid w self) (\<lambda>(r, self).
        if r \<noteq> 0 then Inr (r, self)
        else if xh_elf_check self \<noteq> 0 then Inr (XH_ERRNO_FORMAT, self)
        else Inr (0, self))))))))))"

section \<open>Traps of the parser\<close>

text \<open>Reading an image can only fault: no operation here is undefined, and no loop runs away.\<close>

lemma memcmp_eq_trap: "memcmp_eq w p bs = Inl t \<Longrightarrow> t = Segv"
  by (induction w p bs rule: memcmp_eq.induct)
    (auto simp: seqE_Inl_iff dest: ld8_trap split: if_splits)

lemma first_match_trap:
  "first_match f ps = Inl t \<Longrightarrow> (\<And>p t. f p = Inl t \<Longrightarrow> t = Segv) \<Longrightarrow> t = Segv"
  by (induction ps) (auto simp: seqE_Inl_iff split: if_splits)

lemmas ld_traps = ld8_trap ld_trap memcmp_eq_trap

lemma segment_trap:
  "xh_elf_get_first_segment_by_type w self ty = Inl t \<Longrightarrow> t = Segv"
  "xh_elf_get_first_segment_by_type_offset w self ty off = Inl t \<Longrightarrow> t = Segv"
  by (auto simp: xh_elf_get_first_segment_by_type_def xh_elf_get_first_segment_by_type_offset_def
      seqE_Inl_iff layout_defs dest!: first_match_trap ld_traps split: if_splits)

lemma dyn_case_trap:
  "dyn_ptr w d store self = Inl t \<Longrightarrow> t = Segv"
  "dyn_num w d store' self = Inl t \<Longrightarrow> t = Segv"
  "dyn_hash w d self = Inl t \<Longrightarrow> t = Segv"
  "dyn_gnu_hash w d self = Inl t \<Longrightarrow> t = Segv"
  by (auto simp: dyn_ptr_def dyn_num_def dyn_hash_def dyn_gnu_hash_def Let_def seqE_Inl_iff
      layout_defs dest: ld_traps split: if_splits)

lemma dyn_step_trap: "dyn_step w d self = Inl t \<Longrightarrow> t = Segv"
  by (auto simp: dyn_step_def seqE_Inl_iff d_tag_def dest: dyn_case_trap ld_traps split: if_splits)

lemma dyn_loop_trap: "dyn_loop w ds self = Inl t \<Longrightarrow> t = Segv"
proof (induction ds arbitrary: self)
  case (Cons d ds)
  show ?case
  proof (cases "dyn_step w d self")
    case (Inl t')
    with Cons.prems dyn_step_trap show ?thesis by auto
  next
    case (Inr p)
    then show ?thesis using Cons by (cases p; cases "fst p") auto
  qed
qed simp

lemma check_relandroid_trap: "check_relandroid w self = Inl t \<Longrightarrow> t = Segv"
  by (auto simp: check_relandroid_def seqE_Inl_iff dest: ld_traps split: if_splits)

lemma xh_elf_init_trap: "xh_elf_init w self base path = Inl t \<Longrightarrow> t = Segv"
  by (auto simp: xh_elf_init_def Let_def seqE_Inl_iff layout_defs
      dest: ld_traps segment_trap dyn_loop_trap check_relandroid_trap
      split: if_splits option.splits prod.splits)

lemma xh_elf_check_elfheader_trap: "xh_elf_check_elfheader arch w base = Inl t \<Longrightarrow> t = Segv"
  by (auto simp: xh_elf_check_elfheader_def Let_def seqE_Inl_iff layout_defs
      dest: ld_traps split: if_splits)

end
