(* ===== verification/ElfInit.thy ===== *)
theory ElfInit
  imports ElfFile
begin

text \<open>
  What \<open>xh_elf_init\<close> promises: a description, independent of the loop that computes it, of the
  record it leaves behind (\<open>elf_describes\<close>), and the proof that success means the description
  holds.
\<close>

section \<open>The dynamic segment as a list\<close>

text \<open>The entries before the first \<open>DT_NULL\<close>, as pairs of tag and value.\<close>

fun dyn_list :: "world \<Rightarrow> addr list \<Rightarrow> (u64 \<times> u64) list res" where
  "dyn_list w [] = Inr []"
| "dyn_list w (d # ds) = seqE (d_tag w d) (\<lambda>t.
     if t = DT_NULL then Inr []
     else seqE (d_un w d) (\<lambda>v. seqE (dyn_list w ds) (\<lambda>es. Inr ((t, v) # es))))"

text \<open>The value of the last entry whose tag is in \<open>T\<close>.\<close>

definition dyn_val :: "u64 set \<Rightarrow> (u64 \<times> u64) list \<Rightarrow> u64 option" where
  "dyn_val T es = map_option snd (find (\<lambda>e. fst e \<in> T) (rev es))"

lemma dyn_val_Nil [simp]: "dyn_val T [] = None"
  by (simp add: dyn_val_def)

lemma dyn_val_Cons [simp]:
  "dyn_val T ((t, v) # es)
     = (case dyn_val T es of Some x \<Rightarrow> Some x | None \<Rightarrow> if t \<in> T then Some v else None)"
  by (simp add: dyn_val_def find_append split: option.split)

section \<open>Fields that one kind of tag sets\<close>

text \<open>The parameters of the dynamic loop, which no entry changes.\<close>

definition same_place :: "xh_elf \<Rightarrow> xh_elf \<Rightarrow> bool" where
  "same_place s s' \<longleftrightarrow> pathname s' = pathname s \<and> base_addr s' = base_addr s \<and>
     bias_addr s' = bias_addr s \<and> ehdr s' = ehdr s \<and> phdr s' = phdr s \<and>
     dyn s' = dyn s \<and> dyn_sz s' = dyn_sz s"

lemma same_place_refl [simp]: "same_place s s"
  by (simp add: same_place_def)

lemma same_place_trans: "same_place a b \<Longrightarrow> same_place b c \<Longrightarrow> same_place a c"
  by (simp add: same_place_def)

lemma dyn_case_flow:
  "dyn_ptr w d store s = Inr (f, s') \<Longrightarrow> f = Go \<or> f = Ret XH_ERRNO_FORMAT"
  "dyn_num w d store' s = Inr (f, s') \<Longrightarrow> f = Go"
  "dyn_hash w d s = Inr (f, s') \<Longrightarrow> f = Go \<or> f = Ret XH_ERRNO_FORMAT"
  "dyn_gnu_hash w d s = Inr (f, s') \<Longrightarrow> f = Go \<or> f = Ret XH_ERRNO_FORMAT"
  by (auto simp: dyn_ptr_def dyn_num_def dyn_hash_def dyn_gnu_hash_def Let_def split: if_splits)

lemma dyn_step_end: "dyn_step w d s = Inr (f, s') \<Longrightarrow> d_tag w d = Inr DT_NULL \<Longrightarrow> f = End \<and> s' = s"
  by (auto simp: dyn_step_def)

lemma dyn_step_flow:
  assumes "dyn_step w d s = Inr (f, s')" "d_tag w d = Inr t" "t \<noteq> DT_NULL"
  shows "f = Go \<or> f = Ret XH_ERRNO_FORMAT"
  using assms unfolding dyn_step_def
  by (auto dest: dyn_case_flow split: if_split_asm)

lemma dyn_step_end_iff:
  "dyn_step w d s = Inr (f, s') \<Longrightarrow> d_tag w d = Inr t \<Longrightarrow> f = End \<longleftrightarrow> t = DT_NULL"
  using dyn_step_flow [of w d s f s' t] dyn_step_end [of w d s f s'] by auto

lemma dyn_step_ret: "dyn_step w d s = Inr (Ret e, s') \<Longrightarrow> e = XH_ERRNO_FORMAT"
  using dyn_step_flow [of w d s "Ret e" s'] dyn_step_end [of w d s "Ret e" s']
  by (cases "d_tag w d") (auto simp: dyn_step_def)

text \<open>Inversion of an iteration that goes on.\<close>

lemma if_eqE: "(if c then a else b) = x \<Longrightarrow> (c \<Longrightarrow> a = x \<Longrightarrow> R) \<Longrightarrow> (\<not> c \<Longrightarrow> b = x \<Longrightarrow> R) \<Longrightarrow> R"
  by (auto split: if_splits)

lemma dyn_ptr_Go:
  "dyn_ptr w d store s = Inr (Go, s') \<Longrightarrow>
     \<exists>v. d_un w d = Inr v \<and> s' = store (bias_addr s + v) s \<and> base_addr s' \<le> bias_addr s + v"
  by (auto simp: dyn_ptr_def Let_def split: if_splits)

lemma dyn_num_Go:
  "dyn_num w d store s = Inr (Go, s') \<Longrightarrow> \<exists>v. d_un w d = Inr v \<and> s' = store v s"
  by (auto simp: dyn_num_def)

lemma dyn_step_GoE:
  assumes "dyn_step w d s = Inr (Go, s')" and "d_tag w d = Inr t"
  obtains
    (strtab) v where "t \<in> {DT_STRTAB}" and "d_un w d = Inr v" and "base_addr s' \<le> bias_addr s + v"
      and "s' = s\<lparr>strtab := bias_addr s + v\<rparr>"
  | (symtab) v where "t \<in> {DT_SYMTAB}" and "d_un w d = Inr v" and "base_addr s' \<le> bias_addr s + v"
      and "s' = s\<lparr>symtab := bias_addr s + v\<rparr>"
  | (jmprel) v where "t \<in> {DT_JMPREL}" and "d_un w d = Inr v" and "base_addr s' \<le> bias_addr s + v"
      and "s' = s\<lparr>relplt := bias_addr s + v\<rparr>"
  | (rel) v where "t \<in> {DT_REL, DT_RELA}" and "d_un w d = Inr v" and "base_addr s' \<le> bias_addr s + v"
      and "s' = s\<lparr>reldyn := bias_addr s + v\<rparr>"
  | (android) v where "t \<in> {DT_ANDROID_REL, DT_ANDROID_RELA}" and "d_un w d = Inr v" and "base_addr s' \<le> bias_addr s + v"
      and "s' = s\<lparr>relandroid := bias_addr s + v\<rparr>"
  | (pltrel) v where "t \<in> {DT_PLTREL}" and "d_un w d = Inr v" and "s' = s\<lparr>is_use_rela := (v = DT_RELA)\<rparr>"
  | (pltrelsz) v where "t \<in> {DT_PLTRELSZ}" and "d_un w d = Inr v" and "s' = s\<lparr>relplt_sz := ucast v\<rparr>"
  | (relsz) v where "t \<in> {DT_RELSZ, DT_RELASZ}" and "d_un w d = Inr v" and "s' = s\<lparr>reldyn_sz := ucast v\<rparr>"
  | (androidsz) v where "t \<in> {DT_ANDROID_RELSZ, DT_ANDROID_RELASZ}" and "d_un w d = Inr v" and "s' = s\<lparr>relandroid_sz := ucast v\<rparr>"
  | (hash) "t = DT_HASH" and "dyn_hash w d s = Inr (Go, s')"
  | (gnu) "t = DT_GNU_HASH" and "dyn_gnu_hash w d s = Inr (Go, s')"
  | (other) "t \<notin> {DT_NULL, DT_STRTAB, DT_SYMTAB, DT_JMPREL, DT_REL, DT_RELA, DT_ANDROID_REL,
        DT_ANDROID_RELA, DT_PLTREL, DT_PLTRELSZ, DT_RELSZ, DT_RELASZ, DT_ANDROID_RELSZ,
        DT_ANDROID_RELASZ, DT_HASH, DT_GNU_HASH}" and "s' = s"
  using assms(1) unfolding dyn_step_def assms(2) seqE_simps
  apply (elim if_eqE)
  subgoal by simp
  subgoal by (drule dyn_ptr_Go, elim exE conjE, rule strtab; (assumption | simp only: insert_iff empty_iff simp_thms)?)
  subgoal by (drule dyn_ptr_Go, elim exE conjE, rule symtab; (assumption | simp only: insert_iff empty_iff simp_thms)?)
  subgoal by (drule dyn_num_Go, elim exE conjE, rule pltrel; (assumption | simp only: insert_iff empty_iff simp_thms)?)
  subgoal by (drule dyn_ptr_Go, elim exE conjE, rule jmprel; (assumption | simp only: insert_iff empty_iff simp_thms)?)
  subgoal by (drule dyn_num_Go, elim exE conjE, rule pltrelsz; (assumption | simp only: insert_iff empty_iff simp_thms)?)
  subgoal by (drule dyn_ptr_Go, elim exE conjE, rule rel; (assumption | simp only: insert_iff empty_iff simp_thms)?)
  subgoal by (drule dyn_num_Go, elim exE conjE, rule relsz; (assumption | simp only: insert_iff empty_iff simp_thms)?)
  subgoal by (drule dyn_ptr_Go, elim exE conjE, rule android; (assumption | simp only: insert_iff empty_iff simp_thms)?)
  subgoal by (drule dyn_num_Go, elim exE conjE, rule androidsz; (assumption | simp only: insert_iff empty_iff simp_thms)?)
  subgoal by (rule hash)
  subgoal by (rule gnu)
  subgoal by (rule other, simp only: insert_iff empty_iff simp_thms, metis sum.inject(2) prod.inject)
  done

lemma dyn_step_place:
  assumes "dyn_step w d s = Inr (Go, s')" and "d_tag w d = Inr t"
  shows "same_place s s'"
  using assms
  by (cases rule: dyn_step_GoE)
    (auto simp: same_place_def dyn_hash_def dyn_gnu_hash_def Let_def split: if_split_asm)

text \<open>One iteration of a loop that succeeds, beside the list of its entries.\<close>

lemma dyn_loop_ConsE:
  assumes loop: "dyn_loop w (d # ds) s = Inr (0, s')" and list: "dyn_list w (d # ds) = Inr es"
  obtains (stop) "es = []" and "s' = s"
    | (go) t v s1 es' where "es = (t, v) # es'" and "dyn_step w d s = Inr (Go, s1)"
      and "d_tag w d = Inr t" and "d_un w d = Inr v" and "dyn_loop w ds s1 = Inr (0, s')"
      and "dyn_list w ds = Inr es'" and "bias_addr s1 = bias_addr s"
proof -
  obtain f s1 where st: "dyn_step w d s = Inr (f, s1)"
    using loop by auto
  obtain t where t: "d_tag w d = Inr t" using list by auto
  show ?thesis
  proof (cases "t = DT_NULL")
    case True
    then show ?thesis using stop loop list st dyn_step_end [OF st] t by auto
  next
    case False
    have "f \<noteq> Ret 0"
      using dyn_step_ret [of w d s 0 s1] st by (auto simp: XH_ERRNO_FORMAT_def)
    then have "f = Go"
      using dyn_step_end_iff [OF st t] loop st False by (cases f) auto
    then show ?thesis
      using go st t loop list False dyn_step_place [OF _ t] by (auto simp: same_place_def)
  qed
qed

text \<open>A field that the tags in \<open>T\<close> set to \<open>g bias value\<close> ends as the last of them says.\<close>

lemma dyn_loop_field:
  assumes step: "\<And>d s s' t v. dyn_step w d s = Inr (Go, s') \<Longrightarrow> d_tag w d = Inr t \<Longrightarrow>
      d_un w d = Inr v \<Longrightarrow> fld s' = (if t \<in> T then g (bias_addr s) v else fld s)"
  shows "dyn_loop w ds s = Inr (0, s') \<Longrightarrow> dyn_list w ds = Inr es \<Longrightarrow>
    fld s' = (case dyn_val T es of Some v \<Rightarrow> g (bias_addr s) v | None \<Rightarrow> fld s)"
proof (induction ds arbitrary: s es)
  case (Cons d ds)
  from Cons.prems show ?case
  proof (cases rule: dyn_loop_ConsE)
    case (go t v s1 es')
    then show ?thesis
      using Cons.IH [OF go(5,6)] step [OF go(2,3,4)] by (simp split: option.splits)
  qed simp
qed simp

section \<open>The hash tables\<close>

definition sysv_table :: "world \<Rightarrow> addr \<Rightarrow> xh_elf \<Rightarrow> bool" where
  "sysv_table w raw s \<longleftrightarrow> \<not> is_use_gnu_hash s \<and> ld32 w raw = Inr (bucket_cnt s) \<and>
     ld32 w (raw + 4) = Inr (chain_cnt s) \<and> bucket s = raw + 8 \<and>
     chain s = raw + 8 + 4 * ucast (bucket_cnt s)"

definition gnu_table :: "world \<Rightarrow> addr \<Rightarrow> xh_elf \<Rightarrow> bool" where
  "gnu_table w raw s \<longleftrightarrow> is_use_gnu_hash s \<and> ld32 w raw = Inr (bucket_cnt s) \<and>
     ld32 w (raw + 4) = Inr (symoffset s) \<and> ld32 w (raw + 8) = Inr (bloom_sz s) \<and>
     ld32 w (raw + 12) = Inr (bloom_shift s) \<and> bloom s = raw + 16 \<and>
     bucket s = raw + 16 + 8 * ucast (bloom_sz s) \<and> chain s = bucket s + 4 * ucast (bucket_cnt s)"

definition same_hash :: "xh_elf \<Rightarrow> xh_elf \<Rightarrow> bool" where
  "same_hash s s' \<longleftrightarrow> is_use_gnu_hash s' = is_use_gnu_hash s \<and> bucket_cnt s' = bucket_cnt s \<and>
     chain_cnt s' = chain_cnt s \<and> bucket s' = bucket s \<and> chain s' = chain s \<and>
     symoffset s' = symoffset s \<and> bloom s' = bloom s \<and> bloom_sz s' = bloom_sz s \<and>
     bloom_shift s' = bloom_shift s"

lemma gnu_table_cong: "same_hash s s' \<Longrightarrow> gnu_table w raw s' = gnu_table w raw s"
  by (simp add: gnu_table_def same_hash_def)

lemma sysv_table_cong: "same_hash s s' \<Longrightarrow> sysv_table w raw s' = sysv_table w raw s"
  by (simp add: sysv_table_def same_hash_def)

lemma same_hash_trans: "same_hash a b \<Longrightarrow> same_hash b c \<Longrightarrow> same_hash a c"
  by (simp add: same_hash_def)

lemma dyn_step_gnu:
  assumes "dyn_step w d s = Inr (Go, s')" "d_tag w d = Inr DT_GNU_HASH" "d_un w d = Inr v"
  shows "gnu_table w (bias_addr s + v) s'"
proof -
  have "dyn_gnu_hash w d s = Inr (Go, s')"
    using assms(1,2) by (simp add: dyn_step_def dt_defs)
  then show ?thesis
    using assms(3) by (auto simp: dyn_gnu_hash_def gnu_table_def Let_def split: if_splits)
qed

lemma dyn_step_sysv:
  assumes "dyn_step w d s = Inr (Go, s')" "d_tag w d = Inr DT_HASH" "d_un w d = Inr v"
    and "\<not> is_use_gnu_hash s"
  shows "sysv_table w (bias_addr s + v) s'"
proof -
  have "dyn_hash w d s = Inr (Go, s')"
    using assms(1,2) by (simp add: dyn_step_def dt_defs)
  then show ?thesis
    using assms(3,4) by (auto simp: dyn_hash_def sysv_table_def Let_def split: if_splits)
qed

lemma dyn_step_other:
  assumes "dyn_step w d s = Inr (Go, s')" "d_tag w d = Inr t" "t \<noteq> DT_GNU_HASH"
    and "t \<noteq> DT_HASH \<or> is_use_gnu_hash s"
  shows "same_hash s s'"
  using assms(1,2)
  by (cases rule: dyn_step_GoE; use assms(3,4) in \<open>auto simp: same_hash_def dyn_hash_def\<close>)

text \<open>
  A GNU table wins over a System V table whichever of the two comes first; among several GNU
  tables the last wins.
\<close>

definition hash_chosen :: "world \<Rightarrow> (u64 \<times> u64) list \<Rightarrow> xh_elf \<Rightarrow> xh_elf \<Rightarrow> bool" where
  "hash_chosen w es s s' \<longleftrightarrow>
     (case dyn_val {DT_GNU_HASH} es of
        Some v \<Rightarrow> gnu_table w (bias_addr s + v) s'
      | None \<Rightarrow> if is_use_gnu_hash s then same_hash s s'
          else (case dyn_val {DT_HASH} es of
            Some v \<Rightarrow> sysv_table w (bias_addr s + v) s'
          | None \<Rightarrow> same_hash s s'))"

lemma dyn_loop_hash:
  "dyn_loop w ds s = Inr (0, s') \<Longrightarrow> dyn_list w ds = Inr es \<Longrightarrow> hash_chosen w es s s'"
proof (induction ds arbitrary: s es)
  case Nil
  then show ?case by (simp add: hash_chosen_def same_hash_def)
next
  case (Cons d ds)
  from Cons.prems show ?case
  proof (cases rule: dyn_loop_ConsE)
    case stop
    then show ?thesis by (simp add: hash_chosen_def same_hash_def)
  next
    case (go t v s1 es')
    note st = go(2) and t = go(3) and v = go(4) and es = go(1)
    note IH = Cons.IH [OF go(5,6), unfolded hash_chosen_def go(7)]
    consider "t = DT_GNU_HASH" | "t = DT_HASH" "\<not> is_use_gnu_hash s"
      | "t \<noteq> DT_GNU_HASH" "t \<noteq> DT_HASH \<or> is_use_gnu_hash s" by blast
    then show ?thesis
    proof cases
      case 1
      with dyn_step_gnu [OF st _ v] t have "gnu_table w (bias_addr s + v) s1" by simp
      moreover from this have "is_use_gnu_hash s1" by (simp add: gnu_table_def)
      ultimately show ?thesis
        using IH 1 by (auto simp: hash_chosen_def es gnu_table_cong split: option.splits)
    next
      case 2
      with dyn_step_sysv [OF st _ v] t have "sysv_table w (bias_addr s + v) s1" by simp
      moreover from this have "\<not> is_use_gnu_hash s1" by (simp add: sysv_table_def)
      moreover have "DT_HASH \<noteq> DT_GNU_HASH" by (simp add: dt_defs)
      ultimately show ?thesis
        using IH 2 by (auto simp: hash_chosen_def es sysv_table_cong split: option.splits)
    next
      case 3
      with dyn_step_other [OF st t] have same: "same_hash s s1" by blast
      then have "is_use_gnu_hash s1 = is_use_gnu_hash s" by (simp add: same_hash_def)
      then show ?thesis
        using IH 3 same
        by (auto simp: hash_chosen_def es intro: same_hash_trans split: option.splits if_splits)
    qed
  qed
qed

section \<open>An example image\<close>

text \<open>
  A small x86_64 library loaded at \<open>0x1000\<close>: it imports \<open>f\<close> (symbol 1, with a PLT slot at
  \<open>0x1300\<close> that holds \<open>0x5000\<close>), exports \<open>g\<close> (symbol 2), and has both kinds of hash table.
\<close>

definition example_words :: "(addr \<times> u64) list" where
  "example_words =
    [(0x1000, 0x10102464c457f), (0x1010, 0x1003e0003), (0x1020, 0x40), (0x1038, 0x2),
     (0x1040, 0x1), (0x1078, 0x2), (0x1088, 0x100), (0x10a0, 0x80), (0x1100, 0x5),
     (0x1108, 0x200), (0x1110, 0x6), (0x1118, 0x220), (0x1120, 0x14), (0x1128, 0x7),
     (0x1130, 0x17), (0x1138, 0x280), (0x1140, 0x2), (0x1148, 0x18), (0x1150,
     0x6ffffef5), (0x1158, 0x2a0), (0x1160, 0x4), (0x1168, 0x2d0), (0x1200, 0x67006600),
     (0x1238, 0x1), (0x1250, 0x3), (0x1280, 0x300), (0x1288, 0x100000007), (0x12a0,
     0x200000001), (0x12a8, 0x1), (0x12b0, 0x1000), (0x12b8, 0x2b60d00000002), (0x12d0,
     0x300000001), (0x12d8, 0x1), (0x12e0, 0x2), (0x1300, 0x5000)]"

definition example_elf :: world where
  "example_elf = \<lparr>mbytes = word_image example_words,
     mprot = (\<lambda>a. if 0x1000 \<le> a \<and> a < 0x2000 then PROT_READ else 0)\<rparr>"

lemma example_bytes: "mbytes example_elf = word_image example_words"
  by (simp add: example_elf_def)

lemma example_readable: "readable example_elf a \<longleftrightarrow> 0x1000 \<le> a \<and> a < 0x2000"
  by (simp add: example_elf_def readable_def prot_defs)

lemmas example_loads = ld_word [OF example_bytes] example_readable all_readable_unfold
  word_at_def example_words_def

definition example_self :: xh_elf where
  "example_self = xh_elf_zero
     \<lparr>pathname := Some ''libx.so'', base_addr := 0x1000, bias_addr := 0x1000, ehdr := 0x1000,
      phdr := 0x1040, dyn := 0x1100, dyn_sz := 128, strtab := 0x1200, symtab := 0x1220,
      relplt := 0x1280, relplt_sz := 24, bucket := 0x12b8, bucket_cnt := 1, chain := 0x12bc,
      symoffset := 2, bloom := 0x12b0, bloom_sz := 1, is_use_rela := True,
      is_use_gnu_hash := True\<rparr>"

lemma example_init:
  "xh_elf_init example_elf s 0x1000 (Some ''libx.so'') = Inr (0, example_self)"
  by (simp add: xh_elf_init_def example_self_def xh_elf_zero_def Let_def layout_defs
      xh_elf_get_first_segment_by_type_offset_def xh_elf_get_first_segment_by_type_def
      entries_def upt_rec example_loads PT_LOAD_def PT_DYNAMIC_def dyn_step_def dt_defs
      dyn_ptr_def dyn_num_def dyn_hash_def dyn_gnu_hash_def check_relandroid_def xh_elf_check_def)

section \<open>The promise of initialisation\<close>

text \<open>\<open>p\<close> is the first of \<open>ps\<close> that passes the test.\<close>

definition is_first :: "(addr \<Rightarrow> bool res) \<Rightarrow> addr list \<Rightarrow> addr \<Rightarrow> bool" where
  "is_first test ps p \<longleftrightarrow>
     (\<exists>xs ys. ps = xs @ p # ys \<and> test p = Inr True \<and> (\<forall>x\<in>set xs. test x = Inr False))"

lemma first_match_is_first: "first_match test ps = Inr (Some p) \<Longrightarrow> is_first test ps p"
proof (induction ps)
  case (Cons q ps)
  then obtain hit where hit: "test q = Inr hit" by auto
  show ?case
  proof (cases hit)
    case True
    then show ?thesis using Cons.prems hit by (force simp: is_first_def)
  next
    case False
    then have "is_first test ps p" using Cons hit by simp
    then obtain xs ys where "ps = xs @ p # ys" "test p = Inr True" "\<forall>x\<in>set xs. test x = Inr False"
      by (auto simp: is_first_def)
    then show ?thesis
      using hit False unfolding is_first_def by (intro exI [of _ "q # xs"] exI [of _ ys]) auto
  qed
qed simp

text \<open>
  The fields that single tags set, each as the last such entry says (0 or \<open>False\<close> without one).
  The Android table loses its four magic bytes.
\<close>

definition dyn_fields :: "(u64 \<times> u64) list \<Rightarrow> xh_elf \<Rightarrow> bool" where
  "dyn_fields es s \<longleftrightarrow>
     (let ptr = (\<lambda>T. case dyn_val T es of None \<Rightarrow> 0 | Some v \<Rightarrow> bias_addr s + v);
          size32 = (\<lambda>T. case dyn_val T es of None \<Rightarrow> 0 | Some v \<Rightarrow> ucast v);
          android = ptr {DT_ANDROID_REL, DT_ANDROID_RELA}
      in strtab s = ptr {DT_STRTAB} \<and> symtab s = ptr {DT_SYMTAB} \<and>
         relplt s = ptr {DT_JMPREL} \<and> relplt_sz s = size32 {DT_PLTRELSZ} \<and>
         reldyn s = ptr {DT_REL, DT_RELA} \<and> reldyn_sz s = size32 {DT_RELSZ, DT_RELASZ} \<and>
         is_use_rela s = (dyn_val {DT_PLTREL} es = Some DT_RELA) \<and>
         (if android = 0 then relandroid s = 0
          else relandroid s = android + 4 \<and>
               relandroid_sz s = size32 {DT_ANDROID_RELSZ, DT_ANDROID_RELASZ} - 4))"

text \<open>What one iteration does to each of these fields.\<close>

lemma dyn_step_field:
  assumes "dyn_step w d s = Inr (Go, s')" and "d_tag w d = Inr t" and "d_un w d = Inr v"
  shows "strtab s' = (if t \<in> {DT_STRTAB} then bias_addr s + v else strtab s)"
    and "symtab s' = (if t \<in> {DT_SYMTAB} then bias_addr s + v else symtab s)"
    and "relplt s' = (if t \<in> {DT_JMPREL} then bias_addr s + v else relplt s)"
    and "reldyn s' = (if t \<in> {DT_REL, DT_RELA} then bias_addr s + v else reldyn s)"
    and "relandroid s' =
      (if t \<in> {DT_ANDROID_REL, DT_ANDROID_RELA} then bias_addr s + v else relandroid s)"
    and "relplt_sz s' = (if t \<in> {DT_PLTRELSZ} then ucast v else relplt_sz s)"
    and "reldyn_sz s' = (if t \<in> {DT_RELSZ, DT_RELASZ} then ucast v else reldyn_sz s)"
    and "relandroid_sz s' =
      (if t \<in> {DT_ANDROID_RELSZ, DT_ANDROID_RELASZ} then ucast v else relandroid_sz s)"
    and "is_use_rela s' = (if t \<in> {DT_PLTREL} then v = DT_RELA else is_use_rela s)"
  using assms(1,2)
  by (cases rule: dyn_step_GoE; use assms(3) in
    \<open>auto simp: dt_defs dyn_hash_def dyn_gnu_hash_def Let_def split: if_split_asm\<close>)+

lemma dyn_loop_fields:
  assumes loop: "dyn_loop w ds s0 = Inr (0, s)" and list: "dyn_list w ds = Inr es"
  shows "strtab s = (case dyn_val {DT_STRTAB} es of Some v \<Rightarrow> bias_addr s0 + v | None \<Rightarrow> strtab s0)"
    and "symtab s = (case dyn_val {DT_SYMTAB} es of Some v \<Rightarrow> bias_addr s0 + v | None \<Rightarrow> symtab s0)"
    and "relplt s = (case dyn_val {DT_JMPREL} es of Some v \<Rightarrow> bias_addr s0 + v | None \<Rightarrow> relplt s0)"
    and "reldyn s =
      (case dyn_val {DT_REL, DT_RELA} es of Some v \<Rightarrow> bias_addr s0 + v | None \<Rightarrow> reldyn s0)"
    and "relandroid s = (case dyn_val {DT_ANDROID_REL, DT_ANDROID_RELA} es of
      Some v \<Rightarrow> bias_addr s0 + v | None \<Rightarrow> relandroid s0)"
    and "relplt_sz s = (case dyn_val {DT_PLTRELSZ} es of Some v \<Rightarrow> ucast v | None \<Rightarrow> relplt_sz s0)"
    and "reldyn_sz s =
      (case dyn_val {DT_RELSZ, DT_RELASZ} es of Some v \<Rightarrow> ucast v | None \<Rightarrow> reldyn_sz s0)"
    and "relandroid_sz s = (case dyn_val {DT_ANDROID_RELSZ, DT_ANDROID_RELASZ} es of
      Some v \<Rightarrow> ucast v | None \<Rightarrow> relandroid_sz s0)"
    and "is_use_rela s =
      (case dyn_val {DT_PLTREL} es of Some v \<Rightarrow> v = DT_RELA | None \<Rightarrow> is_use_rela s0)"
  using dyn_loop_field [where fld = strtab, OF dyn_step_field(1) loop list]
    dyn_loop_field [where fld = symtab, OF dyn_step_field(2) loop list]
    dyn_loop_field [where fld = relplt, OF dyn_step_field(3) loop list]
    dyn_loop_field [where fld = reldyn, OF dyn_step_field(4) loop list]
    dyn_loop_field [where fld = relandroid, OF dyn_step_field(5) loop list]
    dyn_loop_field [where fld = relplt_sz, OF dyn_step_field(6) loop list]
    dyn_loop_field [where fld = reldyn_sz, OF dyn_step_field(7) loop list]
    dyn_loop_field [where fld = relandroid_sz, OF dyn_step_field(8) loop list]
    dyn_loop_field [where fld = is_use_rela, OF dyn_step_field(9) loop list]
  by simp_all

text \<open>Every table that is there lies at or above the base.\<close>

definition tables_above :: "xh_elf \<Rightarrow> bool" where
  "tables_above s \<longleftrightarrow> (\<forall>p\<in>{strtab s, symtab s, relplt s, reldyn s}. p = 0 \<or> base_addr s \<le> p)"

lemma dyn_step_above:
  assumes "dyn_step w d s = Inr (Go, s')" and "d_tag w d = Inr t" and "tables_above s"
  shows "tables_above s'"
  using assms(1,2)
  by (cases rule: dyn_step_GoE; use assms(3) in
    \<open>auto simp: tables_above_def dyn_hash_def dyn_gnu_hash_def Let_def split: if_split_asm\<close>)

lemma dyn_loop_keeps:
  "dyn_loop w ds s = Inr (0, s') \<Longrightarrow> tables_above s \<Longrightarrow> tables_above s' \<and> same_place s s'"
proof (induction ds arbitrary: s)
  case (Cons d ds)
  then obtain f s1 where st: "dyn_step w d s = Inr (f, s1)" by auto
  then obtain t where t: "d_tag w d = Inr t" by (auto simp: dyn_step_def)
  show ?case
  proof (cases f)
    case Go
    then show ?thesis
      using Cons st t dyn_step_above dyn_step_place by (fastforce intro: same_place_trans)
  next
    case End
    then show ?thesis
      using Cons.prems st t dyn_step_end [OF st] dyn_step_end_iff [OF st t] by simp
  next
    case (Ret e)
    then show ?thesis
      using Cons.prems(1) st dyn_step_ret [of w d s e s1] by (auto simp: XH_ERRNO_FORMAT_def)
  qed
qed simp

text \<open>
  The record of an image at \<open>base\<close>: its place is computed from the first \<open>PT_LOAD\<close> header with
  offset 0 and the first \<open>PT_DYNAMIC\<close> header, its tables from the dynamic entries \<open>es\<close>.
\<close>

definition placed :: "world \<Rightarrow> addr \<Rightarrow> xh_elf \<Rightarrow> bool" where
  "placed w base s \<longleftrightarrow> base_addr s = base \<and> ehdr s = base \<and>
     (\<exists>phoff n p v q dv dm. e_phoff w base = Inr phoff \<and> phdr s = base + phoff \<and>
       e_phnum w base = Inr n \<and>
       is_first (\<lambda>h. seqE (p_type w h) (\<lambda>t.
           if t = PT_LOAD then seqE (p_offset w h) (\<lambda>off. Inr (off = 0)) else Inr False))
         (entries (phdr s) 56 (unat n)) p \<and>
       p_vaddr w p = Inr v \<and> v \<le> base \<and> bias_addr s = base - v \<and>
       is_first (\<lambda>h. seqE (p_type w h) (\<lambda>t. Inr (t = PT_DYNAMIC)))
         (entries (phdr s) 56 (unat n)) q \<and>
       p_vaddr w q = Inr dv \<and> p_memsz w q = Inr dm \<and>
       dyn s = bias_addr s + dv \<and> dyn_sz s = ucast dm)"

definition elf_describes :: "world \<Rightarrow> addr \<Rightarrow> string \<Rightarrow> (u64 \<times> u64) list \<Rightarrow> xh_elf \<Rightarrow> bool" where
  "elf_describes w base name es s \<longleftrightarrow>
     pathname s = Some name \<and> placed w base s \<and> dyn_fields es s \<and> tables_above s \<and>
     (case dyn_val {DT_GNU_HASH} es of
        Some v \<Rightarrow> gnu_table w (bias_addr s + v) s \<and> bloom s \<noteq> 0
      | None \<Rightarrow> \<exists>v. dyn_val {DT_HASH} es = Some v \<and> sysv_table w (bias_addr s + v) s) \<and>
     base \<noteq> 0 \<and> bias_addr s \<noteq> 0 \<and> phdr s \<noteq> 0 \<and> strtab s \<noteq> 0 \<and> symtab s \<noteq> 0 \<and>
     bucket s \<noteq> 0 \<and> chain s \<noteq> 0"

lemma placed_cong: "same_place s s' \<Longrightarrow> placed w base s' = placed w base s"
  by (simp add: placed_def same_place_def)

lemma check_relandroid_success:
  assumes "check_relandroid w s = Inr (0, s')"
  shows "s' = (if relandroid s = 0 then s
    else s\<lparr>relandroid := relandroid s + 4, relandroid_sz := relandroid_sz s - 4\<rparr>)"
  using assms by (auto simp: check_relandroid_def XH_ERRNO_FORMAT_def split: if_splits)

lemma xh_elf_init_successE:
  assumes "xh_elf_init w s0 base path = Inr (0, s)"
  obtains name s1 s2 where "path = Some name" and "base \<noteq> 0" and "placed w base s1"
    and "s1 = xh_elf_zero\<lparr>pathname := path, base_addr := base, ehdr := base, phdr := phdr s1,
      bias_addr := bias_addr s1, dyn := dyn s1, dyn_sz := dyn_sz s1\<rparr>"
    and "dyn_loop w (entries (dyn s1) 16 (unat (dyn_sz s1 div 16))) s1 = Inr (0, s2)"
    and "check_relandroid w s2 = Inr (0, s)" and "xh_elf_check s = 0"
proof -
  from assms have "base \<noteq> 0" "path \<noteq> None"
    by (auto simp: xh_elf_init_def XH_ERRNO_INVAL_def split: if_splits)
  then obtain name where name: "path = Some name" by auto
  let ?f1 = "\<lambda>h. seqE (p_type w h) (\<lambda>t.
    if t = PT_LOAD then seqE (p_offset w h) (\<lambda>off. Inr (off = 0)) else Inr False)"
  let ?f2 = "\<lambda>h. seqE (p_type w h) (\<lambda>t. Inr (t = PT_DYNAMIC))"
  obtain phoff n p v q dv dm s2 where
    ph: "e_phoff w base = Inr phoff" and n: "e_phnum w base = Inr n"
    and p: "first_match ?f1 (entries (base + phoff) 56 (unat n)) = Inr (Some p)"
    and v: "p_vaddr w p = Inr v" "\<not> base < v"
    and q: "first_match ?f2 (entries (base + phoff) 56 (unat n)) = Inr (Some q)"
    and dv: "p_vaddr w q = Inr dv" and dm: "p_memsz w q = Inr dm"
    and rest: "dyn_loop w (entries (base - v + dv) 16 (unat ((ucast dm :: u32) div 16)))
        (xh_elf_zero\<lparr>pathname := path, base_addr := base, ehdr := base, phdr := base + phoff,
          bias_addr := base - v, dyn := base - v + dv, dyn_sz := ucast dm\<rparr>) = Inr (0, s2)"
      "check_relandroid w s2 = Inr (0, s)" "xh_elf_check s = 0"
    using assms \<open>base \<noteq> 0\<close> name
    unfolding xh_elf_init_def Let_def xh_elf_get_first_segment_by_type_offset_def
      xh_elf_get_first_segment_by_type_def
    by (auto simp: XH_ERRNO_FORMAT_def xh_elf_zero_def split: if_splits option.splits)
  show ?thesis
    using rest \<open>base \<noteq> 0\<close> name ph n v dv dm
      first_match_is_first [OF p] first_match_is_first [OF q]
    by (intro that [of name "xh_elf_zero\<lparr>pathname := path, base_addr := base, ehdr := base,
        phdr := base + phoff, bias_addr := base - v, dyn := base - v + dv, dyn_sz := ucast dm\<rparr>" s2])
      (auto simp: placed_def not_less)
qed

text \<open>
  Claim C6. When \<open>xh_elf_init\<close> succeeds, the record describes the image whatever it held before:
  its base, bias, header tables and dynamic segment are those the program headers give; every
  table comes from the last dynamic entry of its kind before \<open>DT_NULL\<close> and lies at or above the
  base; a GNU hash table is preferred to a System V one whichever comes first; the magic
  number of the Android table has been skipped; and no pointer the lookups follow is null.
\<close>

theorem xh_elf_init_describes:
  assumes init: "xh_elf_init w s0 base path = Inr (0, s)"
    and list: "dyn_list w (entries (dyn s) 16 (unat (dyn_sz s div 16))) = Inr es"
  shows "\<exists>name. path = Some name \<and> elf_describes w base name es s"
proof -
  obtain name s1 s2 where name: "path = Some name" and base: "base \<noteq> 0" and pl: "placed w base s1"
    and s1: "s1 = xh_elf_zero\<lparr>pathname := path, base_addr := base, ehdr := base, phdr := phdr s1,
      bias_addr := bias_addr s1, dyn := dyn s1, dyn_sz := dyn_sz s1\<rparr>"
    and loop: "dyn_loop w (entries (dyn s1) 16 (unat (dyn_sz s1 div 16))) s1 = Inr (0, s2)"
    and rel: "check_relandroid w s2 = Inr (0, s)" and chk: "xh_elf_check s = 0"
    by (rule xh_elf_init_successE [OF init])
  note s = check_relandroid_success [OF rel]
  have fields1: "strtab s1 = 0" "symtab s1 = 0" "relplt s1 = 0" "relplt_sz s1 = 0" "reldyn s1 = 0"
    "reldyn_sz s1 = 0" "relandroid s1 = 0" "relandroid_sz s1 = 0" "\<not> is_use_rela s1"
    "\<not> is_use_gnu_hash s1" "bucket s1 = 0" "pathname s1 = path"
    by (subst s1, simp add: xh_elf_zero_def)+
  have hash: "same_hash s2 s" and place: "same_place s2 s"
    by (auto simp: s same_hash_def same_place_def)
  have keeps: "tables_above s2" "same_place s1 s2"
    using dyn_loop_keeps [OF loop] fields1 by (auto simp: tables_above_def)
  then have list1: "dyn_list w (entries (dyn s1) 16 (unat (dyn_sz s1 div 16))) = Inr es"
    using list place by (simp add: same_place_def)
  have bias: "bias_addr s1 = bias_addr s"
    using keeps place by (simp add: same_place_def)
  have "dyn_fields es s"
    using dyn_loop_fields [OF loop list1] fields1
    by (auto simp: dyn_fields_def Let_def s bias [symmetric] keeps(2) [unfolded same_place_def]
        split: option.splits)
  moreover have "placed w base s"
    using pl placed_cong [OF keeps(2)] placed_cong [OF place] by simp
  moreover have "hash_chosen w es s1 s"
    using dyn_loop_hash [OF loop list1] hash fields1
    by (auto simp: hash_chosen_def gnu_table_cong sysv_table_cong intro: same_hash_trans
        split: option.splits)
  moreover have "tables_above s"
    using keeps(1) by (simp add: s tables_above_def)
  moreover have "pathname s = path"
    using keeps(2) place fields1 by (simp add: same_place_def)
  ultimately show ?thesis
    using name base chk fields1 bias
    by (auto simp: elf_describes_def xh_elf_check_def hash_chosen_def same_hash_def gnu_table_def
        split: option.splits if_splits)
qed
theorem xh_elf_init_describes_witness:
  "\<exists>es. elf_describes example_elf 0x1000 ''libx.so'' es example_self"
proof -
  have "dyn_list example_elf (entries 0x1100 16 8) =
      Inr [(5, 0x200), (6, 0x220), (20, 7), (23, 0x280), (2, 24), (0x6ffffef5, 0x2a0), (4, 0x2d0)]"
    by (simp add: entries_def upt_rec layout_defs example_loads dt_defs)
  then show ?thesis
    using xh_elf_init_describes [OF example_init]
    by (simp add: example_self_def xh_elf_zero_def) blast
qed

end
