(* ===== verification/ElfHash.thy ===== *)
theory ElfHash
  imports Memory
begin

text \<open>
  The two symbol hash functions: \<open>xh_elf_hash\<close> and \<open>xh_elf_gnu_hash\<close> of \<^verbatim>\<open>xh_elf.c\<close> and their
  counterparts \<open>ElfHash\<close> and \<open>GnuHash\<close> of \<^verbatim>\<open>elf_image.cc\<close>, against the definitions of the
  System V ABI and of the GNU hash section.
\<close>

section \<open>The code\<close>

fun xh_elf_hash_loop :: "u32 \<Rightarrow> string \<Rightarrow> u32" where
  "xh_elf_hash_loop h [] = h"
| "xh_elf_hash_loop h (c # name) =
     (let h = push_bit 4 h + ucast (byte_of c);
          g = h AND 0xf0000000;
          h = h XOR g;
          h = h XOR drop_bit 24 g
      in xh_elf_hash_loop h name)"

definition xh_elf_hash :: "string \<Rightarrow> u32" where
  "xh_elf_hash name = xh_elf_hash_loop 0 name"

fun xh_elf_gnu_hash_loop :: "u32 \<Rightarrow> string \<Rightarrow> u32" where
  "xh_elf_gnu_hash_loop h [] = h"
| "xh_elf_gnu_hash_loop h (c # name) =
     xh_elf_gnu_hash_loop (h + (push_bit 5 h + ucast (byte_of c))) name"

definition xh_elf_gnu_hash :: "string \<Rightarrow> u32" where
  "xh_elf_gnu_hash name = xh_elf_gnu_hash_loop 5381 name"

text \<open>\<open>ElfHash\<close> and \<open>GnuHash\<close> of the section-header parser.\<close>

fun ElfHash_loop :: "u32 \<Rightarrow> string \<Rightarrow> u32" where
  "ElfHash_loop h [] = h"
| "ElfHash_loop h (c # name_bytes) =
     (let h = push_bit 4 h + ucast (byte_of c);
          g = h AND 0xf0000000;
          h = h XOR g;
          h = h XOR drop_bit 24 g
      in ElfHash_loop h name_bytes)"

definition ElfHash :: "string \<Rightarrow> u32" where
  "ElfHash name = ElfHash_loop 0 name"

fun GnuHash_loop :: "u32 \<Rightarrow> string \<Rightarrow> u32" where
  "GnuHash_loop h [] = h"
| "GnuHash_loop h (c # name_bytes) = GnuHash_loop (h + (push_bit 5 h + ucast (byte_of c))) name_bytes"

definition GnuHash :: "string \<Rightarrow> u32" where
  "GnuHash name = GnuHash_loop 5381 name"

section \<open>The specifications\<close>

text \<open>
  \<open>elf_hash\<close> of the System V ABI: \<^verbatim>\<open>h = (h << 4) + *name++; if (g = h & 0xf0000000)
  h ^= g >> 24; h &= ~g;\<close>
\<close>

definition sysv_step :: "char \<Rightarrow> u32 \<Rightarrow> u32" where
  "sysv_step c h =
     (let h = push_bit 4 h + ucast (byte_of c);
          g = h AND 0xf0000000;
          h = (if g \<noteq> 0 then h XOR drop_bit 24 g else h)
      in h AND NOT g)"

definition sysv_hash :: "string \<Rightarrow> u32" where
  "sysv_hash name = fold sysv_step name 0"

text \<open>The GNU hash: \<open>h = h * 33 + c\<close> from 5381, modulo \<open>2 ^ 32\<close>.\<close>

definition gnu_value :: "string \<Rightarrow> nat" where
  "gnu_value name = fold (\<lambda>c h. h * 33 + of_char c) name 5381"

section \<open>Lemmas\<close>

lemma bit_top4: "bit (0xf0000000 :: u32) n \<longleftrightarrow> 28 \<le> n \<and> n < 32"
proof -
  have "(0xf0000000 :: u32) = push_bit 28 (mask 4)"
    by (simp add: mask_eq_exp_minus_1)
  then show ?thesis
    by (auto simp only: bit_push_bit_iff bit_mask_iff) auto
qed

lemma sysv_step_eq:
  "(let h = push_bit 4 h + ucast (byte_of c); g = h AND 0xf0000000; h = h XOR g
    in h XOR drop_bit 24 g) = sysv_step c h"
  (is "?l = _")
proof -
  let ?h = "push_bit 4 h + ucast (byte_of c) :: u32"
  let ?g = "?h AND 0xf0000000"
  have "(?h XOR ?g) XOR drop_bit 24 ?g = (?h XOR drop_bit 24 ?g) AND NOT ?g"
  proof (rule bit_word_eqI)
    fix n assume "n < LENGTH(32)"
    have e: "bit ?g k \<longleftrightarrow> bit ?h k \<and> 28 \<le> k \<and> k < 32" for k
      by (simp only: bit_and_iff bit_top4)
    have d: "bit (drop_bit 24 ?g) n \<longleftrightarrow> bit ?g (24 + n)"
      by (simp only: bit_drop_bit_eq comp_def)
    have x: "bit ((?h XOR ?g) XOR drop_bit 24 ?g) n \<longleftrightarrow> (bit ?h n \<noteq> bit ?g n) \<noteq> bit ?g (24 + n)"
      by (simp only: bit_xor_iff d)
    have y: "bit ((?h XOR drop_bit 24 ?g) AND NOT ?g) n \<longleftrightarrow> (bit ?h n \<noteq> bit ?g (24 + n)) \<and> \<not> bit ?g n"
      using \<open>n < LENGTH(32)\<close> by (simp only: bit_and_iff bit_xor_iff d bit_not_iff_eq) simp
    show "bit ((?h XOR ?g) XOR drop_bit 24 ?g) n = bit ((?h XOR drop_bit 24 ?g) AND NOT ?g) n"
      unfolding x y using e [of n] e [of "24 + n"] \<open>n < LENGTH(32)\<close> by auto
  qed
  moreover have "(if ?g \<noteq> 0 then ?h XOR drop_bit 24 ?g else ?h) = ?h XOR drop_bit 24 ?g"
    by (cases "?g = 0") (simp_all only: drop_bit_of_0 xor.right_neutral if_True if_False simp_thms)
  ultimately show ?thesis
    by (simp only: sysv_step_def Let_def)
qed

lemma sysv_step_bound: "take_bit 28 (sysv_step c h) = sysv_step c h"
proof (rule bit_word_eqI)
  fix n assume "n < LENGTH(32)"
  show "bit (take_bit 28 (sysv_step c h)) n = bit (sysv_step c h) n"
    unfolding sysv_step_eq [symmetric] Let_def
    using \<open>n < LENGTH(32)\<close>
    by (auto simp only: bit_take_bit_iff bit_xor_iff bit_and_iff bit_top4 bit_drop_bit_eq comp_def) auto
qed

lemma xh_elf_hash_loop_fold: "xh_elf_hash_loop h name = fold sysv_step name h"
  by (induction h name rule: xh_elf_hash_loop.induct)
    (simp_all add: sysv_step_eq [symmetric] Let_def)

lemma gnu_loop: "xh_elf_gnu_hash_loop (of_nat h) name
    = of_nat (fold (\<lambda>c h. h * 33 + of_char c) name h)"
proof (induction name arbitrary: h)
  case (Cons c name)
  have "of_nat h + (push_bit 5 (of_nat h) + ucast (byte_of c)) = (of_nat (h * 33 + of_char c) :: u32)"
  proof -
    have "(ucast (byte_of c) :: u32) = of_nat (of_char c)"
      by (metis of_nat_unat unat_byte_of)
    then show ?thesis by (simp add: push_bit_eq_mult)
  qed
  then show ?case
    using Cons [of "h * 33 + of_char c"] by (simp only: xh_elf_gnu_hash_loop.simps fold_simps)
qed simp

section \<open>Properties\<close>

text \<open>
  Claim C30. \<open>xh_elf_hash\<close> is the hash of the System V ABI, although it clears the top four bits
  with an exclusive or before it folds them in instead of masking them afterwards, and its value
  always fits in 28 bits.
\<close>

theorem xh_elf_hash_sysv:
  "xh_elf_hash name = sysv_hash name \<and> unat (xh_elf_hash name) < 2 ^ 28"
proof -
  have "take_bit 28 (fold sysv_step name h) = fold sysv_step name h" if "take_bit 28 h = h" for h
    using that by (induction name arbitrary: h) (simp_all add: sysv_step_bound)
  then have "take_bit 28 (sysv_hash name) = sysv_hash name"
    by (simp add: sysv_hash_def)
  then have "unat (sysv_hash name) < 2 ^ 28"
    by (metis unsigned_take_bit_eq take_bit_nat_less_exp)
  then show ?thesis
    by (simp add: xh_elf_hash_def sysv_hash_def xh_elf_hash_loop_fold)
qed

text \<open>
  \<open>xh_elf_gnu_hash\<close> is the GNU hash: its 32-bit wrap-around computes
  \<open>h = h * 33 + c\<close>, started at 5381, modulo \<open>2 ^ 32\<close>.
\<close>

theorem xh_elf_gnu_hash_value:
  "unat (xh_elf_gnu_hash name) = gnu_value name mod 2 ^ 32"
proof -
  have "xh_elf_gnu_hash name = of_nat (gnu_value name)"
    using gnu_loop [of 5381 name] by (simp add: xh_elf_gnu_hash_def gnu_value_def)
  then show ?thesis by (simp add: unat_of_nat take_bit_nat_def)
qed

lemma ElfHash_eq: "ElfHash name = xh_elf_hash name"
proof -
  have "ElfHash_loop h name = xh_elf_hash_loop h name" for h
    by (induction h name rule: ElfHash_loop.induct) (simp_all add: Let_def)
  then show ?thesis by (simp add: ElfHash_def xh_elf_hash_def)
qed

lemma GnuHash_eq: "GnuHash name = xh_elf_gnu_hash name"
proof -
  have "GnuHash_loop h name = xh_elf_gnu_hash_loop h name" for h
    by (induction h name rule: GnuHash_loop.induct) simp_all
  then show ?thesis by (simp add: GnuHash_def xh_elf_gnu_hash_def)
qed

end
