(* ===== verification/ElfLookup.thy ===== *)
theory ElfLookup
  imports ElfInit ElfHash
begin

text \<open>
  Symbol lookup of \<^verbatim>\<open>xh_elf.c\<close>: the System V hash table (\<open>xh_elf_hash_lookup\<close>), the GNU hash
  table with its Bloom filter (\<open>xh_elf_gnu_hash_lookup_def\<close>), the scan of the undefined symbols
  (\<open>xh_elf_gnu_hash_lookup_undef\<close>) and their combination. A lookup returns an error number
  (\<open>Inl\<close>) or stores an index (\<open>Inr\<close>).
\<close>

section \<open>Tables in the image\<close>

text \<open>\<open>self->strtab + self->symtab[i].st_name\<close>; an \<open>Elf64_Sym\<close> has 24 bytes.\<close>

definition symbol_name :: "world \<Rightarrow> xh_elf \<Rightarrow> u32 \<Rightarrow> addr res" where
  "symbol_name w self i =
     seqE (ld32 w (symtab self + 24 * ucast i)) (\<lambda>st_name. Inr (strtab self + ucast st_name))"

definition bucket_at :: "world \<Rightarrow> xh_elf \<Rightarrow> u32 \<Rightarrow> u32 res" where
  "bucket_at w self b = ld32 w (bucket self + 4 * ucast b)"

definition chain_at :: "world \<Rightarrow> xh_elf \<Rightarrow> u32 \<Rightarrow> u32 res" where
  "chain_at w self i = ld32 w (chain self + 4 * ucast i)"

definition bloom_at :: "world \<Rightarrow> xh_elf \<Rightarrow> u32 \<Rightarrow> u64 res" where
  "bloom_at w self k = ld64 w (bloom self + 8 * ucast k)"

text \<open>A remainder by zero is undefined (the processor raises SIGFPE).\<close>

definition mod32 :: "u32 \<Rightarrow> u32 \<Rightarrow> u32 res" where
  "mod32 a b = (if b = 0 then Inl Undef else Inr (a mod b))"

text \<open>Both loops move a 32-bit index in an image that does not change: after \<open>2 ^ 32\<close>
  iterations they have come back to an index they have seen, and never end.\<close>

definition index_fuel :: nat where "index_fuel = 2 ^ 32"

section \<open>The System V table\<close>

fun hash_lookup_loop :: "nat \<Rightarrow> world \<Rightarrow> xh_elf \<Rightarrow> string \<Rightarrow> u32 \<Rightarrow> (int + u32) res" where
  "hash_lookup_loop 0 w self symbol i = Inl Diverge"
| "hash_lookup_loop (Suc fuel) w self symbol i =
     (if i = 0 then Inr (Inl XH_ERRNO_NOTFND)
      else seqE (symbol_name w self i) (\<lambda>symbol_cur.
        seqE (strcmp_eq w symbol symbol_cur) (\<lambda>eq.
        if eq then Inr (Inr i)
        else seqE (chain_at w self i) (\<lambda>i. hash_lookup_loop fuel w self symbol i))))"

definition xh_elf_hash_lookup :: "world \<Rightarrow> xh_elf \<Rightarrow> string \<Rightarrow> (int + u32) res" where
  "xh_elf_hash_lookup w self symbol =
     (let hash = xh_elf_hash symbol in
      seqE (mod32 hash (bucket_cnt self)) (\<lambda>b.
      seqE (bucket_at w self b) (\<lambda>i. hash_lookup_loop index_fuel w self symbol i)))"

section \<open>The GNU table\<close>

fun gnu_lookup_loop :: "nat \<Rightarrow> world \<Rightarrow> xh_elf \<Rightarrow> u32 \<Rightarrow> string \<Rightarrow> u32 \<Rightarrow> (int + u32) res" where
  "gnu_lookup_loop 0 w self hash symbol i = Inl Diverge"
| "gnu_lookup_loop (Suc fuel) w self hash symbol i =
     seqE (symbol_name w self i) (\<lambda>symname.
     seqE (chain_at w self (i - symoffset self)) (\<lambda>symhash.
     seqE (if hash OR 1 = symhash OR 1 then strcmp_eq w symbol symname else Inr False) (\<lambda>eq.
     if eq then Inr (Inr i)
     else if symhash AND 1 \<noteq> 0 then Inr (Inl XH_ERRNO_NOTFND)
     else gnu_lookup_loop fuel w self hash symbol (i + 1))))"

text \<open>\<open>hash >> self->bloom_shift\<close> is undefined for a shift of 32 or more.\<close>

definition xh_elf_gnu_hash_lookup_def :: "world \<Rightarrow> xh_elf \<Rightarrow> string \<Rightarrow> (int + u32) res" where
  "xh_elf_gnu_hash_lookup_def w self symbol =
     (let hash = xh_elf_gnu_hash symbol in
      seqE (mod32 (hash div 64) (bloom_sz self)) (\<lambda>k.
      seqE (bloom_at w self k) (\<lambda>word.
      if 32 \<le> bloom_shift self then Inl Undef else
      let mask = push_bit (unat (hash mod 64)) 1
               OR push_bit (unat (drop_bit (unat (bloom_shift self)) hash mod 64)) 1 in
      if word AND mask \<noteq> mask then Inr (Inl XH_ERRNO_NOTFND) else
      seqE (mod32 hash (bucket_cnt self)) (\<lambda>b.
      seqE (bucket_at w self b) (\<lambda>i.
      if i < symoffset self then Inr (Inl XH_ERRNO_NOTFND)
      else gnu_lookup_loop index_fuel w self hash symbol i)))))"

definition xh_elf_gnu_hash_lookup_undef :: "world \<Rightarrow> xh_elf \<Rightarrow> string \<Rightarrow> (int + u32) res" where
  "xh_elf_gnu_hash_lookup_undef w self symbol =
     seqE (first_match (\<lambda>i. seqE (symbol_name w self i) (\<lambda>symname. strcmp_eq w symbol symname))
        (map of_nat [0..<unat (symoffset self)])) (\<lambda>hit.
     case hit of Some i \<Rightarrow> Inr (Inr i) | None \<Rightarrow> Inr (Inl XH_ERRNO_NOTFND))"

definition xh_elf_gnu_hash_lookup :: "world \<Rightarrow> xh_elf \<Rightarrow> string \<Rightarrow> (int + u32) res" where
  "xh_elf_gnu_hash_lookup w self symbol =
     seqE (xh_elf_gnu_hash_lookup_def w self symbol) (\<lambda>r.
     case r of Inr i \<Rightarrow> Inr (Inr i) | Inl _ \<Rightarrow>
     seqE (xh_elf_gnu_hash_lookup_undef w self symbol) (\<lambda>r.
     case r of Inr i \<Rightarrow> Inr (Inr i) | Inl _ \<Rightarrow> Inr (Inl XH_ERRNO_NOTFND)))"

definition xh_elf_find_symidx_by_name :: "world \<Rightarrow> xh_elf \<Rightarrow> string \<Rightarrow> (int + u32) res" where
  "xh_elf_find_symidx_by_name w self symbol =
     (if is_use_gnu_hash self then xh_elf_gnu_hash_lookup w self symbol
      else xh_elf_hash_lookup w self symbol)"

text \<open>The loops at a literal amount of fuel, for evaluation.\<close>

lemma lookup_loop_numeral:
  "hash_lookup_loop (numeral k) w self symbol i =
     (if i = 0 then Inr (Inl XH_ERRNO_NOTFND)
      else seqE (symbol_name w self i) (\<lambda>symbol_cur.
        seqE (strcmp_eq w symbol symbol_cur) (\<lambda>eq.
        if eq then Inr (Inr i)
        else seqE (chain_at w self i) (\<lambda>i. hash_lookup_loop (pred_numeral k) w self symbol i))))"
  "gnu_lookup_loop (numeral k) w self hash symbol i =
     seqE (symbol_name w self i) (\<lambda>symname.
     seqE (chain_at w self (i - symoffset self)) (\<lambda>symhash.
     seqE (if hash OR 1 = symhash OR 1 then strcmp_eq w symbol symname else Inr False) (\<lambda>eq.
     if eq then Inr (Inr i)
     else if symhash AND 1 \<noteq> 0 then Inr (Inl XH_ERRNO_NOTFND)
     else gnu_lookup_loop (pred_numeral k) w self hash symbol (i + 1))))"
  by (simp_all add: numeral_eq_Suc)

section \<open>The fuel is exact\<close>

text \<open>A walk on a finite state space ends within as many steps as there are states, or never.\<close>

fun walk :: "nat \<Rightarrow> ('a \<Rightarrow> 'a + 'b) \<Rightarrow> 'a \<Rightarrow> 'b option" where
  "walk 0 f x = None"
| "walk (Suc n) f x = (case f x of Inl y \<Rightarrow> walk n f y | Inr b \<Rightarrow> Some b)"

text \<open>The state reached after \<open>k\<close> steps that do not end.\<close>

fun walk_state :: "nat \<Rightarrow> ('a \<Rightarrow> 'a + 'b) \<Rightarrow> 'a \<Rightarrow> 'a" where
  "walk_state 0 f x = x"
| "walk_state (Suc k) f x = (case f x of Inl y \<Rightarrow> walk_state k f y | Inr b \<Rightarrow> x)"

lemma walk_mono: "walk n f x = Some b \<Longrightarrow> n \<le> m \<Longrightarrow> walk m f x = Some b"
proof (induction n arbitrary: x m)
  case (Suc n)
  then obtain m' where "m = Suc m'" "n \<le> m'" by (cases m) auto
  with Suc show ?case by (auto split: sum.splits)
qed simp

lemma walk_split: "walk k f x = None \<Longrightarrow> walk (k + n) f x = walk n f (walk_state k f x)"
  by (induction k arbitrary: x) (auto split: sum.splits)

text \<open>A walk of minimal length does not pass twice through a state.\<close>

lemma walk_inj:
  assumes "walk n f x = Some b" and "\<And>m. m < n \<Longrightarrow> walk m f x = None" and "i < n" "j < n"
    and "walk_state i f x = walk_state j f x"
  shows "\<not> i < j"
proof
  assume "i < j"
  have "walk (i + (n - j)) f x = walk (n - j) f (walk_state i f x)"
    by (rule walk_split [OF assms(2) [OF \<open>i < n\<close>]])
  also have "\<dots> = walk (n - j) f (walk_state j f x)"
    by (simp only: assms(5))
  also have "\<dots> = walk (j + (n - j)) f x"
    by (rule walk_split [OF assms(2) [OF \<open>j < n\<close>], symmetric])
  also have "\<dots> = Some b"
    using assms(1) \<open>j < n\<close> by simp
  finally have some: "walk (i + (n - j)) f x = Some b" .
  have "i + (n - j) < n" using \<open>i < j\<close> \<open>j < n\<close> by linarith
  from assms(2) [OF this] show False by (simp only: some option.distinct)
qed

lemma walk_bound:
  fixes f :: "'a::finite \<Rightarrow> 'a + 'b"
  assumes "walk m f x = Some b"
  shows "walk CARD('a) f x = Some b"
proof -
  define n where "n = (LEAST n. walk n f x \<noteq> None)"
  have ex: "walk n f x \<noteq> None" and least: "\<And>m. m < n \<Longrightarrow> walk m f x = None"
    using LeastI [of "\<lambda>n. walk n f x \<noteq> None" m] not_less_Least [of _ "\<lambda>n. walk n f x \<noteq> None"]
      assms by (auto simp: n_def)
  then obtain b' where b': "walk n f x = Some b'" by auto
  have "inj_on (\<lambda>k. walk_state k f x) {..<n}"
    using walk_inj [OF b' least] by (intro inj_onI) (metis lessThan_iff linorder_neqE_nat)
  then have "n \<le> CARD('a)"
    using card_inj_on_le [of _ "{..<n}" "UNIV :: 'a set"] by simp
  then have "walk CARD('a) f x = Some b'" by (rule walk_mono [OF b'])
  moreover have "b' = b"
    using walk_mono [OF b', of "max n m"] walk_mono [OF assms, of "max n m"] by simp
  ultimately show ?thesis by simp
qed

text \<open>Both loops are walks on the 32-bit index; a trap or a result ends them.\<close>

definition hash_lookup_step ::
    "world \<Rightarrow> xh_elf \<Rightarrow> string \<Rightarrow> u32 \<Rightarrow> u32 + (int + u32) res" where
  "hash_lookup_step w self symbol i =
     (if i = 0 then Inr (Inr (Inl XH_ERRNO_NOTFND))
      else case seqE (symbol_name w self i) (strcmp_eq w symbol) of
        Inl t \<Rightarrow> Inr (Inl t)
      | Inr eq \<Rightarrow> if eq then Inr (Inr (Inr i))
          else case chain_at w self i of Inl t \<Rightarrow> Inr (Inl t) | Inr j \<Rightarrow> Inl j)"

definition gnu_lookup_step ::
    "world \<Rightarrow> xh_elf \<Rightarrow> u32 \<Rightarrow> string \<Rightarrow> u32 \<Rightarrow> u32 + (int + u32) res" where
  "gnu_lookup_step w self hash symbol i =
     (case seqE (symbol_name w self i) (\<lambda>symname.
        seqE (chain_at w self (i - symoffset self)) (\<lambda>symhash.
        seqE (if hash OR 1 = symhash OR 1 then strcmp_eq w symbol symname else Inr False) (\<lambda>eq.
        Inr (eq, symhash)))) of
       Inl t \<Rightarrow> Inr (Inl t)
     | Inr (eq, symhash) \<Rightarrow> if eq then Inr (Inr (Inr i))
         else if symhash AND 1 \<noteq> 0 then Inr (Inr (Inl XH_ERRNO_NOTFND)) else Inl (i + 1))"

definition ended :: "'a res option \<Rightarrow> 'a res" where
  "ended r = (case r of None \<Rightarrow> Inl Diverge | Some x \<Rightarrow> x)"

lemma hash_lookup_walk:
  "hash_lookup_loop n w self symbol i = ended (walk n (hash_lookup_step w self symbol) i)"
proof (induction n arbitrary: i)
  case 0
  then show ?case by (simp add: ended_def)
next
  case (Suc n)
  then show ?case
    by (cases "symbol_name w self i"; cases "chain_at w self i")
      (auto simp: hash_lookup_step_def seqE_def ended_def split: sum.splits)
qed

lemma gnu_lookup_walk:
  "gnu_lookup_loop n w self hash symbol i = ended (walk n (gnu_lookup_step w self hash symbol) i)"
proof (induction n arbitrary: i)
  case 0
  then show ?case by (simp add: ended_def)
next
  case (Suc n)
  then show ?case
    by (cases "symbol_name w self i"; cases "chain_at w self (i - symoffset self)")
      (auto simp: gnu_lookup_step_def seqE_def ended_def split: sum.splits)
qed

lemma ended_walk_bound:
  fixes f :: "u32 \<Rightarrow> u32 + 'b res"
  assumes "ended (walk n f i) \<noteq> Inl Diverge"
  shows "ended (walk index_fuel f i) = ended (walk n f i)"
proof -
  obtain b where "walk n f i = Some b"
    using assms by (auto simp: ended_def split: option.splits)
  then have "walk CARD(u32) f i = Some b" by (rule walk_bound)
  then show ?thesis
    using \<open>walk n f i = Some b\<close> by (simp add: index_fuel_def card_word)
qed

lemma lookup_ends:
  "hash_lookup_loop n w self symbol i \<noteq> Inl Diverge \<Longrightarrow>
     hash_lookup_loop index_fuel w self symbol i = hash_lookup_loop n w self symbol i"
  "gnu_lookup_loop n w self hash symbol i \<noteq> Inl Diverge \<Longrightarrow>
     gnu_lookup_loop index_fuel w self hash symbol i = gnu_lookup_loop n w self hash symbol i"
  by (simp_all add: hash_lookup_walk gnu_lookup_walk ended_walk_bound)

text \<open>
  The bound of \<open>2 ^ 32\<close> iterations in the model of the two loops is exact: a chain of the image on which a loop ends
  after any number of iterations makes the modelled loop end with the same result. Where the model says \<open>Diverge\<close>, the C loop
  never returns.
\<close>

lemma lookup_fuel_exact:
  "hash_lookup_loop index_fuel w self symbol i = Inl Diverge \<longleftrightarrow> (\<forall>n. hash_lookup_loop n w self symbol i = Inl Diverge)"
  "gnu_lookup_loop index_fuel w self hash symbol i = Inl Diverge \<longleftrightarrow>
     (\<forall>n. gnu_lookup_loop n w self hash symbol i = Inl Diverge)"
  by (metis lookup_ends(1), metis lookup_ends(2))

section \<open>When a lookup does not end\<close>

text \<open>A walk that has not ended has passed through states that go on; on a finite type it has come back to one of them.\<close>

lemma walk_None_states: "walk n f x = None \<Longrightarrow> k < n \<Longrightarrow> \<exists>y. f (walk_state k f x) = Inl y"
proof (induction n arbitrary: x k)
  case (Suc n)
  then show ?case by (cases k) (auto split: sum.splits)
qed simp

lemma walk_states_None: "(\<And>k. k < n \<Longrightarrow> \<exists>y. f (walk_state k f x) = Inl y) \<Longrightarrow> walk n f x = None"
proof (induction n arbitrary: x)
  case (Suc n)
  obtain y where y: "f x = Inl y" using Suc.prems [of 0] by auto
  have "walk n f y = None"
    by (rule Suc.IH) (use Suc.prems [of "Suc k" for k] y in auto)
  with y show ?case by simp
qed simp

lemma walk_state_Suc: "f (walk_state k f x) = Inl y \<Longrightarrow> walk_state (Suc k) f x = y"
proof (induction k arbitrary: x)
  case (Suc k)
  then obtain z where z: "f x = Inl z" by (cases "f x") simp_all
  then have "walk_state (Suc k) f z = y" using Suc by (simp del: walk_state.simps add: walk_state.simps(2) [of k f x])
  then show ?case using z by (simp only: walk_state.simps(2) [of "Suc k" f x] sum.case)
qed simp

lemma walk_cycle:
  assumes "k < l" "walk_state k f x = walk_state l f x" and "\<And>m. m < l \<Longrightarrow> \<exists>y. f (walk_state m f x) = Inl y"
  shows "walk n f x = None"
proof (rule ccontr)
  assume some: "walk n f x \<noteq> None"
  define n0 where "n0 = (LEAST n. walk n f x \<noteq> None)"
  have ex: "walk n0 f x \<noteq> None" and least: "\<And>m. m < n0 \<Longrightarrow> walk m f x = None"
    using LeastI [of "\<lambda>n. walk n f x \<noteq> None" n] not_less_Least [of _ "\<lambda>n. walk n f x \<noteq> None"] some
    by (auto simp: n0_def)
  have "walk l f x = None" using assms(3) by (rule walk_states_None)
  then have "\<not> n0 \<le> l" using walk_mono ex by fastforce
  then have "k < n0" "l < n0" using assms(1) by auto
  with ex least assms(1,2) show False using walk_inj [of n0 f x _ k l] by blast
qed

lemma walk_None_cycle:
  fixes f :: "'a::finite \<Rightarrow> 'a + 'b"
  assumes "walk CARD('a) f x = None"
  obtains k l where "k < l" "walk_state k f x = walk_state l f x" "\<And>m. m < l \<Longrightarrow> \<exists>y. f (walk_state m f x) = Inl y"
proof -
  have "\<not> inj_on (\<lambda>k. walk_state k f x) {..CARD('a)}"
  proof
    assume "inj_on (\<lambda>k. walk_state k f x) {..CARD('a)}"
    then have "card {..CARD('a)} \<le> CARD('a)"
      by (rule card_inj_on_le) simp_all
    then show False by simp
  qed
  then obtain k l where kl: "k < l" "l \<le> CARD('a)" "walk_state k f x = walk_state l f x"
    unfolding inj_on_def by (metis atMost_iff linorder_neqE_nat)
  show ?thesis
    by (rule that [OF kl(1,3)]) (use walk_None_states [OF assms] kl(2) in auto)
qed

text \<open>The index after \<open>k\<close> steps along the chain, and the indexes at which the comparison is made, fails and the loop goes on.\<close>

fun chain_nth :: "world \<Rightarrow> xh_elf \<Rightarrow> u32 \<Rightarrow> nat \<Rightarrow> u32 res" where
  "chain_nth w self i 0 = Inr i"
| "chain_nth w self i (Suc k) = seqE (chain_nth w self i k) (chain_at w self)"

definition passed_over :: "world \<Rightarrow> xh_elf \<Rightarrow> string \<Rightarrow> u32 \<Rightarrow> bool" where
  "passed_over w self symbol i \<longleftrightarrow> i \<noteq> 0 \<and> seqE (symbol_name w self i) (strcmp_eq w symbol) = Inr False"

lemma step_goes_on:
  "hash_lookup_step w self symbol i = Inl j \<longleftrightarrow> passed_over w self symbol i \<and> chain_at w self i = Inr j"
  by (auto simp: hash_lookup_step_def passed_over_def split: sum.splits if_splits)

lemma chain_states:
  assumes "\<And>m. m < n \<Longrightarrow> \<exists>y. hash_lookup_step w self symbol (walk_state m (hash_lookup_step w self symbol) i) = Inl y"
  shows "k \<le> n \<Longrightarrow> chain_nth w self i k = Inr (walk_state k (hash_lookup_step w self symbol) i)"
proof (induction k)
  case (Suc k)
  then obtain y where y: "hash_lookup_step w self symbol (walk_state k (hash_lookup_step w self symbol) i) = Inl y"
    using assms [of k] by auto
  then have "chain_at w self (walk_state k (hash_lookup_step w self symbol) i) = Inr y" by (simp add: step_goes_on)
  with Suc show ?case
    using walk_state_Suc [where f = "hash_lookup_step w self symbol" and k = k and x = i, of y] y by (simp del: walk_state.simps)
qed simp

text \<open>The chain that starts at \<open>i\<close> comes back to an index, and the name sought is not met on the way.\<close>

definition cyclic_chain :: "world \<Rightarrow> xh_elf \<Rightarrow> string \<Rightarrow> u32 \<Rightarrow> bool" where
  "cyclic_chain w self symbol i \<longleftrightarrow>
     (\<exists>k l. k < l \<and> chain_nth w self i k = chain_nth w self i l \<and>
        (\<forall>m<l. \<exists>j. chain_nth w self i m = Inr j \<and> passed_over w self symbol j) \<and>
        (\<exists>j. chain_nth w self i l = Inr j))"

lemma hash_lookup_diverges:
  "hash_lookup_loop index_fuel w self symbol i = Inl Diverge \<longleftrightarrow> cyclic_chain w self symbol i"
proof -
  let ?f = "hash_lookup_step w self symbol"
  have no: "?f i \<noteq> Inr (Inl Diverge)" for i
    by (auto simp: hash_lookup_step_def symbol_name_def chain_at_def seqE_Inl_iff split: sum.splits if_splits dest: only_segv)
  have "walk n ?f i \<noteq> Some (Inl Diverge)" for n i
    using no by (induction n arbitrary: i) (auto split: sum.splits)
  then have "hash_lookup_loop index_fuel w self symbol i = Inl Diverge \<longleftrightarrow> walk CARD(u32) ?f i = None"
    by (auto simp: hash_lookup_walk ended_def index_fuel_def card_word split: option.splits)
  also have "\<dots> \<longleftrightarrow> cyclic_chain w self symbol i"
  proof
    assume "walk CARD(u32) ?f i = None"
    then obtain k l where kl: "k < l" "walk_state k ?f i = walk_state l ?f i"
      and go: "\<And>m. m < l \<Longrightarrow> \<exists>y. ?f (walk_state m ?f i) = Inl y"
      by (rule walk_None_cycle) blast
    note st = chain_states [OF go]
    have "\<forall>m<l. \<exists>j. chain_nth w self i m = Inr j \<and> passed_over w self symbol j"
      using go st by (fastforce simp: step_goes_on)
    then show "cyclic_chain w self symbol i"
      using kl st [of k] st [of l] unfolding cyclic_chain_def by (intro exI [of _ k] exI [of _ l]) simp
  next
    assume "cyclic_chain w self symbol i"
    then obtain k l j where kl: "k < l" "chain_nth w self i k = chain_nth w self i l" "chain_nth w self i l = Inr j"
      and pass: "\<And>m. m < l \<Longrightarrow> \<exists>j. chain_nth w self i m = Inr j \<and> passed_over w self symbol j"
      unfolding cyclic_chain_def by blast
    have read: "\<exists>j. chain_nth w self i m = Inr j" if "m \<le> l" for m
      using that pass [of m] kl(3) by (cases "m = l") auto
    have go: "\<exists>y. ?f (walk_state m ?f i) = Inl y" if "m < l" for m
      using that
    proof (induction m rule: less_induct)
      case (less m)
      then have at: "chain_nth w self i m = Inr (walk_state m ?f i)"
        using chain_states [of m w self symbol i m] by auto
      have "passed_over w self symbol (walk_state m ?f i)" using pass [OF less.prems] at by auto
      moreover obtain y where "chain_nth w self i (Suc m) = Inr y" using read [of "Suc m"] less.prems by auto
      then have "chain_at w self (walk_state m ?f i) = Inr y" using at by simp
      ultimately show ?case by (auto simp: step_goes_on)
    qed
    have "walk_state k ?f i = walk_state l ?f i"
      using chain_states [OF go, of k] chain_states [OF go, of l] kl by simp
    then show "walk CARD(u32) ?f i = None" using go by (rule walk_cycle [OF kl(1)])
  qed
  finally show ?thesis .
qed

text \<open>The scan of a GNU bucket only moves forward: to go on for ever it has to read the whole chain without finding an end bit.\<close>

lemma gnu_lookup_diverges:
  assumes "gnu_lookup_loop index_fuel w self hash symbol i = Inl Diverge"
  shows "\<exists>c. chain_at w self j = Inr c \<and> c AND 1 = 0"
proof -
  let ?f = "gnu_lookup_step w self hash symbol"
  have no: "?f i \<noteq> Inr (Inl Diverge)" for i
    by (auto simp: gnu_lookup_step_def symbol_name_def chain_at_def seqE_Inl_iff split: sum.splits if_splits prod.splits
        dest: only_segv)
  have "walk n ?f i \<noteq> Some (Inl Diverge)" for n i
    using no by (induction n arbitrary: i) (auto split: sum.splits)
  then have none: "walk CARD(u32) ?f i = None"
    using assms by (auto simp: gnu_lookup_walk ended_def index_fuel_def card_word split: option.splits)
  have on: "?f i = Inl y \<Longrightarrow> y = i + 1 \<and> (\<exists>c. chain_at w self (i - symoffset self) = Inr c \<and> c AND 1 = 0)" for i y
    by (auto simp: gnu_lookup_step_def seqE_Inr_iff split: sum.splits if_splits prod.splits)
  have at: "k \<le> CARD(u32) \<Longrightarrow> walk_state k ?f i = i + of_nat k" for k
  proof (induction k)
    case (Suc k)
    then obtain y where y: "?f (walk_state k ?f i) = Inl y" using walk_None_states [OF none, of k] by auto
    then show ?case
      using Suc on [OF y] walk_state_Suc [where f = ?f and k = k and x = i, of y] by (simp del: walk_state.simps)
  qed simp
  let ?k = "unat (j + symoffset self - i)"
  have lt: "?k < CARD(u32)" using unsigned_less [of "j + symoffset self - i", where ?'a = nat] by (simp add: card_word)
  then obtain y where "?f (walk_state ?k ?f i) = Inl y" using walk_None_states [OF none] by blast
  from on [OF this] show ?thesis using at [of ?k] lt by (simp add: algebra_simps)
qed

text \<open>
  Claim C31. The System V lookup returns for every image, well-formed or not, except in one case: the chain of the bucket comes back to an
  index that it has passed, with readable entries and other names all the way. Then the loop of the code, which has no bound, never returns
  (in every number of iterations). In all other cases it ends with an index, an error or a fault.
\<close>

theorem hash_lookup_hangs_iff:
  "xh_elf_hash_lookup w self symbol = Inl Diverge \<longleftrightarrow>
     bucket_cnt self \<noteq> 0 \<and>
     (\<exists>i. bucket_at w self (xh_elf_hash symbol mod bucket_cnt self) = Inr i \<and> cyclic_chain w self symbol i \<and>
        (\<forall>n. hash_lookup_loop n w self symbol i = Inl Diverge))"
proof -
  have "bucket_at w self b \<noteq> Inl Diverge" for b
    by (auto simp: bucket_at_def dest: only_segv)
  then show ?thesis
    by (cases "bucket_at w self (xh_elf_hash symbol mod bucket_cnt self)")
      (auto simp: xh_elf_hash_lookup_def Let_def mod32_def hash_lookup_diverges lookup_fuel_exact(1) [symmetric])
qed

text \<open>A malformed image at \<open>0x1000\<close>: one bucket, whose chain is 1, 2, 1, 2 and so on; the two symbols are \<open>f\<close> and \<open>g\<close>.\<close>

definition cyclic_words :: "(addr \<times> u64) list" where
  "cyclic_words = [(0x1000, 0x300000001), (0x1008, 0x1), (0x1010, 0x100000002), (0x1038, 0x1), (0x1050, 0x3), (0x1080, 0x67006600)]"

definition cyclic_elf :: world where
  "cyclic_elf = \<lparr>mbytes = word_image cyclic_words, mprot = (\<lambda>a. if 0x1000 \<le> a \<and> a < 0x2000 then PROT_READ else 0)\<rparr>"

lemma cyclic_bytes: "mbytes cyclic_elf = word_image cyclic_words"
  by (simp add: cyclic_elf_def)

lemma cyclic_readable: "readable cyclic_elf a \<longleftrightarrow> 0x1000 \<le> a \<and> a < 0x2000"
  by (simp add: cyclic_elf_def readable_def prot_defs)

lemmas cyclic_loads = ld_word [OF cyclic_bytes] cyclic_readable all_readable_unfold word_at_def cyclic_words_def

definition cyclic_self :: xh_elf where
  "cyclic_self = xh_elf_zero\<lparr>symtab := 0x1020, strtab := 0x1080, bucket := 0x1008, bucket_cnt := 1, chain := 0x100c\<rparr>"

theorem hash_lookup_hangs_iff_witness:
  "xh_elf_hash_lookup cyclic_elf cyclic_self ''h'' = Inl Diverge"
proof -
  have pass: "passed_over cyclic_elf cyclic_self ''h'' 1" "passed_over cyclic_elf cyclic_self ''h'' 2"
    by (simp_all add: passed_over_def symbol_name_def cyclic_self_def xh_elf_zero_def cyclic_loads byte_of_def)
  have "chain_at cyclic_elf cyclic_self 1 = Inr 2" "chain_at cyclic_elf cyclic_self 2 = Inr 1"
    by (simp_all add: chain_at_def cyclic_self_def xh_elf_zero_def cyclic_loads)
  then have nth: "chain_nth cyclic_elf cyclic_self 1 (Suc 0) = Inr 2" "chain_nth cyclic_elf cyclic_self 1 2 = Inr 1"
    by (simp_all add: numeral_2_eq_2)
  have "cyclic_chain cyclic_elf cyclic_self ''h'' 1"
    unfolding cyclic_chain_def using pass nth
    by (intro exI [of _ 0] exI [of _ "2 :: nat"]) (auto simp: less_2_cases_iff)
  moreover from this have "\<forall>n. hash_lookup_loop n cyclic_elf cyclic_self ''h'' 1 = Inl Diverge"
    using lookup_fuel_exact(1) hash_lookup_diverges by blast
  moreover have "bucket_at cyclic_elf cyclic_self (xh_elf_hash ''h'' mod bucket_cnt cyclic_self) = Inr 1" "bucket_cnt cyclic_self \<noteq> 0"
    by (simp_all add: bucket_at_def cyclic_self_def xh_elf_zero_def cyclic_loads)
  ultimately show ?thesis
    using hash_lookup_hangs_iff [of cyclic_elf cyclic_self "''h''"] by blast
qed

end
