(* ===== verification/LookupSpec.thy ===== *)
theory LookupSpec
  imports ElfLookup
begin

text \<open>
  What a symbol lookup promises: over well-formed tables for a list of symbol names it returns
  the index of a symbol of that name when there is one, and an error otherwise. One statement
  (\<open>finds\<close>) serves both kinds of table.
\<close>

text \<open>The outcome of looking for \<open>symbol\<close> among the indexes \<open>I\<close> of \<open>syms\<close>.\<close>

definition finds :: "string list \<Rightarrow> nat set \<Rightarrow> string \<Rightarrow> (int + u32) \<Rightarrow> bool" where
  "finds syms I symbol r \<longleftrightarrow>
     (case r of Inr i \<Rightarrow> unat i \<in> I \<and> syms ! unat i = symbol
      | Inl e \<Rightarrow> e = XH_ERRNO_NOTFND \<and> (\<forall>i\<in>I. syms ! i \<noteq> symbol))"

text \<open>The symbol table holds the names \<open>syms\<close>.\<close>

definition names_ok :: "world \<Rightarrow> xh_elf \<Rightarrow> string list \<Rightarrow> bool" where
  "names_ok w self syms \<longleftrightarrow> length syms \<le> 2 ^ 32 \<and>
     (\<forall>i < length syms. \<exists>p. symbol_name w self (of_nat i) = Inr p \<and> cstr_at w p (syms ! i))"

lemma name_test:
  assumes "names_ok w self syms" "i < length syms" "CHR 0x00 \<notin> set symbol"
  obtains p where "symbol_name w self (of_nat i) = Inr p"
    and "strcmp_eq w symbol p = Inr (symbol = syms ! i)"
  using assms strcmp_eq_cstr_at by (auto simp: names_ok_def)

lemma unat_index:
  assumes "names_ok w self syms" "i < length syms"
  shows "unat (of_nat i :: u32) = i"
  using assms by (simp add: names_ok_def unat_of_nat take_bit_nat_eq_self)

lemma mod_less_word: "n \<noteq> 0 \<Longrightarrow> m mod n < n" for n :: u32
proof -
  assume "n \<noteq> 0"
  then have "unat n \<noteq> 0" by (simp add: unat_eq_0)
  then have "unat m mod unat n < unat n" by simp
  then show "m mod n < n" by (simp only: word_less_nat_alt unat_mod)
qed

section \<open>The System V table\<close>

text \<open>The chain that starts at index \<open>i\<close> passes through the indexes \<open>is\<close> and ends at 0.\<close>

fun chain_path :: "world \<Rightarrow> xh_elf \<Rightarrow> u32 \<Rightarrow> nat list \<Rightarrow> bool" where
  "chain_path w self i [] = (i = 0)"
| "chain_path w self i (k # ks) =
     (i \<noteq> 0 \<and> i = of_nat k \<and> (\<exists>j. chain_at w self i = Inr j \<and> chain_path w self j ks))"

definition sysv_ok :: "world \<Rightarrow> xh_elf \<Rightarrow> string list \<Rightarrow> bool" where
  "sysv_ok w self syms \<longleftrightarrow> names_ok w self syms \<and> bucket_cnt self \<noteq> 0 \<and>
     (\<forall>b < bucket_cnt self. \<exists>i ks. bucket_at w self b = Inr i \<and> chain_path w self i ks \<and>
        set ks \<subseteq> {0<..<length syms} \<and> distinct ks \<and>
        (\<forall>k \<in> {0<..<length syms}. xh_elf_hash (syms ! k) mod bucket_cnt self = b \<longrightarrow> k \<in> set ks))"

lemma hash_lookup_path:
  assumes "names_ok w self syms" and "CHR 0x00 \<notin> set symbol"
  shows "chain_path w self i ks \<Longrightarrow> set ks \<subseteq> {0<..<length syms} \<Longrightarrow>
    \<exists>r. hash_lookup_loop (Suc (length ks)) w self symbol i = Inr r \<and> finds syms (set ks) symbol r"
proof (induction ks arbitrary: i)
  case Nil
  then show ?case by (simp add: finds_def)
next
  case (Cons k ks)
  then have k: "k < length syms" and i: "i \<noteq> 0" "i = of_nat k" by auto
  obtain p where p: "symbol_name w self i = Inr p" "strcmp_eq w symbol p = Inr (symbol = syms ! k)"
    using name_test [OF assms(1) k assms(2)] i(2) by metis
  obtain j where j: "chain_at w self i = Inr j" "chain_path w self j ks"
    using Cons.prems(1) by auto
  obtain r where r: "hash_lookup_loop (Suc (length ks)) w self symbol j = Inr r"
    "finds syms (set ks) symbol r"
    using Cons.IH [OF j(2)] Cons.prems(2) by auto
  show ?case
  proof (cases "symbol = syms ! k")
    case True
    then show ?thesis
      using i p unat_index [OF assms(1) k] by (simp add: finds_def)
  next
    case False
    then have "hash_lookup_loop (Suc (length (k # ks))) w self symbol i = Inr r"
      using i p j r(1) by (simp del: hash_lookup_loop.simps add: hash_lookup_loop.simps(2) [of "Suc (length ks)"])
    then show ?thesis
      using r(2) False by (auto simp: finds_def split: sum.splits)
  qed
qed

lemma hash_lookup_finds:
  assumes "sysv_ok w self syms" and "CHR 0x00 \<notin> set symbol"
  shows "\<exists>r. xh_elf_hash_lookup w self symbol = Inr r \<and> finds syms {0<..<length syms} symbol r"
proof -
  let ?b = "xh_elf_hash symbol mod bucket_cnt self"
  have ok: "names_ok w self syms" and cnt: "bucket_cnt self \<noteq> 0"
    using assms(1) by (auto simp: sysv_ok_def)
  have "?b < bucket_cnt self"
    by (rule mod_less_word [OF cnt])
  then obtain i ks where i: "bucket_at w self ?b = Inr i" and path: "chain_path w self i ks"
    and ks: "set ks \<subseteq> {0<..<length syms}"
    and all: "\<forall>k \<in> {0<..<length syms}. xh_elf_hash (syms ! k) mod bucket_cnt self = ?b \<longrightarrow> k \<in> set ks"
    using assms(1) unfolding sysv_ok_def by blast
  obtain r where r: "hash_lookup_loop (Suc (length ks)) w self symbol i = Inr r"
    "finds syms (set ks) symbol r"
    using hash_lookup_path [OF ok assms(2) path ks] by blast
  have "hash_lookup_loop index_fuel w self symbol i = Inr r"
    using lookup_ends(1) [of "Suc (length ks)" w self symbol i] r(1) by simp
  then have "xh_elf_hash_lookup w self symbol = Inr r"
    by (simp add: xh_elf_hash_lookup_def Let_def mod32_def cnt i)
  moreover have "finds syms {0<..<length syms} symbol r"
    using r(2) ks all by (auto simp: finds_def split: sum.splits)
  ultimately show ?thesis by blast
qed

section \<open>The GNU table\<close>

text \<open>
  The symbols from \<open>symoffset\<close> on are sorted by bucket. A bucket holds the first index of its
  symbols, or an index below \<open>symoffset\<close> if it has none; the chain holds the hashes, their lowest
  bit set at the last symbol of a bucket; the Bloom filter has the two bits of every symbol.
\<close>

definition gnu_hash_of :: "string list \<Rightarrow> nat \<Rightarrow> u32" where
  "gnu_hash_of syms i = xh_elf_gnu_hash (syms ! i)"

definition gnu_bucket :: "xh_elf \<Rightarrow> string list \<Rightarrow> nat \<Rightarrow> u32" where
  "gnu_bucket self syms i = gnu_hash_of syms i mod bucket_cnt self"

definition gnu_defined :: "xh_elf \<Rightarrow> string list \<Rightarrow> nat set" where
  "gnu_defined self syms = {unat (symoffset self)..<length syms}"

definition gnu_chain_ok :: "world \<Rightarrow> xh_elf \<Rightarrow> string list \<Rightarrow> bool" where
  "gnu_chain_ok w self syms \<longleftrightarrow>
     (\<forall>i \<in> gnu_defined self syms. \<forall>j \<in> gnu_defined self syms.
        i \<le> j \<longrightarrow> gnu_bucket self syms i \<le> gnu_bucket self syms j) \<and>
     (\<forall>i \<in> gnu_defined self syms. \<exists>c. chain_at w self (of_nat i - symoffset self) = Inr c \<and>
        c OR 1 = gnu_hash_of syms i OR 1 \<and>
        (c AND 1 \<noteq> 0 \<longleftrightarrow> Suc i = length syms \<or> gnu_bucket self syms (Suc i) \<noteq> gnu_bucket self syms i))"

definition gnu_buckets_ok :: "world \<Rightarrow> xh_elf \<Rightarrow> string list \<Rightarrow> bool" where
  "gnu_buckets_ok w self syms \<longleftrightarrow>
     (\<forall>b < bucket_cnt self. \<exists>f. bucket_at w self b = Inr f \<and>
        (if \<exists>i \<in> gnu_defined self syms. gnu_bucket self syms i = b
         then unat f \<in> gnu_defined self syms \<and> gnu_bucket self syms (unat f) = b \<and>
           (\<forall>i \<in> gnu_defined self syms. gnu_bucket self syms i = b \<longrightarrow> unat f \<le> i)
         else f < symoffset self))"

definition gnu_bloom_ok :: "world \<Rightarrow> xh_elf \<Rightarrow> string list \<Rightarrow> bool" where
  "gnu_bloom_ok w self syms \<longleftrightarrow>
     (\<forall>k < bloom_sz self. \<exists>word. bloom_at w self k = Inr word \<and>
        (\<forall>i \<in> gnu_defined self syms. gnu_hash_of syms i div 64 mod bloom_sz self = k \<longrightarrow>
          bit word (unat (gnu_hash_of syms i mod 64)) \<and>
          bit word (unat (drop_bit (unat (bloom_shift self)) (gnu_hash_of syms i) mod 64))))"

definition gnu_ok :: "world \<Rightarrow> xh_elf \<Rightarrow> string list \<Rightarrow> bool" where
  "gnu_ok w self syms \<longleftrightarrow> names_ok w self syms \<and> unat (symoffset self) \<le> length syms \<and>
     bucket_cnt self \<noteq> 0 \<and> bloom_sz self \<noteq> 0 \<and> bloom_shift self < 32 \<and>
     gnu_chain_ok w self syms \<and> gnu_buckets_ok w self syms \<and> gnu_bloom_ok w self syms"

lemma gnu_loop_finds:
  assumes ok: "names_ok w self syms" "gnu_chain_ok w self syms" and sym: "CHR 0x00 \<notin> set symbol"
  shows "i \<in> gnu_defined self syms \<Longrightarrow>
    \<exists>n r. gnu_lookup_loop n w self (xh_elf_gnu_hash symbol) symbol (of_nat i) = Inr r \<and>
      finds syms {j \<in> gnu_defined self syms. i \<le> j \<and> gnu_bucket self syms j = gnu_bucket self syms i}
        symbol r"
proof (induction "length syms - i" arbitrary: i rule: less_induct)
  case less
  let ?I = "{j \<in> gnu_defined self syms. i \<le> j \<and> gnu_bucket self syms j = gnu_bucket self syms i}"
  let ?hash = "xh_elf_gnu_hash symbol"
  have i: "i < length syms" using less.prems by (simp add: gnu_defined_def)
  obtain p where p: "symbol_name w self (of_nat i) = Inr p" "strcmp_eq w symbol p = Inr (symbol = syms ! i)"
    using name_test [OF ok(1) i sym] by metis
  obtain c where c: "chain_at w self (of_nat i - symoffset self) = Inr c"
    and hash: "c OR 1 = gnu_hash_of syms i OR 1"
    and last: "c AND 1 \<noteq> 0 \<longleftrightarrow> Suc i = length syms \<or> gnu_bucket self syms (Suc i) \<noteq> gnu_bucket self syms i"
    using ok(2) less.prems unfolding gnu_chain_ok_def by blast
  have mono: "gnu_bucket self syms i \<le> gnu_bucket self syms j"
    if "i \<in> gnu_defined self syms" "j \<in> gnu_defined self syms" "i \<le> j" for i j
    using ok(2) that unfolding gnu_chain_ok_def by blast
  have test: "(if ?hash OR 1 = c OR 1 then strcmp_eq w symbol p else Inr False) = Inr (symbol = syms ! i)"
    using p(2) hash by (auto simp: gnu_hash_of_def)
  have loop: "gnu_lookup_loop (Suc n) w self ?hash symbol (of_nat i) =
      (if symbol = syms ! i then Inr (Inr (of_nat i))
       else if c AND 1 \<noteq> 0 then Inr (Inl XH_ERRNO_NOTFND)
       else gnu_lookup_loop n w self ?hash symbol (of_nat (Suc i)))" for n
    by (simp only: gnu_lookup_loop.simps p(1) c seqE_simps test of_nat_Suc add.commute)
  consider (hit) "symbol = syms ! i" | (stop) "symbol \<noteq> syms ! i" "c AND 1 \<noteq> 0"
    | (next_one) "symbol \<noteq> syms ! i" "c AND 1 = 0" by blast
  then show ?case
  proof cases
    case hit
    then have "gnu_lookup_loop (Suc 0) w self ?hash symbol (of_nat i) = Inr (Inr (of_nat i))"
      using loop by simp
    moreover have "finds syms ?I symbol (Inr (of_nat i))"
      using hit less.prems unat_index [OF ok(1) i] by (simp add: finds_def)
    ultimately show ?thesis by blast
  next
    case stop
    then have "gnu_lookup_loop (Suc 0) w self ?hash symbol (of_nat i) = Inr (Inl XH_ERRNO_NOTFND)"
      using loop by simp
    moreover have "?I \<subseteq> {i}"
    proof
      fix j assume j: "j \<in> ?I"
      show "j \<in> {i}"
      proof (rule ccontr)
        assume "j \<notin> {i}"
        then have "Suc i \<le> j" "Suc i < length syms" "j < length syms"
          using j by (auto simp: gnu_defined_def)
        then have "Suc i \<in> gnu_defined self syms" "gnu_bucket self syms (Suc i) \<noteq> gnu_bucket self syms i"
          using less.prems last stop(2) by (auto simp: gnu_defined_def)
        moreover have "gnu_bucket self syms i \<le> gnu_bucket self syms (Suc i)"
          by (rule mono) (use less.prems calculation(1) in simp_all)
        moreover have "gnu_bucket self syms (Suc i) \<le> gnu_bucket self syms j"
          by (rule mono) (use calculation(1) j \<open>Suc i \<le> j\<close> in simp_all)
        ultimately show False using j by auto
      qed
    qed
    then have "finds syms ?I symbol (Inl XH_ERRNO_NOTFND)"
      using stop(1) by (auto simp: finds_def)
    ultimately show ?thesis by blast
  next
    case next_one
    then have nx: "Suc i < length syms" "gnu_bucket self syms (Suc i) = gnu_bucket self syms i"
      using last i by auto
    then have "Suc i \<in> gnu_defined self syms" using less.prems by (simp add: gnu_defined_def)
    moreover have "length syms - Suc i < length syms - i" using i by linarith
    ultimately obtain n r where r: "gnu_lookup_loop n w self ?hash symbol (of_nat (Suc i)) = Inr r"
      "finds syms {j \<in> gnu_defined self syms. Suc i \<le> j \<and> gnu_bucket self syms j = gnu_bucket self syms i}
        symbol r"
      using less.hyps [of "Suc i"] unfolding nx(2) by blast
    have "gnu_lookup_loop (Suc n) w self ?hash symbol (of_nat i) = Inr r"
      using loop [of n] next_one r(1) by (simp only: if_False simp_thms)
    moreover have "finds syms ?I symbol r"
      using r(2) next_one(1) by (auto simp: finds_def not_less_eq_eq [symmetric] le_less split: sum.splits)
    ultimately show ?thesis by blast
  qed
qed

lemma bloom_mask:
  assumes "bit word a" and "bit word b"
  shows "word AND (push_bit a 1 OR push_bit b 1) = (push_bit a 1 OR push_bit b 1 :: u64)"
proof (rule bit_eqI)
  fix n assume "possible_bit TYPE(u64) n"
  then show "bit (word AND (push_bit a 1 OR push_bit b 1)) n = bit (push_bit a 1 OR push_bit b 1 :: u64) n"
    using assms by (auto simp: bit_simps)
qed

lemma gnu_def_finds:
  assumes ok: "gnu_ok w self syms" and sym: "CHR 0x00 \<notin> set symbol"
  shows "\<exists>r. xh_elf_gnu_hash_lookup_def w self symbol = Inr r \<and>
    finds syms (gnu_defined self syms) symbol r"
proof -
  let ?h = "xh_elf_gnu_hash symbol"
  let ?b = "?h mod bucket_cnt self"
  let ?k = "?h div 64 mod bloom_sz self"
  let ?mask = "push_bit (unat (?h mod 64)) 1
    OR push_bit (unat (drop_bit (unat (bloom_shift self)) ?h mod 64)) (1 :: u64)"
  have nz: "bucket_cnt self \<noteq> 0" "bloom_sz self \<noteq> 0" and shift: "bloom_shift self < 32"
    and names: "names_ok w self syms" and chain: "gnu_chain_ok w self syms"
    and buckets: "gnu_buckets_ok w self syms" and blm: "gnu_bloom_ok w self syms"
    using ok by (auto simp: gnu_ok_def)
  obtain word where word: "bloom_at w self ?k = Inr word"
    and imp: "\<forall>i \<in> gnu_defined self syms. gnu_hash_of syms i div 64 mod bloom_sz self = ?k \<longrightarrow>
      bit word (unat (gnu_hash_of syms i mod 64)) \<and>
      bit word (unat (drop_bit (unat (bloom_shift self)) (gnu_hash_of syms i) mod 64))"
    using blm mod_less_word [OF nz(2), of "?h div 64"] unfolding gnu_bloom_ok_def by blast
  have bits: "word AND ?mask = ?mask" if "i \<in> gnu_defined self syms" "gnu_hash_of syms i = ?h" for i
    using bspec [OF imp that(1)] unfolding that(2) by (intro bloom_mask) simp_all
  obtain f where f: "bucket_at w self ?b = Inr f"
    and first: "if \<exists>i \<in> gnu_defined self syms. gnu_bucket self syms i = ?b
         then unat f \<in> gnu_defined self syms \<and> gnu_bucket self syms (unat f) = ?b \<and>
           (\<forall>i \<in> gnu_defined self syms. gnu_bucket self syms i = ?b \<longrightarrow> unat f \<le> i)
         else f < symoffset self"
    using buckets mod_less_word [OF nz(1), of ?h] unfolding gnu_buckets_ok_def by blast
  have unfold_def: "xh_elf_gnu_hash_lookup_def w self symbol =
      (if word AND ?mask \<noteq> ?mask then Inr (Inl XH_ERRNO_NOTFND)
       else if f < symoffset self then Inr (Inl XH_ERRNO_NOTFND)
       else gnu_lookup_loop index_fuel w self ?h symbol f)"
    using shift by (simp add: xh_elf_gnu_hash_lookup_def_def Let_def mod32_def nz word f not_le [symmetric])
  have none: "finds syms (gnu_defined self syms) symbol (Inl XH_ERRNO_NOTFND)"
    if "\<And>i. i \<in> gnu_defined self syms \<Longrightarrow> gnu_bucket self syms i = ?b \<Longrightarrow> syms ! i \<noteq> symbol"
    using that by (auto simp: finds_def gnu_bucket_def gnu_hash_of_def)
  show ?thesis
  proof (cases "word AND ?mask = ?mask")
    case False
    then have "finds syms (gnu_defined self syms) symbol (Inl XH_ERRNO_NOTFND)"
      using bits by (intro none) (auto simp: gnu_hash_of_def)
    then show ?thesis using False unfold_def by auto
  next
    case True
    show ?thesis
    proof (cases "f < symoffset self")
      case True
      then have "unat f \<notin> gnu_defined self syms"
        by (simp add: gnu_defined_def word_less_nat_alt)
      then have "finds syms (gnu_defined self syms) symbol (Inl XH_ERRNO_NOTFND)"
        using first by (intro none) (auto split: if_splits)
      then show ?thesis using True \<open>word AND ?mask = ?mask\<close> unfold_def by auto
    next
      case False
      then have uf: "unat f \<in> gnu_defined self syms" "gnu_bucket self syms (unat f) = ?b"
        and least: "\<forall>i \<in> gnu_defined self syms. gnu_bucket self syms i = ?b \<longrightarrow> unat f \<le> i"
        using first by (auto split: if_splits)
      obtain n r where r: "gnu_lookup_loop n w self ?h symbol f = Inr r"
        "finds syms {j \<in> gnu_defined self syms. unat f \<le> j \<and> gnu_bucket self syms j = ?b} symbol r"
        using gnu_loop_finds [OF names chain sym uf(1)] uf(2) by auto
      have "xh_elf_gnu_hash_lookup_def w self symbol = Inr r"
        using unfold_def \<open>word AND ?mask = ?mask\<close> False lookup_ends(2) [of n w self ?h symbol f] r(1)
        by simp
      moreover have "finds syms (gnu_defined self syms) symbol r"
      proof (cases r)
        case (Inl e)
        then have "e = XH_ERRNO_NOTFND" using r(2) by (simp add: finds_def)
        moreover have "finds syms (gnu_defined self syms) symbol (Inl XH_ERRNO_NOTFND)"
          using r(2) Inl least by (intro none) (simp add: finds_def)
        ultimately show ?thesis using Inl by simp
      next
        case (Inr i)
        then show ?thesis using r(2) by (simp add: finds_def)
      qed
      ultimately show ?thesis by blast
    qed
  qed
qed

lemma first_match_Inr:
  assumes "\<And>x. x \<in> set xs \<Longrightarrow> test x = Inr (P x)"
  shows "first_match test xs = Inr (find P xs)"
  using assms by (induction xs) auto

lemma gnu_undef_finds:
  assumes ok: "gnu_ok w self syms" and sym: "CHR 0x00 \<notin> set symbol"
  shows "\<exists>r. xh_elf_gnu_hash_lookup_undef w self symbol = Inr r \<and>
    finds syms {..<unat (symoffset self)} symbol r"
proof -
  let ?is = "map of_nat [0..<unat (symoffset self)] :: u32 list"
  have names: "names_ok w self syms" and so: "unat (symoffset self) \<le> length syms"
    using ok by (auto simp: gnu_ok_def)
  have "first_match (\<lambda>i. seqE (symbol_name w self i) (\<lambda>symname. strcmp_eq w symbol symname)) ?is
      = Inr (find (\<lambda>i. symbol = syms ! unat i) ?is)"
  proof (rule first_match_Inr)
    fix i assume "i \<in> set ?is"
    then obtain k where k: "i = of_nat k" "k < length syms" using so by auto
    then show "seqE (symbol_name w self i) (\<lambda>symname. strcmp_eq w symbol symname) = Inr (symbol = syms ! unat i)"
      using name_test [OF names k(2) sym] unat_index [OF names k(2)] by (metis seqE_simps(2))
  qed
  moreover have "finds syms {..<unat (symoffset self)} symbol
      (case find (\<lambda>i. symbol = syms ! unat i) ?is of Some i \<Rightarrow> Inr i | None \<Rightarrow> Inl XH_ERRNO_NOTFND)"
    using so unat_index [OF names]
    by (auto simp: finds_def find_None_iff find_Some_iff split: option.splits)
  ultimately show ?thesis
    by (auto simp: xh_elf_gnu_hash_lookup_undef_def split: option.splits)
qed

lemma gnu_lookup_finds:
  assumes ok: "gnu_ok w self syms" and sym: "CHR 0x00 \<notin> set symbol"
  shows "\<exists>r. xh_elf_gnu_hash_lookup w self symbol = Inr r \<and> finds syms {..<length syms} symbol r"
proof -
  obtain r1 r2 where r1: "xh_elf_gnu_hash_lookup_def w self symbol = Inr r1"
      "finds syms (gnu_defined self syms) symbol r1"
    and r2: "xh_elf_gnu_hash_lookup_undef w self symbol = Inr r2"
      "finds syms {..<unat (symoffset self)} symbol r2"
    using gnu_def_finds [OF ok sym] gnu_undef_finds [OF ok sym] by blast
  have "{..<length syms} = {..<unat (symoffset self)} \<union> gnu_defined self syms"
    using ok by (auto simp: gnu_ok_def gnu_defined_def)
  then show ?thesis
    using r1 r2
    by (cases r1; cases r2) (auto simp: xh_elf_gnu_hash_lookup_def_def xh_elf_gnu_hash_lookup_def finds_def)
qed

section \<open>Lookup by name\<close>

text \<open>
  Tables for the names \<open>syms\<close>, and the indexes a lookup can return: a System V chain never
  reaches index 0, the GNU lookup scans the undefined symbols from index 0 on.
\<close>

definition tables_ok :: "world \<Rightarrow> xh_elf \<Rightarrow> string list \<Rightarrow> bool" where
  "tables_ok w self syms \<longleftrightarrow>
     (if is_use_gnu_hash self then gnu_ok w self syms else sysv_ok w self syms)"

definition lookup_indexes :: "xh_elf \<Rightarrow> string list \<Rightarrow> nat set" where
  "lookup_indexes self syms = (if is_use_gnu_hash self then {..<length syms} else {0<..<length syms})"

lemma find_symidx_finds:
  assumes "tables_ok w self syms" and "CHR 0x00 \<notin> set symbol"
  shows "\<exists>r. xh_elf_find_symidx_by_name w self symbol = Inr r \<and>
    finds syms (lookup_indexes self syms) symbol r"
  using assms gnu_lookup_finds hash_lookup_finds
  by (auto simp: tables_ok_def lookup_indexes_def xh_elf_find_symidx_by_name_def)

text \<open>
  Claim C7. Over well-formed tables of either kind, looking a name up returns the index of a
  symbol with exactly that name if the table has one, and \<open>XH_ERRNO_NOTFND\<close> otherwise. It never
  faults, never runs forever, and neither the Bloom filter nor a hash collision can hide a
  symbol or confuse two of them.
\<close>

theorem find_symidx_by_name_correct:
  assumes "tables_ok w self syms" and "CHR 0x00 \<notin> set symbol"
  shows "(\<exists>i. xh_elf_find_symidx_by_name w self symbol = Inr (Inr i) \<and>
        unat i \<in> lookup_indexes self syms \<and> syms ! unat i = symbol) \<or>
    (xh_elf_find_symidx_by_name w self symbol = Inr (Inl XH_ERRNO_NOTFND) \<and>
        (\<forall>i \<in> lookup_indexes self syms. syms ! i \<noteq> symbol))"
proof -
  obtain r where "xh_elf_find_symidx_by_name w self symbol = Inr r"
    and "finds syms (lookup_indexes self syms) symbol r"
    using find_symidx_finds [OF assms] by blast
  then show ?thesis by (cases r) (auto simp: finds_def)
qed

definition example_syms :: "string list" where
  "example_syms = ['''', ''f'', ''g'']"

lemma example_hashes: "xh_elf_gnu_hash ''g'' = 0x2b60c" "xh_elf_gnu_hash ''f'' = 0x2b60b"
  by (simp_all add: xh_elf_gnu_hash_def byte_of_def)

lemma less_3_cases: "i < 3 \<Longrightarrow> i = 0 \<or> i = 1 \<or> i = (2 :: nat)"
  by auto

lemma example_names_ok: "names_ok example_elf example_self example_syms"
proof -
  have "\<exists>p. symbol_name example_elf example_self (of_nat i) = Inr p \<and>
      cstr_at example_elf p (example_syms ! i)" if "i < 3" for i
    using less_3_cases [OF that]
    by (auto simp: symbol_name_def example_loads example_self_def xh_elf_zero_def example_syms_def
        byte_of_def)
  then show ?thesis by (simp add: names_ok_def example_syms_def)
qed

lemma example_fields:
  "symoffset example_self = 2" "bucket_cnt example_self = 1" "bloom_sz example_self = 1"
  "bloom_shift example_self = 0" "is_use_gnu_hash example_self"
  by (simp_all add: example_self_def xh_elf_zero_def)

lemma example_defined: "gnu_defined example_self example_syms = {2}"
  by (auto simp: gnu_defined_def example_fields example_syms_def)

lemma example_g: "gnu_hash_of example_syms 2 = 0x2b60c"
  by (simp add: gnu_hash_of_def example_syms_def example_hashes)

lemma example_tables_ok: "tables_ok example_elf example_self example_syms"
proof -
  have reads: "chain_at example_elf example_self 0 = Inr 0x2b60d"
    "bucket_at example_elf example_self 0 = Inr 2" "bloom_at example_elf example_self 0 = Inr 0x1000"
    by (simp_all add: chain_at_def bucket_at_def bloom_at_def example_loads example_self_def xh_elf_zero_def)
  have "gnu_chain_ok example_elf example_self example_syms"
    by (simp add: gnu_chain_ok_def example_defined example_fields reads example_g) (simp add: example_syms_def)
  moreover have "gnu_buckets_ok example_elf example_self example_syms"
    using reads by (simp add: gnu_buckets_ok_def example_defined example_fields gnu_bucket_def)
  moreover have "gnu_bloom_ok example_elf example_self example_syms"
    using reads by (simp add: gnu_bloom_ok_def example_defined example_fields example_g)
  moreover have "names_ok example_elf example_self example_syms" by (rule example_names_ok)
  ultimately show ?thesis
    by (simp add: tables_ok_def gnu_ok_def example_fields) (simp add: example_syms_def)
qed

theorem find_symidx_by_name_correct_witness:
  "(\<exists>i. xh_elf_find_symidx_by_name example_elf example_self ''f'' = Inr (Inr i) \<and>
     unat i \<in> lookup_indexes example_self example_syms \<and> example_syms ! unat i = ''f'')"
proof -
  have "1 \<in> lookup_indexes example_self example_syms" "example_syms ! 1 = ''f''"
    by (auto simp: lookup_indexes_def example_fields example_syms_def)
  then show ?thesis
    using find_symidx_by_name_correct [OF example_tables_ok, of "''f''"] by auto
qed

text \<open>The same image with a hash table that declares no bucket.\<close>

definition zero_bucket_elf :: world where
  "zero_bucket_elf = \<lparr>mbytes = word_image ((0x12a0, 0x200000000) # example_words),
     mprot = (\<lambda>a. if 0x1000 \<le> a \<and> a < 0x2000 then PROT_READ else 0)\<rparr>"

lemma zero_bucket_bytes: "mbytes zero_bucket_elf = word_image ((0x12a0, 0x200000000) # example_words)"
  by (simp add: zero_bucket_elf_def)

lemma zero_bucket_readable: "readable zero_bucket_elf a \<longleftrightarrow> 0x1000 \<le> a \<and> a < 0x2000"
  by (simp add: zero_bucket_elf_def readable_def prot_defs)

lemmas zero_bucket_loads = ld_word [OF zero_bucket_bytes] zero_bucket_readable all_readable_unfold
  word_at_def example_words_def

definition zero_bucket_self :: xh_elf where
  "zero_bucket_self = example_self\<lparr>bucket_cnt := 0, chain := 0x12b8\<rparr>"

text \<open>
  Claim C32. A count of buckets of zero in the image is not checked: initialisation accepts a
  library whose hash table declares no bucket, and the lookup of a symbol that passes the Bloom
  filter then computes a remainder by zero, which no error return and no SIGSEGV guard covers.
\<close>

theorem zero_buckets_accepted:
  "xh_elf_init zero_bucket_elf s 0x1000 (Some ''libx.so'') = Inr (0, zero_bucket_self) \<and>
   xh_elf_find_symidx_by_name zero_bucket_elf zero_bucket_self ''g'' = Inl Undef"
proof
  show "xh_elf_init zero_bucket_elf s 0x1000 (Some ''libx.so'') = Inr (0, zero_bucket_self)"
    by (simp add: xh_elf_init_def zero_bucket_self_def example_self_def xh_elf_zero_def Let_def
        layout_defs xh_elf_get_first_segment_by_type_offset_def
        xh_elf_get_first_segment_by_type_def entries_def upt_rec zero_bucket_loads PT_LOAD_def
        PT_DYNAMIC_def dyn_step_def dt_defs dyn_ptr_def dyn_num_def dyn_hash_def
        dyn_gnu_hash_def check_relandroid_def xh_elf_check_def)
  have "bloom_at zero_bucket_elf zero_bucket_self 0 = Inr 0x1000"
    by (simp add: bloom_at_def zero_bucket_loads zero_bucket_self_def example_self_def xh_elf_zero_def)
  then show "xh_elf_find_symidx_by_name zero_bucket_elf zero_bucket_self ''g'' = Inl Undef"
    by (simp add: xh_elf_find_symidx_by_name_def xh_elf_gnu_hash_lookup_def
        xh_elf_gnu_hash_lookup_def_def Let_def example_hashes mod32_def zero_bucket_self_def
        example_fields)
qed
end
