(* ===== verification/Maps.thy ===== *)
theory Maps
  imports Prelude
begin

text \<open>
  The text of \<^verbatim>\<open>/proc/self/maps\<close> as the code reads it: lines with \<open>fgets\<close> into a buffer of 512
  bytes, fields with \<open>sscanf\<close>. A line the kernel writes for a mapping is read back to that mapping.
\<close>

section \<open>Characters\<close>

definition isspace :: "char \<Rightarrow> bool" where
  "isspace c \<longleftrightarrow> c = CHR '' '' \<or> (9 \<le> (of_char c :: nat) \<and> (of_char c :: nat) \<le> 13)"

definition isdigit :: "char \<Rightarrow> bool" where
  "isdigit c \<longleftrightarrow> 48 \<le> (of_char c :: nat) \<and> (of_char c :: nat) \<le> 57"

definition isxdigit :: "char \<Rightarrow> bool" where
  "isxdigit c \<longleftrightarrow> isdigit c \<or> (65 \<le> (of_char c :: nat) \<and> (of_char c :: nat) \<le> 70) \<or>
     (97 \<le> (of_char c :: nat) \<and> (of_char c :: nat) \<le> 102)"

definition hexval :: "char \<Rightarrow> nat" where
  "hexval c = (let n = of_char c in if n \<le> 57 then n - 48 else if n \<le> 70 then n - 55 else n - 87)"

section \<open>fgets\<close>

text \<open>\<open>fgets(line, 512, fp)\<close>: up to 511 characters, up to and with the first newline.\<close>

definition fgets :: "string \<Rightarrow> string \<times> string" where
  "fgets s =
     (let head = takeWhile (\<lambda>c. c \<noteq> CHR 0x0A) s;
          n = min 511 (Suc (length head))
      in (take n s, drop n s))"

text \<open>The lines that successive calls return, until the end of the file.\<close>

function fgets_lines :: "string \<Rightarrow> string list" where
  "fgets_lines s = (if s = [] then [] else let (line, rest) = fgets s in line # fgets_lines rest)"
  by auto
termination
  by (relation "measure length") (auto simp: fgets_def Let_def)

declare fgets_lines.simps [simp del]

section \<open>sscanf\<close>

text \<open>The directives the two formats use, each from a string to the rest of it.\<close>

definition skip_ws :: "string \<Rightarrow> string" where
  "skip_ws s = dropWhile isspace s"

definition scan_lit :: "char \<Rightarrow> string \<Rightarrow> string option" where
  "scan_lit c s = (case s of d # s' \<Rightarrow> if d = c then Some s' else None | [] \<Rightarrow> None)"

text \<open>An optional sign: whether it is a minus, and the rest.\<close>

definition scan_sign :: "string \<Rightarrow> bool \<times> string" where
  "scan_sign s = (case s of c # s' \<Rightarrow>
      if c = CHR ''-'' then (True, s') else if c = CHR ''+'' then (False, s') else (False, s)
    | [] \<Rightarrow> (False, s))"

definition skip_0x :: "string \<Rightarrow> string" where
  "skip_0x s = (case s of a # x # d # s' \<Rightarrow>
      if a = CHR ''0'' \<and> (x = CHR ''x'' \<or> x = CHR ''X'') \<and> isxdigit d then d # s' else s
    | _ \<Rightarrow> s)"

definition hex_value :: "string \<Rightarrow> nat" where
  "hex_value ds = foldl (\<lambda>v d. 16 * v + hexval d) 0 ds"

text \<open>\<^verbatim>\<open>%lx\<close>: a number too large becomes the largest, as with \<open>strtoul\<close>.\<close>

definition scan_hex :: "string \<Rightarrow> (u64 \<times> string) option" where
  "scan_hex s =
     (let (neg, s) = scan_sign (skip_ws s); s = skip_0x s; ds = takeWhile isxdigit s;
          v = hex_value ds
      in if ds = [] then None
         else Some (if 2 ^ 64 \<le> v then - 1 else if neg then - of_nat v else of_nat v,
                    dropWhile isxdigit s))"

text \<open>\<^verbatim>\<open>%*d\<close>.\<close>

definition scan_dec :: "string \<Rightarrow> string option" where
  "scan_dec s =
     (let (neg, s) = scan_sign (skip_ws s)
      in if takeWhile isdigit s = [] then None else Some (dropWhile isdigit s))"

text \<open>\<^verbatim>\<open>%4s\<close>.\<close>

definition scan_str4 :: "string \<Rightarrow> (string \<times> string) option" where
  "scan_str4 s =
     (let s = skip_ws s; w = take 4 (takeWhile (\<lambda>c. \<not> isspace c) s)
      in if w = [] then None else Some (w, drop (length w) s))"

text \<open>
  \<^verbatim>\<open>"%lx-%lx %4s "\<close> of \<open>xh_util_get_mem_protect\<close>: the three fields, if there are three.
\<close>

definition scan_prot_line :: "string \<Rightarrow> (u64 \<times> u64 \<times> string) option" where
  "scan_prot_line line =
     (case scan_hex line of None \<Rightarrow> None | Some (start, s) \<Rightarrow>
      case scan_lit (CHR ''-'') s of None \<Rightarrow> None | Some s \<Rightarrow>
      case scan_hex s of None \<Rightarrow> None | Some (end, s) \<Rightarrow>
      case scan_str4 s of None \<Rightarrow> None | Some (perm, s) \<Rightarrow> Some (start, end, perm))"

text \<open>
  \<^verbatim>\<open>"%lx-%*lx %4s %lx %*x:%*x %*d%n"\<close> of \<open>xh_core_refresh_impl\<close>: the three fields, if there are
  three, and the position, if the rest of the format matches too.
\<close>

definition scan_tail :: "string \<Rightarrow> string option" where
  "scan_tail s =
     (case scan_hex s of None \<Rightarrow> None | Some (major, s) \<Rightarrow>
      case scan_lit (CHR '':'') s of None \<Rightarrow> None | Some s \<Rightarrow>
      case scan_hex s of None \<Rightarrow> None | Some (minor, s) \<Rightarrow> scan_dec s)"

definition scan_refresh_line :: "string \<Rightarrow> (u64 \<times> string \<times> u64 \<times> nat option) option" where
  "scan_refresh_line line =
     (case scan_hex line of None \<Rightarrow> None | Some (base_addr, s) \<Rightarrow>
      case scan_lit (CHR ''-'') s of None \<Rightarrow> None | Some s \<Rightarrow>
      case scan_hex s of None \<Rightarrow> None | Some (end, s) \<Rightarrow>
      case scan_str4 s of None \<Rightarrow> None | Some (perm, s) \<Rightarrow>
      case scan_hex s of None \<Rightarrow> None | Some (offset, s) \<Rightarrow>
      Some (base_addr, perm, offset,
        map_option (\<lambda>rest. length line - length rest) (scan_tail s)))"

section \<open>What the kernel writes\<close>

text \<open>One mapping: \<open>v_pad\<close> spaces stand before the name, which may be empty.\<close>

record vma =
  v_start :: u64
  v_end :: u64
  v_perm :: string
  v_offset :: u64
  v_major :: nat
  v_minor :: nat
  v_inode :: nat
  v_pad :: nat
  v_name :: string

definition hexchar :: "nat \<Rightarrow> char" where
  "hexchar d = char_of (if d < 10 then d + 48 else d + 87)"

fun hex_of :: "nat \<Rightarrow> string" where
  "hex_of n = (if n < 16 then [hexchar n] else hex_of (n div 16) @ [hexchar (n mod 16)])"

fun dec_of :: "nat \<Rightarrow> string" where
  "dec_of n = (if n < 10 then [hexchar n] else dec_of (n div 10) @ [hexchar (n mod 10)])"

declare hex_of.simps [simp del] dec_of.simps [simp del]

definition padded :: "nat \<Rightarrow> string \<Rightarrow> string" where
  "padded k s = replicate (k - length s) (CHR ''0'') @ s"

definition vma_line :: "vma \<Rightarrow> string" where
  "vma_line v = padded 8 (hex_of (unat (v_start v))) @ ''-'' @ padded 8 (hex_of (unat (v_end v)))
     @ '' '' @ v_perm v @ '' '' @ padded 8 (hex_of (unat (v_offset v)))
     @ '' '' @ padded 2 (hex_of (v_major v)) @ '':'' @ padded 2 (hex_of (v_minor v))
     @ '' '' @ dec_of (v_inode v) @ replicate (v_pad v) (CHR '' '') @ v_name v @ [CHR 0x0A]"

definition vma_ok :: "vma \<Rightarrow> bool" where
  "vma_ok v \<longleftrightarrow> length (v_perm v) = 4 \<and> (\<forall>c\<in>set (v_perm v). \<not> isspace c) \<and>
     0 < v_pad v \<and> CHR 0x0A \<notin> set (v_name v) \<and>
     (\<forall>c cs. v_name v = c # cs \<longrightarrow> \<not> isspace c) \<and> length (vma_line v) \<le> 511"

section \<open>Numbers\<close>

lemma isxdigit_hexchar: "d < 16 \<Longrightarrow> isxdigit (hexchar d)"
  by (simp add: isxdigit_def isdigit_def hexchar_def)

lemma hexval_hexchar: "d < 16 \<Longrightarrow> hexval (hexchar d) = d"
  by (simp add: hexval_def hexchar_def Let_def)

lemma isdigit_hexchar: "d < 10 \<Longrightarrow> isdigit (hexchar d)"
  by (simp add: isdigit_def hexchar_def)

lemma hex_of_xdigits: "\<forall>c\<in>set (hex_of n). isxdigit c"
  by (induction n rule: hex_of.induct) (subst hex_of.simps, auto simp: isxdigit_hexchar)

lemma dec_of_digits: "\<forall>c\<in>set (dec_of n). isdigit c"
  by (induction n rule: dec_of.induct) (subst dec_of.simps, auto simp: isdigit_hexchar)

lemma hex_of_nonempty: "hex_of n \<noteq> []"
  by (subst hex_of.simps) simp

lemma dec_of_nonempty: "dec_of n \<noteq> []"
  by (subst dec_of.simps) simp

lemma hex_value_snoc: "hex_value (ds @ [d]) = 16 * hex_value ds + hexval d"
  by (simp add: hex_value_def)

lemma hex_value_hex_of: "hex_value (hex_of n) = n"
proof (induction n rule: hex_of.induct)
  case (1 n)
  show ?case
  proof (cases "n < 16")
    case True
    then have "hex_of n = [hexchar n]" by (subst hex_of.simps) simp
    then show ?thesis using True by (simp add: hex_value_def hexval_hexchar)
  next
    case False
    then have "hex_of n = hex_of (n div 16) @ [hexchar (n mod 16)]" by (subst hex_of.simps) simp
    then show ?thesis using 1 False by (simp add: hex_value_snoc hexval_hexchar)
  qed
qed

lemma hex_value_padded: "hex_value (replicate k (CHR ''0'') @ ds) = hex_value ds"
proof -
  have "foldl (\<lambda>v d. 16 * v + hexval d) 0 (replicate k (CHR ''0'')) = 0"
    by (induction k) (simp_all add: hexval_def Let_def)
  then show ?thesis by (simp add: hex_value_def)
qed

section \<open>Reading back what the kernel writes\<close>

lemma xdigit_plain:
  assumes "isxdigit c"
  shows "\<not> isspace c" "c \<noteq> CHR ''-''" "c \<noteq> CHR ''+''" "c \<noteq> CHR ''x''" "c \<noteq> CHR ''X''" "c \<noteq> CHR '':''"
  using assms by (auto simp: isxdigit_def isdigit_def isspace_def)

lemma digit_xdigit: "isdigit c \<Longrightarrow> isxdigit c"
  by (simp add: isxdigit_def)

text \<open>What may follow a number: nothing that a hexadecimal scan could take for a part of it.\<close>

definition ends_number :: "string \<Rightarrow> bool" where
  "ends_number rest \<longleftrightarrow>
     (\<forall>c cs. rest = c # cs \<longrightarrow> \<not> isxdigit c \<and> c \<noteq> CHR ''x'' \<and> c \<noteq> CHR ''X'')"

lemma ends_number_simps [simp]:
  "ends_number (CHR ''-'' # s)" "ends_number (CHR '' '' # s)" "ends_number (CHR '':'' # s)"
  by (simp_all add: ends_number_def isxdigit_def isdigit_def)

lemma takeWhile_all_append:
  "\<forall>c\<in>set ds. P c \<Longrightarrow> (\<forall>c cs. rest = c # cs \<longrightarrow> \<not> P c) \<Longrightarrow> takeWhile P (ds @ rest) = ds"
  "\<forall>c\<in>set ds. P c \<Longrightarrow> (\<forall>c cs. rest = c # cs \<longrightarrow> \<not> P c) \<Longrightarrow> dropWhile P (ds @ rest) = rest"
  by (cases rest; simp add: takeWhile_append2 dropWhile_append2)+

lemma scan_hex_digits:
  assumes ds: "ds \<noteq> []" "\<forall>c\<in>set ds. isxdigit c" and rest: "ends_number rest"
  shows "scan_hex (ds @ rest)
    = Some (if 2 ^ 64 \<le> hex_value ds then - 1 else of_nat (hex_value ds), rest)"
proof -
  obtain d ds' where d: "ds = d # ds'" using ds(1) by (cases ds) auto
  note dx = xdigit_plain [of d]
  have ws: "skip_ws (ds @ rest) = ds @ rest"
    using ds(2) dx by (simp add: skip_ws_def d)
  have sign: "scan_sign (ds @ rest) = (False, ds @ rest)"
    using ds(2) dx by (simp add: scan_sign_def d)
  have "skip_0x (ds @ rest) = ds @ rest"
  proof (cases ds')
    case Nil
    then show ?thesis
      using rest by (cases rest; cases "tl rest") (auto simp: skip_0x_def d ends_number_def)
  next
    case (Cons e es)
    then show ?thesis
      using ds(2) xdigit_plain [of e] by (cases "es @ rest") (auto simp: skip_0x_def d)
  qed
  moreover have "takeWhile isxdigit (ds @ rest) = ds" "dropWhile isxdigit (ds @ rest) = rest"
    using takeWhile_all_append [OF ds(2)] rest by (auto simp: ends_number_def)
  ultimately show ?thesis
    using ds(1) by (simp add: scan_hex_def ws sign Let_def)
qed

lemma scan_hex_space: "scan_hex (CHR '' '' # s) = scan_hex s"
  by (simp add: scan_hex_def skip_ws_def isspace_def)

lemma scan_hex_padded:
  assumes "n < 2 ^ 64" and "ends_number rest"
  shows "scan_hex (padded k (hex_of n) @ rest) = Some (of_nat n, rest)"
proof -
  have "\<forall>c\<in>set (padded k (hex_of n)). isxdigit c"
    using hex_of_xdigits [of n] by (auto simp: padded_def isxdigit_def isdigit_def)
  moreover have "padded k (hex_of n) \<noteq> []" by (simp add: padded_def hex_of_nonempty)
  moreover have "hex_value (padded k (hex_of n)) = n"
    by (simp add: padded_def hex_value_padded hex_value_hex_of)
  ultimately show ?thesis using scan_hex_digits [OF _ _ assms(2), of "padded k (hex_of n)"] assms(1) by simp
qed

lemma padded_xdigits: "\<forall>c\<in>set (padded k (hex_of n)). isxdigit c" "padded k (hex_of n) \<noteq> []"
  using hex_of_xdigits [of n]
  by (auto simp: padded_def isxdigit_def isdigit_def hex_of_nonempty)

lemma scan_dec_dec_of:
  assumes "\<forall>c cs. rest = c # cs \<longrightarrow> \<not> isdigit c"
  shows "scan_dec (CHR '' '' # dec_of n @ rest) = Some rest"
proof -
  obtain d ds where d: "dec_of n = d # ds" using dec_of_nonempty [of n] by (cases "dec_of n") auto
  have dig: "\<forall>c\<in>set (dec_of n). isdigit c" by (rule dec_of_digits)
  then have "\<not> isspace d" "d \<noteq> CHR ''-''" "d \<noteq> CHR ''+''"
    using xdigit_plain [OF digit_xdigit, of d] by (simp_all add: d)
  moreover have "isspace (CHR '' '')" by (simp add: isspace_def)
  ultimately have "skip_ws (CHR '' '' # dec_of n @ rest) = dec_of n @ rest"
    "scan_sign (dec_of n @ rest) = (False, dec_of n @ rest)"
    by (simp_all add: skip_ws_def scan_sign_def d)
  then show ?thesis
    using takeWhile_all_append [OF dig assms] dec_of_nonempty [of n] by (simp add: scan_dec_def)
qed

lemma scan_str4_perm:
  assumes "length p = 4" "\<forall>c\<in>set p. \<not> isspace c"
  shows "scan_str4 (CHR '' '' # p @ CHR '' '' # rest) = Some (p, CHR '' '' # rest)"
proof -
  have p: "p \<noteq> []" using assms(1) by auto
  then have "skip_ws (CHR '' '' # p @ CHR '' '' # rest) = p @ CHR '' '' # rest"
    using assms(2) by (cases p) (auto simp: skip_ws_def isspace_def)
  moreover have "takeWhile (\<lambda>c. \<not> isspace c) (p @ CHR '' '' # rest) = p"
    using takeWhile_all_append(1) [of p "\<lambda>c. \<not> isspace c" "CHR '' '' # rest"] assms(2)
    by (simp add: isspace_def)
  ultimately show ?thesis using assms(1) p by (simp add: scan_str4_def Let_def)
qed

lemma scan_hex_word:
  "ends_number rest \<Longrightarrow> scan_hex (padded k (hex_of (unat (x :: u64))) @ rest) = Some (x, rest)"
  using scan_hex_padded [OF unat_lt_64] by simp

lemma scan_prot_vma_line:
  assumes "vma_ok v"
  shows "scan_prot_line (vma_line v) = Some (v_start v, v_end v, v_perm v)"
  using assms
  by (simp add: scan_prot_line_def vma_line_def scan_hex_word scan_lit_def
      scan_str4_perm vma_ok_def)

lemma scan_tail_vma:
  assumes "0 < k"
  shows "scan_tail (CHR '' '' # padded 2 (hex_of a) @ CHR '':'' # padded 2 (hex_of b) @ CHR '' '' #
      dec_of n @ replicate k (CHR '' '') @ rest) = Some (replicate k (CHR '' '') @ rest)"
proof -
  obtain k' where "k = Suc k'" using assms by (cases k) auto
  then have sp: "\<forall>c cs. replicate k (CHR '' '') @ rest = c # cs \<longrightarrow> \<not> isdigit c"
    by (auto simp: isdigit_def)
  obtain v1 v2 where
    "scan_hex (padded 2 (hex_of a) @ CHR '':'' # padded 2 (hex_of b) @ CHR '' '' # dec_of n @ replicate k (CHR '' '') @ rest)
      = Some (v1, CHR '':'' # padded 2 (hex_of b) @ CHR '' '' # dec_of n @ replicate k (CHR '' '') @ rest)"
    "scan_hex (padded 2 (hex_of b) @ CHR '' '' # dec_of n @ replicate k (CHR '' '') @ rest)
      = Some (v2, CHR '' '' # dec_of n @ replicate k (CHR '' '') @ rest)"
    using scan_hex_digits [OF padded_xdigits(2,1)] ends_number_simps by meson
  then show ?thesis
    using scan_dec_dec_of [OF sp] by (simp add: scan_tail_def scan_hex_space scan_lit_def)
qed

definition vma_pos :: "vma \<Rightarrow> nat" where
  "vma_pos v = length (vma_line v) - (v_pad v + length (v_name v) + 1)"

lemma scan_refresh_vma_line:
  assumes "vma_ok v"
  shows "scan_refresh_line (vma_line v) = Some (v_start v, v_perm v, v_offset v, Some (vma_pos v))"
  using assms
  by (simp add: scan_refresh_line_def vma_line_def scan_hex_word scan_lit_def
      scan_str4_perm vma_ok_def scan_hex_space scan_tail_vma vma_pos_def)

lemma drop_vma_pos:
  "drop (vma_pos v) (vma_line v) = replicate (v_pad v) (CHR '' '') @ v_name v @ [CHR 0x0A]"
proof -
  have "\<exists>xs. vma_line v = xs @ replicate (v_pad v) (CHR '' '') @ v_name v @ [CHR 0x0A]"
    by (simp add: vma_line_def flip: append_assoc append_Cons)
  then show ?thesis by (auto simp: vma_pos_def)
qed

section \<open>The lines of the whole text\<close>

lemma vma_line_head:
  assumes "vma_ok v"
  obtains head where "vma_line v = head @ [CHR 0x0A]" and "CHR 0x0A \<notin> set head"
proof -
  have nl: "isspace (CHR 0x0A)" by (simp add: isspace_def)
  have x: "CHR 0x0A \<notin> set (padded k (hex_of n))" for k n
    using padded_xdigits(1) [of k n] xdigit_plain(1) nl by blast
  have d: "CHR 0x0A \<notin> set (dec_of n)" for n
    using dec_of_digits [of n] xdigit_plain(1) [OF digit_xdigit] nl by blast
  have p: "CHR 0x0A \<notin> set (v_perm v)"
    using assms nl unfolding vma_ok_def by blast
  have "CHR 0x0A \<notin> set (v_name v)"
    using assms by (simp add: vma_ok_def)
  then show ?thesis
    using x d p
    by (intro that [of "padded 8 (hex_of (unat (v_start v))) @ ''-'' @ padded 8 (hex_of (unat (v_end v)))
     @ '' '' @ v_perm v @ '' '' @ padded 8 (hex_of (unat (v_offset v)))
     @ '' '' @ padded 2 (hex_of (v_major v)) @ '':'' @ padded 2 (hex_of (v_minor v))
     @ '' '' @ dec_of (v_inode v) @ replicate (v_pad v) (CHR '' '') @ v_name v"])
      (simp_all add: vma_line_def)
qed

lemma fgets_lines_vmas:
  assumes "\<forall>v\<in>set vs. vma_ok v"
  shows "fgets_lines (concat (map vma_line vs)) = map vma_line vs"
  using assms
proof (induction vs)
  case Nil
  then show ?case by (simp add: fgets_lines.simps)
next
  case (Cons v vs)
  have v: "vma_ok v" using Cons.prems by simp
  obtain head where line: "vma_line v = head @ [CHR 0x0A]" and nl: "CHR 0x0A \<notin> set head"
    using vma_line_head [OF v] by blast
  then have "takeWhile (\<lambda>c. c \<noteq> CHR 0x0A) (head @ CHR 0x0A # concat (map vma_line vs)) = head"
    by (intro takeWhile_all_append(1)) auto
  moreover have "Suc (length head) \<le> 511"
    using v by (simp add: vma_ok_def line)
  ultimately have "fgets (vma_line v @ concat (map vma_line vs)) = (vma_line v, concat (map vma_line vs))"
    by (simp add: fgets_def Let_def line)
  then show ?case
    using Cons by (subst fgets_lines.simps) (simp add: line)
qed

end
