(* ===== verification/Protect.thy ===== *)
theory Protect
  imports Maps Memory
begin

text \<open>
  The memory protection helpers of \<^verbatim>\<open>xh_util.c\<close>. The kernel is the record \<open>os\<close>: the text of
  \<^verbatim>\<open>/proc/self/maps\<close> (\<open>None\<close> when it cannot be opened) and the effect of \<open>mprotect\<close>.
\<close>

section \<open>The kernel\<close>

text \<open>\<open>mprotect\<close> returns \<open>None\<close> for success or the \<open>errno\<close> it leaves.\<close>

record os =
  proc_maps :: "world \<Rightarrow> string option"
  mprotect :: "world \<Rightarrow> addr \<Rightarrow> u64 \<Rightarrow> u32 \<Rightarrow> int option \<times> world"

section \<open>Reading protections\<close>

fun strstr :: "string \<Rightarrow> string \<Rightarrow> bool" where
  "strstr s p \<longleftrightarrow> take (length p) s = p \<or> (case s of [] \<Rightarrow> False | c # s' \<Rightarrow> strstr s' p)"

declare strstr.simps [simp del]

text \<open>A character of \<^verbatim>\<open>char perm[5]\<close>; the kernel always writes four.\<close>

definition perm_at :: "string \<Rightarrow> nat \<Rightarrow> char" where
  "perm_at perm k = (if k < length perm then perm ! k else CHR 0x00)"

text \<open>The bits of the first mapping, and the bits the others leave.\<close>

definition perm_set :: "string \<Rightarrow> u32 \<Rightarrow> u32" where
  "perm_set perm prot =
     (let prot = if perm_at perm 0 = CHR ''r'' then prot OR PROT_READ else prot;
          prot = if perm_at perm 1 = CHR ''w'' then prot OR PROT_WRITE else prot
      in if perm_at perm 2 = CHR ''x'' then prot OR PROT_EXEC else prot)"

definition perm_clear :: "string \<Rightarrow> u32 \<Rightarrow> u32" where
  "perm_clear perm prot =
     (let prot = if perm_at perm 0 \<noteq> CHR ''r'' then prot AND NOT PROT_READ else prot;
          prot = if perm_at perm 1 \<noteq> CHR ''w'' then prot AND NOT PROT_WRITE else prot
      in if perm_at perm 2 \<noteq> CHR ''x'' then prot AND NOT PROT_EXEC else prot)"

text \<open>The loop over the lines: \<open>found_all\<close> and \<open>*prot\<close> at its end.\<close>

fun mem_protect_loop ::
    "string option \<Rightarrow> addr \<Rightarrow> string list \<Rightarrow> addr \<Rightarrow> bool \<Rightarrow> u32 \<Rightarrow> bool \<times> u32" where
  "mem_protect_loop pathname end_addr [] start_addr load0 prot = (False, prot)"
| "mem_protect_loop pathname end_addr (line # lines) start_addr load0 prot =
     (if (case pathname of None \<Rightarrow> False | Some p \<Rightarrow> \<not> strstr line p)
      then mem_protect_loop pathname end_addr lines start_addr load0 prot
      else case scan_prot_line line of
        None \<Rightarrow> mem_protect_loop pathname end_addr lines start_addr load0 prot
      | Some (start, end, perm) \<Rightarrow>
          if perm_at perm 3 \<noteq> CHR ''p''
          then mem_protect_loop pathname end_addr lines start_addr load0 prot
          else if start \<le> start_addr \<and> start_addr < end
          then
            let prot = if load0 then perm_set perm prot else perm_clear perm prot
            in if end_addr \<le> end then (True, prot)
               else mem_protect_loop pathname end_addr lines end False prot
          else mem_protect_loop pathname end_addr lines start_addr load0 prot)"

definition xh_util_get_mem_protect ::
    "os \<Rightarrow> world \<Rightarrow> addr \<Rightarrow> u64 \<Rightarrow> string option \<Rightarrow> int \<times> u32" where
  "xh_util_get_mem_protect os w addr len pathname =
     (case proc_maps os w of
        None \<Rightarrow> (XH_ERRNO_BADMAPS, 0)
      | Some text \<Rightarrow>
          let (found_all, prot) =
            mem_protect_loop pathname (addr + len) (fgets_lines text) addr True 0
          in (if found_all then 0 else XH_ERRNO_SEGVERR, prot))"

definition xh_util_get_addr_protect :: "os \<Rightarrow> world \<Rightarrow> addr \<Rightarrow> string option \<Rightarrow> int \<times> u32" where
  "xh_util_get_addr_protect os w addr pathname = xh_util_get_mem_protect os w addr 8 pathname"

section \<open>Setting protections\<close>

definition PAGE_SIZE :: u64 where "PAGE_SIZE = 4096"

definition PAGE_START :: "addr \<Rightarrow> addr" where
  "PAGE_START addr = addr AND NOT (PAGE_SIZE - 1)"

definition PAGE_END :: "addr \<Rightarrow> addr" where
  "PAGE_END addr = PAGE_START (addr + 8 - 1) + PAGE_SIZE"

definition PAGE_COVER :: "addr \<Rightarrow> u64" where
  "PAGE_COVER addr = PAGE_END addr - PAGE_START addr"

definition xh_util_set_addr_protect :: "os \<Rightarrow> world \<Rightarrow> addr \<Rightarrow> u32 \<Rightarrow> int \<times> world" where
  "xh_util_set_addr_protect os w addr prot =
     (case mprotect os w (PAGE_START addr) (PAGE_COVER addr) prot of
        (None, w') \<Rightarrow> (0, w')
      | (Some errno, w') \<Rightarrow> (if errno = 0 then XH_ERRNO_UNKNOWN else errno, w'))"

text \<open>\<^verbatim>\<open>__builtin___clear_cache\<close> has no effect on the data of the image.\<close>

definition xh_util_flush_instruction_cache :: "addr \<Rightarrow> world \<Rightarrow> world" where
  "xh_util_flush_instruction_cache addr w = w"

section \<open>Protections of mappings\<close>

definition vma_prot :: "vma \<Rightarrow> u32" where
  "vma_prot v = perm_set (v_perm v) 0"

definition vma_has :: "vma \<Rightarrow> addr \<Rightarrow> bool" where
  "vma_has v a \<longleftrightarrow> v_start v \<le> a \<and> a < v_end v"

text \<open>The protection a list of mappings gives an address.\<close>

fun prot_at :: "vma list \<Rightarrow> addr \<Rightarrow> u32 option" where
  "prot_at [] a = None"
| "prot_at (v # vs) a = (if vma_has v a then Some (vma_prot v) else prot_at vs a)"

text \<open>Mappings as the kernel lists them: not empty, in the order of their addresses, disjoint.\<close>

definition vmas_ok :: "vma list \<Rightarrow> bool" where
  "vmas_ok vs \<longleftrightarrow> (\<forall>v\<in>set vs. vma_ok v \<and> v_start v < v_end v) \<and>
     sorted_wrt (\<lambda>u v. v_end u \<le> v_start v) vs"

text \<open>The mappings that the query considers.\<close>

definition considered :: "string option \<Rightarrow> vma \<Rightarrow> bool" where
  "considered pathname v \<longleftrightarrow> (case pathname of None \<Rightarrow> True | Some p \<Rightarrow> strstr (vma_line v) p) \<and>
     perm_at (v_perm v) 3 = CHR ''p''"

lemma bit_prot:
  "bit PROT_READ k = (k = 0)" "bit PROT_WRITE k = (k = 1)" "bit PROT_EXEC k = (k = 2)"
  using bit_exp_iff [of 0 k, where ?'a = u32] bit_exp_iff [of 1 k, where ?'a = u32]
    bit_exp_iff [of 2 k, where ?'a = u32]
  by (auto simp: prot_defs possible_bit_word)

lemma bit_perm_set:
  "bit (perm_set perm prot) k \<longleftrightarrow> bit prot k \<or> k = 0 \<and> perm_at perm 0 = CHR ''r'' \<or>
     k = 1 \<and> perm_at perm 1 = CHR ''w'' \<or> k = 2 \<and> perm_at perm 2 = CHR ''x''"
  by (auto simp: perm_set_def Let_def bit_or_iff bit_prot)

lemma bit_perm_clear:
  "bit (perm_clear perm prot) k \<longleftrightarrow> bit prot k \<and> (k < 3 \<longrightarrow> bit (perm_set perm 0) k)"
proof (cases "k < 32")
  case True
  then have pb: "possible_bit TYPE(u32) k" by (simp add: possible_bit_word)
  have "bit (perm_clear perm prot) k \<longleftrightarrow> bit prot k \<and>
      (k = 0 \<longrightarrow> perm_at perm 0 = CHR ''r'') \<and> (k = 1 \<longrightarrow> perm_at perm 1 = CHR ''w'') \<and>
      (k = 2 \<longrightarrow> perm_at perm 2 = CHR ''x'')"
    using pb by (auto simp: perm_clear_def Let_def bit_and_iff bit_not_iff bit_prot)
  then show ?thesis by (auto simp: bit_perm_set)
next
  case False
  then have "\<not> bit prot k" "\<not> bit (perm_clear perm prot) k"
    using bit_imp_le_length [of prot k] bit_imp_le_length [of "perm_clear perm prot" k] by auto
  then show ?thesis by simp
qed

text \<open>The loop over the mappings behind the lines.\<close>

fun prot_walk :: "addr \<Rightarrow> vma list \<Rightarrow> addr \<Rightarrow> bool \<Rightarrow> u32 \<Rightarrow> bool \<times> u32" where
  "prot_walk e [] s load0 prot = (False, prot)"
| "prot_walk e (v # vs) s load0 prot =
     (if vma_has v s
      then let prot = if load0 then perm_set (v_perm v) prot else perm_clear (v_perm v) prot
        in if e \<le> v_end v then (True, prot) else prot_walk e vs (v_end v) False prot
      else prot_walk e vs s load0 prot)"

lemma mem_protect_loop_walk:
  "\<forall>v\<in>set vs. vma_ok v \<Longrightarrow>
    mem_protect_loop pathname e (map vma_line vs) s load0 prot
      = prot_walk e (filter (considered pathname) vs) s load0 prot"
  by (induction vs arbitrary: s load0 prot)
    (auto simp: considered_def scan_prot_vma_line vma_has_def Let_def split: option.splits)

lemma vmas_ok_Cons:
  "vmas_ok (v # vs) \<longleftrightarrow> vma_ok v \<and> v_start v < v_end v \<and> (\<forall>u\<in>set vs. v_end v \<le> v_start u) \<and> vmas_ok vs"
  by (auto simp: vmas_ok_def)

lemma vmas_ok_filter: "vmas_ok vs \<Longrightarrow> vmas_ok (filter P vs)"
  by (auto simp: vmas_ok_def intro: sorted_wrt_filter)

lemma prot_at_below:
  "vmas_ok vs \<Longrightarrow> \<forall>u\<in>set vs. b \<le> v_start u \<Longrightarrow> a < b \<Longrightarrow> prot_at vs a = None"
  by (induction vs) (auto simp: vmas_ok_Cons vma_has_def)

lemma prot_walk_correct:
  assumes "vmas_ok vs" and "s < e" and "load0 \<Longrightarrow> prot = 0" and "prot_walk e vs s load0 prot = (found, q)"
  shows "(found \<longleftrightarrow> (\<forall>a. s \<le> a \<and> a < e \<longrightarrow> prot_at vs a \<noteq> None)) \<and>
    (found \<longrightarrow> (\<forall>k<3. bit q k \<longleftrightarrow> (load0 \<or> bit prot k) \<and>
       (\<forall>a. s \<le> a \<and> a < e \<longrightarrow> bit (the (prot_at vs a)) k)))"
  using assms
proof (induction vs arbitrary: s load0 prot)
  case Nil
  then show ?case by auto
next
  case (Cons v vs)
  note ok = Cons.prems(1) [unfolded vmas_ok_Cons]
  show ?case
  proof (cases "vma_has v s")
    case False
    then have walk: "prot_walk e vs s load0 prot = (found, q)"
      using Cons.prems(4) by simp
    note IH = Cons.IH [OF _ Cons.prems(2,3) walk]
    show ?thesis
    proof (cases "s < v_start v")
      case True
      then have "prot_at (v # vs) s = None" "prot_at vs s = None"
        using prot_at_below [of vs "v_end v" s] ok by (auto simp: vma_has_def)
      then show ?thesis using IH ok Cons.prems(2) by (metis order_refl)
    next
      case ge: False
      then have "v_end v \<le> s" using False by (auto simp: vma_has_def)
      then have "prot_at (v # vs) a = prot_at vs a" if "s \<le> a" for a
        using that by (auto simp: vma_has_def)
      then show ?thesis using IH ok by auto
    qed
  next
    case True
    let ?p = "if load0 then perm_set (v_perm v) prot else perm_clear (v_perm v) prot"
    have bits: "bit ?p k \<longleftrightarrow> (load0 \<or> bit prot k) \<and> bit (vma_prot v) k" if "k < 3" for k
      using that Cons.prems(3) by (auto simp: bit_perm_clear vma_prot_def)
    have inside: "prot_at (v # vs) a = Some (vma_prot v)" if "s \<le> a" "a < v_end v" for a
      using that True by (auto simp: vma_has_def)
    show ?thesis
    proof (cases "e \<le> v_end v")
      case e: True
      then have "found" "q = ?p" using Cons.prems(4) True by auto
      moreover have "prot_at (v # vs) a = Some (vma_prot v)" if "s \<le> a" "a < e" for a
        using inside that e by auto
      ultimately show ?thesis using bits Cons.prems(2) by (auto simp del: prot_at.simps)
    next
      case e: False
      then have walk: "prot_walk e vs (v_end v) False ?p = (found, q)"
        using Cons.prems(4) True by (simp add: Let_def)
      have after: "prot_at (v # vs) a = prot_at vs a" if "v_end v \<le> a" for a
        using that by (auto simp: vma_has_def)
      have IH: "(found \<longleftrightarrow> (\<forall>a. v_end v \<le> a \<and> a < e \<longrightarrow> prot_at vs a \<noteq> None)) \<and>
        (found \<longrightarrow> (\<forall>k<3. bit q k \<longleftrightarrow> bit ?p k \<and>
           (\<forall>a. v_end v \<le> a \<and> a < e \<longrightarrow> bit (the (prot_at vs a)) k)))"
        using Cons.IH [OF _ _ _ walk] ok e by auto
      have split: "s \<le> a \<and> a < e \<longleftrightarrow> (s \<le> a \<and> a < v_end v) \<or> (v_end v \<le> a \<and> a < e)" for a
        using True e by (auto simp: vma_has_def)
      have "s \<le> s \<and> s < v_end v" using True by (simp add: vma_has_def)
      then show ?thesis
        unfolding split using IH bits inside after by (auto simp del: prot_at.simps) 
    qed
  qed
qed

text \<open>
  Claim C13. When the kernel lists the mappings of the process in order, the query succeeds if and
  only if private mappings that match the path name cover every byte of the range, and then its
  answer has a permission exactly if all these mappings have it; otherwise it reports
  \<open>XH_ERRNO_SEGVERR\<close>.
\<close>

theorem get_mem_protect_correct:
  assumes maps: "proc_maps os w = Some (concat (map vma_line vs))" and ok: "vmas_ok vs"
    and range: "addr < addr + len" and query: "xh_util_get_mem_protect os w addr len pathname = (r, q)"
    and us: "us = filter (considered pathname) vs"
  shows "(r = 0 \<longleftrightarrow> (\<forall>a. addr \<le> a \<and> a < addr + len \<longrightarrow> prot_at us a \<noteq> None)) \<and>
    (r \<noteq> 0 \<longrightarrow> r = XH_ERRNO_SEGVERR) \<and>
    (r = 0 \<longrightarrow> (\<forall>k<3. bit q k \<longleftrightarrow>
       (\<forall>a. addr \<le> a \<and> a < addr + len \<longrightarrow> bit (the (prot_at us a)) k)))"
proof -
  have "\<forall>v\<in>set vs. vma_ok v" using ok by (simp add: vmas_ok_def)
  note lines = fgets_lines_vmas [OF this] and loop = mem_protect_loop_walk [OF this]
  obtain found where walk: "prot_walk (addr + len) us addr True 0 = (found, q)"
    and r: "r = (if found then 0 else XH_ERRNO_SEGVERR)"
    using query by (auto simp: xh_util_get_mem_protect_def maps lines loop us split: prod.splits)
  have "vmas_ok us" by (simp add: us vmas_ok_filter [OF ok])
  from prot_walk_correct [OF this range _ walk] show ?thesis
    by (cases found) (auto simp: r XH_ERRNO_SEGVERR_def)
qed

text \<open>An example: a kernel that lists one read-only private mapping.\<close>

definition example_vma :: vma where
  "example_vma = \<lparr>v_start = 0x1000, v_end = 0x2000, v_perm = ''r--p'', v_offset = 0, v_major = 1,
     v_minor = 2, v_inode = 7, v_pad = 1, v_name = ''/l/libx.so''\<rparr>"

lemma replicate_numeral: "replicate (numeral k) x = x # replicate (pred_numeral k) x"
  by (simp add: numeral_eq_Suc)

lemma example_vma_line: "vma_line example_vma = ''00001000-00002000 r--p 00000000 01:02 7 /l/libx.so'' @ [CHR 0x0A]"
  by (simp add: vma_line_def example_vma_def padded_def hex_of.simps dec_of.simps hexchar_def
      char_of_eq_iff replicate_numeral)

lemma example_vma_ok: "vmas_ok [example_vma]"
  by (simp add: vmas_ok_def vma_ok_def example_vma_line)
    (simp add: example_vma_def isspace_def)

lemma example_considered: "considered (Some ''libx.so'') example_vma"
  by (simp add: considered_def example_vma_line strstr.simps)
    (simp add: example_vma_def perm_at_def)

definition example_maps :: os where
  "example_maps = \<lparr>proc_maps = (\<lambda>w. Some (vma_line example_vma)), mprotect = (\<lambda>w p n prot. (None, w))\<rparr>"

theorem get_mem_protect_correct_witness:
  "\<forall>w. \<exists>q. xh_util_get_mem_protect example_maps w 0x1ff0 16 (Some ''libx.so'') = (0, q) \<and>
     bit q 0 \<and> \<not> bit q 1"
proof
  fix w
  obtain r q where q: "xh_util_get_mem_protect example_maps w 0x1ff0 16 (Some ''libx.so'') = (r, q)"
    by (cases "xh_util_get_mem_protect example_maps w 0x1ff0 16 (Some ''libx.so'')")
  have maps: "proc_maps example_maps w = Some (concat (map vma_line [example_vma]))"
    by (simp add: example_maps_def)
  have us: "[example_vma] = filter (considered (Some ''libx.so'')) [example_vma]"
    by (simp add: example_considered)
  have "prot_at [example_vma] a = Some 1" if "0x1ff0 \<le> a" "a < 0x1ff0 + 16" for a
    using that by (simp add: vma_has_def vma_prot_def example_vma_def perm_set_def perm_at_def
        prot_defs) unat_arith
  moreover have "(0x1ff0 :: addr) < 0x1ff0 + 16" by simp
  ultimately show "\<exists>q. xh_util_get_mem_protect example_maps w 0x1ff0 16 (Some ''libx.so'') = (0, q) \<and>
     bit q 0 \<and> \<not> bit q 1"
    using get_mem_protect_correct [OF maps example_vma_ok _ q us] q
    by (auto intro: exI [of _ "0x1ff0 :: addr"])
qed

section \<open>A range inside one mapping\<close>

lemma vmas_disjoint:
  "vmas_ok vs \<Longrightarrow> u \<in> set vs \<Longrightarrow> v \<in> set vs \<Longrightarrow> vma_has u a \<Longrightarrow> vma_has v a \<Longrightarrow> u = v"
  by (induction vs) (auto simp: vmas_ok_Cons vma_has_def)

lemma prot_at_vma:
  "vmas_ok vs \<Longrightarrow> v \<in> set vs \<Longrightarrow> vma_has v a \<Longrightarrow> prot_at vs a = Some (vma_prot v)"
proof (induction vs)
  case (Cons u vs)
  then show ?case
    using vmas_disjoint [of "u # vs" u v a] by (auto simp: vmas_ok_Cons)
qed simp

lemma prot_walk_vma:
  "vmas_ok vs \<Longrightarrow> v \<in> set vs \<Longrightarrow> vma_has v s \<Longrightarrow> e \<le> v_end v \<Longrightarrow>
     prot_walk e vs s True 0 = (True, vma_prot v)"
proof (induction vs)
  case (Cons u vs)
  then show ?case
    using vmas_disjoint [of "u # vs" u v s] by (auto simp: vmas_ok_Cons vma_prot_def)
qed simp

lemma get_addr_protect_vma:
  assumes maps: "proc_maps os w = Some (concat (map vma_line vs))" and ok: "vmas_ok vs"
    and v: "v \<in> set vs" "considered pathname v" "vma_has v addr" "addr + 8 \<le> v_end v"
  shows "xh_util_get_addr_protect os w addr pathname = (0, vma_prot v)"
proof -
  have "\<forall>v\<in>set vs. vma_ok v" using ok by (simp add: vmas_ok_def)
  note lines = fgets_lines_vmas [OF this] and loop = mem_protect_loop_walk [OF this]
  have "prot_walk (addr + 8) (filter (considered pathname) vs) addr True 0 = (True, vma_prot v)"
    using v by (intro prot_walk_vma vmas_ok_filter [OF ok]) auto
  then show ?thesis
    by (simp add: xh_util_get_addr_protect_def xh_util_get_mem_protect_def maps lines loop)
qed

section \<open>Pages\<close>

text \<open>Rounding down to a multiple of \<open>n\<close>.\<close>

lemma round_down_ge: "s mod n = 0 \<Longrightarrow> s \<le> a \<Longrightarrow> s \<le> a - a mod n" for n :: nat
  using div_le_mono [of s a n] by (metis dvd_div_mult_self mod_0_imp_dvd mult_le_mono1 minus_mod_eq_div_mult)

lemma round_down_less: "e mod n = 0 \<Longrightarrow> a < e \<Longrightarrow> a - a mod n + n \<le> e" for n :: nat
proof -
  assume e: "e mod n = 0" "a < e"
  then have "a < e div n * n" by (metis dvd_div_mult_self mod_0_imp_dvd)
  then have "a div n < e div n" by (rule less_mult_imp_div_less)
  then have "Suc (a div n) * n \<le> e div n * n" by (intro mult_le_mono1) simp
  also have "\<dots> = e" using e(1) by (metis dvd_div_mult_self mod_0_imp_dvd)
  finally show ?thesis by (simp add: minus_mod_eq_div_mult)
qed

lemma PAGE_START_unat: "unat (PAGE_START a) = unat a - unat a mod 4096"
proof -
  have mask: "PAGE_SIZE - 1 = mask 12" by (simp add: PAGE_SIZE_def mask_eq_exp_minus_1)
  have "PAGE_START a = push_bit 12 (drop_bit 12 a)"
    unfolding PAGE_START_def mask by (rule bit_eqI) (auto simp: bit_simps)
  also have "\<dots> = a - take_bit 12 a"
    using bits_ident [of 12 a] by (simp add: algebra_simps)
  finally have "PAGE_START a = a - take_bit 12 a" .
  moreover have "unat (take_bit 12 a) = unat a mod 4096"
    using unsigned_take_bit_eq [of 12 a, where ?'a = nat] by (simp only: take_bit_eq_mod [of 12 "unat a"]) simp
  moreover have "take_bit 12 a \<le> a"
    by (simp add: word_le_nat_alt unsigned_take_bit_eq take_bit_nat_less_eq_self)
  ultimately show ?thesis by (simp add: unat_sub)
qed

text \<open>The page of an aligned word, and the mapping around it.\<close>

definition aligned :: "u64 \<Rightarrow> u64 \<Rightarrow> bool" where
  "aligned n a \<longleftrightarrow> a mod n = 0"

definition page_of :: "addr \<Rightarrow> addr set" where
  "page_of a = {b. b - PAGE_START a < PAGE_SIZE}"

lemma aligned_unat: "aligned n a \<longleftrightarrow> unat a mod unat n = 0"
  by (simp add: aligned_def unat_eq_0 flip: unat_mod)

lemma PAGE_COVER_aligned:
  assumes "aligned 8 addr"
  shows "PAGE_COVER addr = PAGE_SIZE"
proof -
  have a: "unat addr mod 8 = 0" using assms by (simp add: aligned_unat)
  have top: "unat addr + 8 \<le> 2 ^ 64"
    using round_down_less [of "2 ^ 64" 8 "unat addr"] a unat_lt_64 [of addr] by simp
  then have u: "unat (addr + 7) = unat addr + 7" by (simp add: unat_word_ariths)
  have "unat addr mod 4096 mod 8 = 0" using a by (simp add: mod_mod_cancel)
  then have "unat addr mod 4096 + 8 \<le> 4096"
    using round_down_less [of 4096 8 "unat addr mod 4096"] by simp
  then have "(unat addr + 7) mod 4096 = unat addr mod 4096 + 7"
    using mod_add_left_eq [of "unat addr" 4096 7] by simp
  then have "(unat addr + 7) - (unat addr + 7) mod 4096 = unat addr - unat addr mod 4096"
    by simp
  then have "PAGE_START (addr + 7) = PAGE_START addr"
    by (simp add: word_unat_eq_iff PAGE_START_unat u)
  then show ?thesis by (simp add: PAGE_COVER_def PAGE_END_def add.commute)
qed

lemma vma_page:
  assumes "aligned PAGE_SIZE (v_start v)" "aligned PAGE_SIZE (v_end v)" and "vma_has v addr"
    and "b \<in> page_of addr"
  shows "vma_has v b"
proof -
  let ?a = "unat addr" and ?s = "unat (v_start v)" and ?e = "unat (v_end v)"
  have s: "?s mod 4096 = 0" and e: "?e mod 4096 = 0"
    using assms(1,2) by (simp_all add: aligned_unat PAGE_SIZE_def)
  have a: "?s \<le> ?a" "?a < ?e"
    using assms(3) by (simp_all add: vma_has_def word_le_nat_alt word_less_nat_alt)
  define p where "p = ?a - ?a mod 4096"
  have p: "?s \<le> p" "p + 4096 \<le> ?e"
    unfolding p_def using round_down_ge [OF s a(1)] round_down_less [OF e a(2)] .
  have pu: "unat (PAGE_START addr) = p" by (simp add: PAGE_START_unat p_def)
  define k where "k = unat (b - PAGE_START addr)"
  have k: "k < 4096"
    using assms(4) by (simp add: page_of_def PAGE_SIZE_def word_less_nat_alt k_def)
  have "b = PAGE_START addr + of_nat k" by (simp add: k_def)
  moreover have "unat (PAGE_START addr + of_nat k) = p + k"
    using unat_add_le [of "PAGE_START addr" k "v_end v"] p k pu by simp
  ultimately have "unat b = p + k" by simp
  then show ?thesis
    using p k by (simp add: vma_has_def word_le_nat_alt word_less_nat_alt)
qed

lemma aligned_slot:
  assumes "aligned PAGE_SIZE (v_end v)" "aligned 8 addr" "vma_has v addr"
  shows "addr + 8 \<le> v_end v" and "\<And>k. k < 8 \<Longrightarrow> vma_has v (addr + of_nat k)"
    and "\<And>k. k < 8 \<Longrightarrow> addr + of_nat k \<in> page_of addr"
proof -
  let ?a = "unat addr" and ?s = "unat (v_start v)" and ?e = "unat (v_end v)"
  have e: "?e mod 4096 = 0" and a8: "?a mod 8 = 0"
    using assms(1,2) by (simp_all add: aligned_unat PAGE_SIZE_def)
  have a: "?s \<le> ?a" "?a < ?e"
    using assms(3) by (simp_all add: vma_has_def word_le_nat_alt word_less_nat_alt)
  have "?e mod 8 = 0" using e mod_mod_cancel [of 8 4096 ?e] by simp
  then have 8: "?a + 8 \<le> ?e" using round_down_less [of ?e 8 ?a] a8 a by simp
  then show "addr + 8 \<le> v_end v"
    using unat_add_le [of addr 8 "v_end v"] by (simp add: word_le_nat_alt)
  fix k :: nat assume k: "k < 8"
  have uk: "unat (addr + of_nat k) = ?a + k"
    using unat_add_le [of addr k "v_end v"] 8 k by simp
  then show "vma_has v (addr + of_nat k)"
    using a 8 k by (simp add: vma_has_def word_le_nat_alt word_less_nat_alt)
  have le: "PAGE_START addr \<le> addr + of_nat k"
    by (simp add: word_le_nat_alt PAGE_START_unat uk)
  have "?a mod 4096 mod 8 = 0" using a8 by (simp add: mod_mod_cancel)
  then have "?a mod 4096 + 8 \<le> 4096"
    using round_down_less [of 4096 8 "?a mod 4096"] by simp
  moreover have "?a mod 4096 \<le> ?a" by simp
  ultimately have "(?a + k) - (?a - ?a mod 4096) < 4096" using k by linarith
  then show "addr + of_nat k \<in> page_of addr"
    using unat_sub [OF le] by (simp add: page_of_def PAGE_SIZE_def word_less_nat_alt PAGE_START_unat uk)
qed

end
