(* ===== verification/ElfHook.thy ===== *)
theory ElfHook
  imports LookupSpec RelocIter Protect Effects
begin

text \<open>
  The hook itself: \<open>xh_elf_replace_function\<close> patches one slot, \<open>xh_elf_find_and_replace_func\<close>
  decides whether a relocation entry names a slot of the symbol, and \<open>xh_elf_hook\<close> runs over the
  three relocation tables. These functions change the image, also when a fault ends them.
\<close>

type_synonym 'a elf_eff = "(world, 'a) eff"

section \<open>Replacing one slot\<close>

definition need_prot :: u32 where "need_prot = PROT_READ OR PROT_WRITE"

text \<open>
  The change to \<open>need_prot\<close> and back (\<open>prot\<close> is what to set), left out when the slot has these
  permissions already; and the three accesses between the two changes.
\<close>

definition change_prot :: "os \<Rightarrow> addr \<Rightarrow> u32 \<Rightarrow> u32 \<Rightarrow> int elf_eff" where
  "change_prot os addr old_prot prot =
     (if old_prot \<noteq> need_prot then sysE (\<lambda>w. xh_util_set_addr_protect os w addr prot) else retE 0)"

definition replace_slot :: "addr \<Rightarrow> addr \<Rightarrow> addr \<Rightarrow> unit elf_eff" where
  "replace_slot addr new_func old_func =
     bindE (readE (\<lambda>w. ld64 w addr)) (\<lambda>old_addr.
     bindE (if old_func \<noteq> 0 then storeE (\<lambda>w. st64 w old_func old_addr) else retE ()) (\<lambda>_.
     storeE (\<lambda>w. st64 w addr new_func)))"

definition xh_elf_replace_function ::
    "os \<Rightarrow> xh_elf \<Rightarrow> string \<Rightarrow> addr \<Rightarrow> addr \<Rightarrow> addr \<Rightarrow> int elf_eff" where
  "xh_elf_replace_function os self symbol addr new_func old_func =
     bindE (readE (\<lambda>w. ld64 w addr)) (\<lambda>cur.
     if cur = new_func then retE 0 else
     bindE (readE (\<lambda>w. Inr (xh_util_get_addr_protect os w addr (pathname self)))) (\<lambda>(r, old_prot).
     if r \<noteq> 0 then retE r else
     bindE (change_prot os addr old_prot need_prot) (\<lambda>r.
     if r \<noteq> 0 then retE r else
     bindE (replace_slot addr new_func old_func) (\<lambda>_.
     bindE (change_prot os addr old_prot old_prot) (\<lambda>_.
     bindE (sysE (\<lambda>w. ((), xh_util_flush_instruction_cache addr w))) (\<lambda>_.
     retE 0))))))"

section \<open>One relocation entry\<close>

definition XH_ELF_R_SYM :: "u64 \<Rightarrow> u64" where "XH_ELF_R_SYM info = drop_bit 32 info"
definition XH_ELF_R_TYPE :: "u64 \<Rightarrow> u64" where "XH_ELF_R_TYPE info = info AND 0xffffffff"

definition XH_ELF_R_GENERIC_JUMP_SLOT :: "arch \<Rightarrow> u64" where
  "XH_ELF_R_GENERIC_JUMP_SLOT a = (case a of AArch64 \<Rightarrow> 1026 | X86_64 \<Rightarrow> 7)"
definition XH_ELF_R_GENERIC_GLOB_DAT :: "arch \<Rightarrow> u64" where
  "XH_ELF_R_GENERIC_GLOB_DAT a = (case a of AArch64 \<Rightarrow> 1025 | X86_64 \<Rightarrow> 6)"
definition XH_ELF_R_GENERIC_ABS :: "arch \<Rightarrow> u64" where
  "XH_ELF_R_GENERIC_ABS a = (case a of AArch64 \<Rightarrow> 257 | X86_64 \<Rightarrow> 1)"

text \<open>\<open>r_info\<close> and \<open>r_offset\<close>, at the same place in \<open>Elf64_Rela\<close> and \<open>Elf64_Rel\<close>.\<close>

definition rel_fields :: "rel_common \<Rightarrow> world \<Rightarrow> (u64 \<times> u64) res" where
  "rel_fields rel w = (case rel of
       RelInImage p \<Rightarrow> seqE (ld64 w (p + 8)) (\<lambda>r_info. seqE (ld64 w p) (\<lambda>r_offset. Inr (r_info, r_offset)))
     | RelInIter r_offset r_info \<Rightarrow> Inr (r_info, r_offset))"

text \<open>The result and \<open>*found\<close>.\<close>

definition xh_elf_find_and_replace_func ::
    "os \<Rightarrow> arch \<Rightarrow> xh_elf \<Rightarrow> bool \<Rightarrow> string \<Rightarrow> addr \<Rightarrow> addr \<Rightarrow> u32 \<Rightarrow> rel_common \<Rightarrow> (int \<times> bool) elf_eff" where
  "xh_elf_find_and_replace_func os arch self is_plt symbol new_func old_func symidx rel_common =
     bindE (readE (rel_fields rel_common)) (\<lambda>(r_info, r_offset).
     let r_sym = XH_ELF_R_SYM r_info; r_type = XH_ELF_R_TYPE r_info in
     if r_sym \<noteq> ucast symidx then retE (0, False)
     else if is_plt \<and> r_type \<noteq> XH_ELF_R_GENERIC_JUMP_SLOT arch then retE (0, False)
     else if \<not> is_plt \<and> r_type \<noteq> XH_ELF_R_GENERIC_GLOB_DAT arch \<and> r_type \<noteq> XH_ELF_R_GENERIC_ABS arch
     then retE (0, False)
     else
       let addr = bias_addr self + r_offset in
       if addr < base_addr self then retE (XH_ERRNO_FORMAT, True)
       else bindE (xh_elf_replace_function os self symbol addr new_func old_func) (\<lambda>r.
         if r \<noteq> 0 then retE (r, True) else retE (0, True)))"

section \<open>The tables\<close>

text \<open>The fuel of a loop is one more than the entries its iterator can still return.\<close>

definition hook_plain ::
    "os \<Rightarrow> arch \<Rightarrow> xh_elf \<Rightarrow> bool \<Rightarrow> string \<Rightarrow> addr \<Rightarrow> addr \<Rightarrow> u32 \<Rightarrow> addr \<Rightarrow> u32 \<Rightarrow> int elf_eff" where
  "hook_plain os arch self is_plt symbol new_func old_func symidx rel rel_sz w =
     (if rel = 0 then (Inr 0, w)
      else let it = xh_elf_plain_reloc_iterator_init rel rel_sz (is_use_rela self) in
        reloc_loop (Suc (plain_remaining it)) (\<lambda>w. xh_elf_plain_reloc_iterator_next)
          (\<lambda>r. bindE (xh_elf_find_and_replace_func os arch self is_plt symbol new_func old_func symidx r)
             (\<lambda>(e, found). retE (e, is_plt \<and> found))) it w)"

definition hook_android ::
    "os \<Rightarrow> arch \<Rightarrow> xh_elf \<Rightarrow> string \<Rightarrow> addr \<Rightarrow> addr \<Rightarrow> u32 \<Rightarrow> int elf_eff" where
  "hook_android os arch self symbol new_func old_func symidx w =
     (if relandroid self = 0 then (Inr 0, w)
      else case xh_elf_packed_reloc_iterator_init w (relandroid self) (relandroid_sz self)
          (is_use_rela self) of
        Inl t \<Rightarrow> (Inl t, w)
      | Inr (_, it) \<Rightarrow>
          reloc_loop (Suc (packed_remaining it)) xh_elf_packed_reloc_iterator_next
            (\<lambda>r. bindE (xh_elf_find_and_replace_func os arch self False symbol new_func old_func symidx r)
               (\<lambda>(e, found). retE (e, False))) it w)"

definition xh_elf_hook ::
    "os \<Rightarrow> arch \<Rightarrow> xh_elf \<Rightarrow> string option \<Rightarrow> addr \<Rightarrow> addr \<Rightarrow> int elf_eff" where
  "xh_elf_hook os arch self symbol new_func old_func =
     (if pathname self = None then retE XH_ERRNO_ELFINIT
      else case symbol of None \<Rightarrow> retE XH_ERRNO_INVAL | Some symbol \<Rightarrow>
      if new_func = 0 then retE XH_ERRNO_INVAL else
      bindE (readE (\<lambda>w. xh_elf_find_symidx_by_name w self symbol)) (\<lambda>found.
      case found of Inl _ \<Rightarrow> retE 0 | Inr symidx \<Rightarrow>
      bindE (hook_plain os arch self True symbol new_func old_func symidx
               (relplt self) (relplt_sz self)) (\<lambda>r.
      if r \<noteq> 0 then retE r else
      bindE (hook_plain os arch self False symbol new_func old_func symidx
               (reldyn self) (reldyn_sz self)) (\<lambda>r.
      if r \<noteq> 0 then retE r else
      hook_android os arch self symbol new_func old_func symidx))))"

end
