(* ===== verification/Core.thy ===== *)
theory Core
  imports Tailq MapInfo ElfHook
begin

text \<open>
  The state of \<^verbatim>\<open>xh_core.c\<close> and the operations that set it up: registration of hooks and ignores, the
  SIGSEGV handler, the first initialisation, and the switches. The regular expressions, \<open>malloc\<close> and the calls of the
  kernel are parameters of the model.
\<close>

section \<open>State\<close>

record 'rx hook_info =
  hi_pathname_regex :: 'rx
  hi_symbol :: string
  hi_new_func :: addr
  hi_old_func :: addr

record 'rx ignore_info =
  ii_pathname_regex :: 'rx
  ii_symbol :: "string option"

text \<open>What SIGSEGV does: the handler of xHook, or any other action.\<close>

datatype sigaction = XhHandler | OtherAction nat

text \<open>
  The globals of the file, and of the process: the action of SIGSEGV, the number of calls of \<open>malloc\<close> and
  \<open>strdup\<close> so far (the address of a new queue element), the blocks that are not freed and the compiled regular
  expressions that are not freed.
\<close>

record 'rx core =
  xh_core_hook_info :: "'rx hook_info tailq"
  xh_core_ignore_info :: "'rx ignore_info tailq"
  xh_core_map_info :: "map_info rbt"
  xh_core_inited :: bool
  xh_core_init_ok :: bool
  xh_core_async_inited :: bool
  xh_core_async_init_ok :: bool
  xh_core_refresh_thread_running :: bool
  xh_core_refresh_thread_do :: bool
  xh_core_sigsegv_enable :: bool
  xh_core_sigsegv_flag :: bool
  xh_core_sigsegv_act_old :: sigaction
  xh_log_priority :: nat
  sigsegv_action :: sigaction
  heap_calls :: nat
  heap_blocks :: int
  regexes :: int

definition ANDROID_LOG_DEBUG :: nat where "ANDROID_LOG_DEBUG = 3"
definition ANDROID_LOG_WARN :: nat where "ANDROID_LOG_WARN = 5"

text \<open>The static initialisers; \<open>act\<close> is the action of SIGSEGV when the library is loaded.\<close>

definition core_initial :: "sigaction \<Rightarrow> 'rx core" where
  "core_initial act = \<lparr>xh_core_hook_info = TAILQ_HEAD_INITIALIZER, xh_core_ignore_info = TAILQ_HEAD_INITIALIZER,
     xh_core_map_info = Leaf, xh_core_inited = False, xh_core_init_ok = False,
     xh_core_async_inited = False, xh_core_async_init_ok = False,
     xh_core_refresh_thread_running = False, xh_core_refresh_thread_do = False,
     xh_core_sigsegv_enable = True, xh_core_sigsegv_flag = False, xh_core_sigsegv_act_old = OtherAction 0,
     xh_log_priority = ANDROID_LOG_WARN,
     sigsegv_action = act, heap_calls = 0, heap_blocks = 0, regexes = 0\<rparr>"

text \<open>
  What the code calls: \<open>regcomp\<close> (\<open>None\<close>: it fails), \<open>regexec\<close> (whether it returns 0), whether the \<open>n\<close>-th
  allocation succeeds, the results of the system calls, the rest of the kernel and the machine.
\<close>

record 'rx env =
  regcomp :: "string \<Rightarrow> 'rx option"
  regexec :: "'rx \<Rightarrow> string \<Rightarrow> bool"
  alloc_ok :: "nat \<Rightarrow> bool"
  sigemptyset_ok :: bool
  sigaction_ok :: bool
  errno :: int
  pthread_create_ok :: bool
  env_os :: os
  env_arch :: arch

section \<open>Allocation\<close>

text \<open>\<open>malloc\<close> and \<open>strdup\<close>: the address when it is not \<open>NULL\<close>.\<close>

definition alloc :: "'rx env \<Rightarrow> ('rx core, nat option) eff" where
  "alloc env = sysE (\<lambda>c. let n = heap_calls c in
     if alloc_ok env n then (Some n, c\<lparr>heap_calls := Suc n, heap_blocks := heap_blocks c + 1\<rparr>)
     else (None, c\<lparr>heap_calls := Suc n\<rparr>))"

definition free_blocks :: "nat \<Rightarrow> ('rx core, unit) eff" where
  "free_blocks k = sysE (\<lambda>c. ((), c\<lparr>heap_blocks := heap_blocks c - int k\<rparr>))"

definition compile :: "'rx env \<Rightarrow> string \<Rightarrow> ('rx core, 'rx option) eff" where
  "compile env s = sysE (\<lambda>c. case regcomp env s of None \<Rightarrow> (None, c)
     | Some rx \<Rightarrow> (Some rx, c\<lparr>regexes := regexes c + 1\<rparr>))"

section \<open>Registration\<close>

definition append_hook :: "nat \<Rightarrow> 'rx hook_info \<Rightarrow> ('rx core, unit) eff" where
  "append_hook n hi = storeE (\<lambda>c. seqE (append_new n hi (xh_core_hook_info c)) (\<lambda>q.
     Inr (c\<lparr>xh_core_hook_info := q\<rparr>)))"

definition append_ignore :: "nat \<Rightarrow> 'rx ignore_info \<Rightarrow> ('rx core, unit) eff" where
  "append_ignore n ii = storeE (\<lambda>c. seqE (append_new n ii (xh_core_ignore_info c)) (\<lambda>q.
     Inr (c\<lparr>xh_core_ignore_info := q\<rparr>)))"

text \<open>The members of the new element are set when it is inserted; nothing reads it before.\<close>

definition xh_core_register ::
    "'rx env \<Rightarrow> string option \<Rightarrow> string option \<Rightarrow> addr \<Rightarrow> addr \<Rightarrow> ('rx core, int) eff" where
  "xh_core_register env pathname_regex_str symbol new_func old_func =
     (case (pathname_regex_str, symbol) of
        (Some pathname_regex_str, Some symbol) \<Rightarrow>
          if new_func = 0 then retE XH_ERRNO_INVAL else
          bindE (readE (\<lambda>c. Inr (xh_core_inited c))) (\<lambda>inited.
          if inited then retE XH_ERRNO_INVAL else
          bindE (compile env pathname_regex_str) (\<lambda>regex.
          case regex of None \<Rightarrow> retE XH_ERRNO_INVAL | Some regex \<Rightarrow>
          bindE (alloc env) (\<lambda>hi.
          case hi of None \<Rightarrow> retE XH_ERRNO_NOMEM | Some hi \<Rightarrow>
          bindE (alloc env) (\<lambda>dup.
          case dup of None \<Rightarrow> bindE (free_blocks 1) (\<lambda>_. retE XH_ERRNO_NOMEM) | Some _ \<Rightarrow>
          bindE (append_hook hi \<lparr>hi_pathname_regex = regex, hi_symbol = symbol,
                   hi_new_func = new_func, hi_old_func = old_func\<rparr>) (\<lambda>_.
          retE 0)))))
      | _ \<Rightarrow> retE XH_ERRNO_INVAL)"

definition xh_core_ignore :: "'rx env \<Rightarrow> string option \<Rightarrow> string option \<Rightarrow> ('rx core, int) eff" where
  "xh_core_ignore env pathname_regex_str symbol =
     (case pathname_regex_str of None \<Rightarrow> retE XH_ERRNO_INVAL | Some pathname_regex_str \<Rightarrow>
          bindE (readE (\<lambda>c. Inr (xh_core_inited c))) (\<lambda>inited.
          if inited then retE XH_ERRNO_INVAL else
          bindE (compile env pathname_regex_str) (\<lambda>regex.
          case regex of None \<Rightarrow> retE XH_ERRNO_INVAL | Some regex \<Rightarrow>
          bindE (alloc env) (\<lambda>ii.
          case ii of None \<Rightarrow> retE XH_ERRNO_NOMEM | Some ii \<Rightarrow>
          bindE (if symbol = None then retE (Some 0) else alloc env) (\<lambda>dup.
          case dup of None \<Rightarrow> bindE (free_blocks 1) (\<lambda>_. retE XH_ERRNO_NOMEM) | Some _ \<Rightarrow>
          bindE (append_ignore ii \<lparr>ii_pathname_regex = regex, ii_symbol = symbol\<rparr>) (\<lambda>_.
          retE 0))))))"

section \<open>The SIGSEGV handler\<close>

definition xh_core_add_sigsegv_handler :: "'rx env \<Rightarrow> 'rx core \<Rightarrow> int \<times> 'rx core" where
  "xh_core_add_sigsegv_handler env c =
     (if \<not> xh_core_sigsegv_enable c then (0, c)
      else if \<not> sigemptyset_ok env then (if errno env = 0 then XH_ERRNO_UNKNOWN else errno env, c)
      else if \<not> sigaction_ok env then (if errno env = 0 then XH_ERRNO_UNKNOWN else errno env, c)
      else (0, c\<lparr>xh_core_sigsegv_act_old := sigsegv_action c, sigsegv_action := XhHandler\<rparr>))"

definition xh_core_del_sigsegv_handler :: "'rx core \<Rightarrow> 'rx core" where
  "xh_core_del_sigsegv_handler c =
     (if \<not> xh_core_sigsegv_enable c then c else c\<lparr>sigsegv_action := xh_core_sigsegv_act_old c\<rparr>)"

text \<open>
  The handler of a fault: \<open>None\<close> is the jump back to \<open>sigsetjmp\<close>. Otherwise it puts the old action back and
  returns, and the instruction that faulted runs again.
\<close>

definition xh_core_sigsegv_handler :: "'rx core \<Rightarrow> 'rx core option" where
  "xh_core_sigsegv_handler c =
     (if xh_core_sigsegv_flag c then None else Some (c\<lparr>sigsegv_action := xh_core_sigsegv_act_old c\<rparr>))"

section \<open>Initialisation and switches\<close>

definition xh_core_init_once :: "'rx env \<Rightarrow> 'rx core \<Rightarrow> 'rx core" where
  "xh_core_init_once env c =
     (if xh_core_inited c then c
      else
        let c = c\<lparr>xh_core_inited := True\<rparr>;
            (r, c) = xh_core_add_sigsegv_handler env c
        in if r \<noteq> 0 then c else c\<lparr>xh_core_init_ok := True\<rparr>)"

definition xh_core_init_async_once :: "'rx env \<Rightarrow> 'rx core \<Rightarrow> 'rx core" where
  "xh_core_init_async_once env c =
     (if xh_core_async_inited c then c
      else
        let c = c\<lparr>xh_core_async_inited := True, xh_core_refresh_thread_running := True\<rparr>
        in if \<not> pthread_create_ok env then c\<lparr>xh_core_refresh_thread_running := False\<rparr>
           else c\<lparr>xh_core_async_init_ok := True\<rparr>)"

definition xh_core_enable_debug :: "bool \<Rightarrow> 'rx core \<Rightarrow> 'rx core" where
  "xh_core_enable_debug flag c = c\<lparr>xh_log_priority := (if flag then ANDROID_LOG_DEBUG else ANDROID_LOG_WARN)\<rparr>"

definition xh_core_enable_sigsegv_protection :: "bool \<Rightarrow> 'rx core \<Rightarrow> 'rx core" where
  "xh_core_enable_sigsegv_protection flag c = c\<lparr>xh_core_sigsegv_enable := flag\<rparr>"

end
