(* ===== verification/Refresh.thy ===== *)
theory Refresh
  imports Core Maps
begin

text \<open>
  A refresh (\<open>xh_core_refresh_impl\<close>): it reads the mappings of the process, keeps a record of every file that
  has to be hooked, and hooks the files that are new or have moved. The state is that of \<^verbatim>\<open>xh_core.c\<close> and
  the memory.
\<close>

type_synonym ('rx, 'a) proc = "('rx core \<times> world, 'a) eff"

definition on_core :: "('rx core, 'a) eff \<Rightarrow> ('rx, 'a) proc" where
  "on_core m = (\<lambda>(c, w). case m c of (r, c') \<Rightarrow> (r, (c', w)))"

definition on_mem :: "(world, 'a) eff \<Rightarrow> ('rx, 'a) proc" where
  "on_mem m = (\<lambda>(c, w). case m w of (r, w') \<Rightarrow> (r, (c, w')))"

definition get_core :: "('rx, 'rx core) proc" where
  "get_core = readE (\<lambda>(c, w). Inr c)"

definition put_core :: "('rx core \<Rightarrow> 'rx core) \<Rightarrow> ('rx, unit) proc" where
  "put_core f = sysE (\<lambda>(c, w). ((), (f c, w)))"

section \<open>Regions protected from SIGSEGV\<close>

text \<open>
  \<open>if(0 == sigsetjmp(...)) m else ...\<close>, with the flag set around it: a fault in \<open>m\<close> comes back as \<open>None\<close>
  if the action of SIGSEGV is the handler of xHook. Otherwise, and for every other end, the process is lost.
\<close>

definition sigsetjmp_block :: "('rx, 'a) proc \<Rightarrow> ('rx, 'a option) proc" where
  "sigsetjmp_block m s = (case m s of
       (Inl Segv, (c, w)) \<Rightarrow>
         if sigsegv_action c = XhHandler \<and> xh_core_sigsegv_handler c = None then (Inr None, (c, w))
         else (Inl Segv, (c, w))
     | (Inl t, s') \<Rightarrow> (Inl t, s')
     | (Inr x, s') \<Rightarrow> (Inr (Some x), s'))"

definition xh_core_check_elf_header :: "'rx env \<Rightarrow> addr \<Rightarrow> string \<Rightarrow> ('rx, int) proc" where
  "xh_core_check_elf_header env base path =
     bindE get_core (\<lambda>c.
     let check = on_mem (readE (\<lambda>w. xh_elf_check_elfheader (env_arch env) w base)) in
     if \<not> xh_core_sigsegv_enable c then check
     else
       bindE (put_core (xh_core_sigsegv_flag_update (\<lambda>_. True))) (\<lambda>_.
       bindE (sigsetjmp_block check) (\<lambda>r.
       bindE (put_core (xh_core_sigsegv_flag_update (\<lambda>_. False))) (\<lambda>_.
       retE (case r of Some ret \<Rightarrow> ret | None \<Rightarrow> XH_ERRNO_SEGVERR)))))"

section \<open>Hooking one file\<close>

text \<open>How the loop over the ignores ends early: for all symbols, or for the current one.\<close>

datatype ignored = AllSymbols | ThisSymbol

definition ignore_verdict :: "'rx env \<Rightarrow> string \<Rightarrow> string \<Rightarrow> 'rx ignore_info \<Rightarrow> ignored option" where
  "ignore_verdict env path symbol ii =
     (if regexec env (ii_pathname_regex ii) path
      then case ii_symbol ii of
          None \<Rightarrow> Some AllSymbols
        | Some s \<Rightarrow> if strcmp s symbol = 0 then Some ThisSymbol else None
      else None)"

text \<open>The addresses of the elements are below \<open>heap_calls\<close>, so no queue is longer.\<close>

definition find_ignore :: "'rx env \<Rightarrow> 'rx core \<Rightarrow> string \<Rightarrow> string \<Rightarrow> ('s, ignored option) eff" where
  "find_ignore env c path symbol =
     TAILQ_FOREACH (heap_calls c) (xh_core_ignore_info c) (tqh_first (xh_core_ignore_info c))
       (\<lambda>ii. retE (ignore_verdict env path symbol ii))"

definition xh_core_hook_impl :: "'rx env \<Rightarrow> 'rx core \<Rightarrow> map_info \<Rightarrow> (world, unit) eff" where
  "xh_core_hook_impl env c mi =
     bindE (readE (\<lambda>w. xh_elf_init w xh_elf_zero (mi_base_addr mi) (Some (mi_pathname mi)))) (\<lambda>(r, elf).
     if r \<noteq> 0 then retE () else
     bindE (TAILQ_FOREACH (heap_calls c) (xh_core_hook_info c) (tqh_first (xh_core_hook_info c)) (\<lambda>hi.
       if regexec env (hi_pathname_regex hi) (mi_pathname mi) then
         bindE (find_ignore env c (mi_pathname mi) (hi_symbol hi)) (\<lambda>ignore.
         case ignore of
           Some AllSymbols \<Rightarrow> retE (Some ())
         | Some ThisSymbol \<Rightarrow> retE None
         | None \<Rightarrow>
             bindE (xh_elf_hook (env_os env) (env_arch env) elf (Some (hi_symbol hi)) (hi_new_func hi) (hi_old_func hi))
               (\<lambda>_. retE None))
       else retE None)) (\<lambda>_. retE ()))"

definition xh_core_hook :: "'rx env \<Rightarrow> map_info \<Rightarrow> ('rx, unit) proc" where
  "xh_core_hook env mi =
     bindE get_core (\<lambda>c.
     if \<not> xh_core_sigsegv_enable c then on_mem (xh_core_hook_impl env c mi)
     else
       bindE (put_core (xh_core_sigsegv_flag_update (\<lambda>_. True))) (\<lambda>_.
       bindE (sigsetjmp_block (on_mem (xh_core_hook_impl env c mi))) (\<lambda>_.
       put_core (xh_core_sigsegv_flag_update (\<lambda>_. False)))))"

section \<open>One line of the mappings\<close>

text \<open>\<open>pathname\<close> of a line, from the position that \<open>sscanf\<close> reports.\<close>

definition line_pathname :: "string \<Rightarrow> nat \<Rightarrow> string option" where
  "line_pathname line pathname_pos =
     (let pathname_pos = pathname_pos + length (takeWhile isspace (drop pathname_pos line)) in
      if 511 \<le> pathname_pos then None
      else
        let path = c_str (drop pathname_pos line) in
        if path = [] then None
        else
          let path = (if last path = CHR 0x0A then butlast path else path) in
          if path = [] then None
          else if hd path = CHR ''['' then None
          else Some path)"

text \<open>
  Whether the file has to be hooked: the loop ends at the first hook whose expression matches,
  whether that hook is ignored or not.
\<close>

definition check_pathname :: "'rx env \<Rightarrow> 'rx core \<Rightarrow> string \<Rightarrow> ('s, bool) eff" where
  "check_pathname env c path =
     bindE (TAILQ_FOREACH (heap_calls c) (xh_core_hook_info c) (tqh_first (xh_core_hook_info c)) (\<lambda>hi.
       if regexec env (hi_pathname_regex hi) path then
         bindE (find_ignore env c path (hi_symbol hi)) (\<lambda>ignore.
         case ignore of
           Some AllSymbols \<Rightarrow> retE (Some False)
         | Some ThisSymbol \<Rightarrow> retE (Some False)
         | None \<Rightarrow> retE (Some True))
       else retE None)) (\<lambda>match. retE (match = Some True))"

text \<open>The record of the file: moved from the old tree to the new one, or created.\<close>

definition rb_remove_old :: "map_info \<Rightarrow> ('rx, unit) proc" where
  "rb_remove_old mi = storeE (\<lambda>(c, w). seqE (derefE (rb_remove xh_core_map_info_cmp mi (xh_core_map_info c)))
     (\<lambda>t. Inr (c\<lparr>xh_core_map_info := t\<rparr>, w)))"

definition rb_insert_new :: "map_info \<Rightarrow> map_info rbt \<Rightarrow> ('rx, map_info option \<times> map_info rbt) proc" where
  "rb_insert_new mi t = readE (\<lambda>_. derefE (rb_insert xh_core_map_info_cmp mi t))"

text \<open>The store \<open>mi->base_addr = base_addr\<close> to a record that is in the tree.\<close>

definition set_base_addr :: "map_info \<Rightarrow> addr \<Rightarrow> map_info rbt \<Rightarrow> map_info rbt" where
  "set_base_addr mi base = map_rbt (\<lambda>m. if m = mi then m\<lparr>mi_base_addr := base\<rparr> else m)"

definition refresh_item ::
    "'rx env \<Rightarrow> addr \<Rightarrow> string \<Rightarrow> map_info rbt \<Rightarrow> ('rx, map_info rbt) proc" where
  "refresh_item env base path refreshed =
     bindE get_core (\<lambda>c.
     case rb_find xh_core_map_info_cmp \<lparr>mi_pathname = path, mi_base_addr = 0\<rparr> (xh_core_map_info c) of
       Some mi \<Rightarrow>
         bindE (rb_remove_old mi) (\<lambda>_.
         bindE (rb_insert_new mi refreshed) (\<lambda>(repeated, refreshed).
         if repeated \<noteq> None then bindE (on_core (free_blocks 2)) (\<lambda>_. retE refreshed)
         else if mi_base_addr mi \<noteq> base
         then bindE (xh_core_hook env (mi\<lparr>mi_base_addr := base\<rparr>)) (\<lambda>_.
           retE (set_base_addr mi base refreshed))
         else retE refreshed))
     | None \<Rightarrow>
         bindE (on_core (alloc env)) (\<lambda>mi.
         case mi of None \<Rightarrow> retE refreshed | Some _ \<Rightarrow>
         bindE (on_core (alloc env)) (\<lambda>dup.
         case dup of None \<Rightarrow> bindE (on_core (free_blocks 1)) (\<lambda>_. retE refreshed) | Some _ \<Rightarrow>
         let mi = \<lparr>mi_pathname = path, mi_base_addr = base\<rparr> in
         bindE (rb_insert_new mi refreshed) (\<lambda>(repeated, refreshed).
         if repeated \<noteq> None then bindE (on_core (free_blocks 2)) (\<lambda>_. retE refreshed)
         else bindE (xh_core_hook env mi) (\<lambda>_. retE refreshed)))))"

text \<open>A line whose tail does not match leaves \<open>pathname_pos\<close> as it was, which is \<open>Undef\<close> here.\<close>

definition refresh_line :: "'rx env \<Rightarrow> string \<Rightarrow> map_info rbt \<Rightarrow> ('rx, map_info rbt) proc" where
  "refresh_line env line refreshed =
     (case scan_refresh_line line of None \<Rightarrow> retE refreshed
      | Some (base, perm, offset, pathname_pos) \<Rightarrow>
        if perm_at perm 0 \<noteq> CHR ''r'' then retE refreshed
        else if perm_at perm 3 \<noteq> CHR ''p'' then retE refreshed
        else if offset \<noteq> 0 then retE refreshed
        else case pathname_pos of None \<Rightarrow> readE (\<lambda>_. Inl Undef) | Some pathname_pos \<Rightarrow>
        case line_pathname line pathname_pos of None \<Rightarrow> retE refreshed | Some path \<Rightarrow>
        bindE get_core (\<lambda>c.
        bindE (check_pathname env c path) (\<lambda>match.
        if \<not> match then retE refreshed else
        bindE (xh_core_check_elf_header env base path) (\<lambda>r.
        if r \<noteq> 0 then retE refreshed
        else refresh_item env base path refreshed))))"

section \<open>The refresh\<close>

fun refresh_loop :: "'rx env \<Rightarrow> string list \<Rightarrow> map_info rbt \<Rightarrow> ('rx, map_info rbt) proc" where
  "refresh_loop env [] refreshed = retE refreshed"
| "refresh_loop env (line # lines) refreshed =
     bindE (refresh_line env line refreshed) (refresh_loop env lines)"

text \<open>The records that are left over, and those that \<open>xh_core_clear\<close> drops, are freed.\<close>

definition free_map_info :: "('rx core, unit) eff" where
  "free_map_info = storeE (\<lambda>c.
     let t = xh_core_map_info c in
     seqE (RB_FOREACH_SAFE_free (length (inorder t)) xh_core_map_info_cmp (rb_min t)
         (\<lambda>mi c. c\<lparr>heap_blocks := heap_blocks c - 2\<rparr>) t c) (\<lambda>(t, c).
     Inr (c\<lparr>xh_core_map_info := t\<rparr>)))"

text \<open>The file is read as it is when it is opened; \<open>None\<close> is a failing \<open>fopen\<close>.\<close>

definition xh_core_refresh_impl :: "'rx env \<Rightarrow> ('rx, unit) proc" where
  "xh_core_refresh_impl env =
     bindE (readE (\<lambda>(c, w). Inr (proc_maps (env_os env) w))) (\<lambda>fp.
     case fp of None \<Rightarrow> retE () | Some text \<Rightarrow>
     bindE (refresh_loop env (fgets_lines text) Leaf) (\<lambda>refreshed.
     bindE (on_core free_map_info) (\<lambda>_.
     put_core (xh_core_map_info_update (\<lambda>_. refreshed)))))"

section \<open>xh_core_refresh and xh_core_clear\<close>

text \<open>
  The functions of one thread, without the interleavings with the refresh thread: an asynchronous refresh only
  leaves the request for it.
\<close>

definition xh_core_refresh :: "'rx env \<Rightarrow> bool \<Rightarrow> ('rx, int) proc" where
  "xh_core_refresh env async =
     bindE (put_core (xh_core_init_once env)) (\<lambda>_.
     bindE get_core (\<lambda>c.
     if \<not> xh_core_init_ok c then retE XH_ERRNO_UNKNOWN
     else if async then
       bindE (put_core (xh_core_init_async_once env)) (\<lambda>_.
       bindE get_core (\<lambda>c.
       if \<not> xh_core_async_init_ok c then retE XH_ERRNO_UNKNOWN
       else bindE (put_core (xh_core_refresh_thread_do_update (\<lambda>_. True))) (\<lambda>_. retE 0)))
     else bindE (xh_core_refresh_impl env) (\<lambda>_. retE 0)))"

definition free_hook_info :: "('rx core, unit) eff" where
  "free_hook_info = storeE (\<lambda>c.
     let q = xh_core_hook_info c in
     seqE (TAILQ_FOREACH_SAFE_free (heap_calls c) (tqh_first q)
         (\<lambda>hi c. c\<lparr>regexes := regexes c - 1, heap_blocks := heap_blocks c - 2\<rparr>) q c) (\<lambda>(q, c).
     Inr (c\<lparr>xh_core_hook_info := q\<rparr>)))"

text \<open>\<open>free(ii->symbol)\<close> does nothing for \<open>NULL\<close>.\<close>

definition free_ignore_info :: "('rx core, unit) eff" where
  "free_ignore_info = storeE (\<lambda>c.
     let q = xh_core_ignore_info c in
     seqE (TAILQ_FOREACH_SAFE_free (heap_calls c) (tqh_first q)
         (\<lambda>ii c. c\<lparr>regexes := regexes c - 1,
            heap_blocks := heap_blocks c - (if ii_symbol ii = None then 1 else 2)\<rparr>) q c) (\<lambda>(q, c).
     Inr (c\<lparr>xh_core_ignore_info := q\<rparr>)))"

definition stop_threads_and_handler :: "'rx core \<Rightarrow> 'rx core" where
  "stop_threads_and_handler c =
     (let c = (if xh_core_async_init_ok c
               then c\<lparr>xh_core_refresh_thread_running := False, xh_core_async_init_ok := False\<rparr> else c);
          c = c\<lparr>xh_core_async_inited := False\<rparr>;
          c = (if xh_core_init_ok c then (xh_core_del_sigsegv_handler c)\<lparr>xh_core_init_ok := False\<rparr> else c)
      in c\<lparr>xh_core_inited := False\<rparr>)"

definition xh_core_clear :: "('rx core, unit) eff" where
  "xh_core_clear =
     bindE (sysE (\<lambda>c. ((), stop_threads_and_handler c))) (\<lambda>_.
     bindE free_map_info (\<lambda>_.
     bindE free_hook_info (\<lambda>_. free_ignore_info)))"

end
