(* ===== verification/CoreSpec.thy ===== *)
theory CoreSpec
  imports Refresh
begin

text \<open>
  The invariant of \<^verbatim>\<open>xh_core.c\<close>: the queues hold the registered hooks and ignores, the tree is in order, and every block
  that is not freed belongs to one of them. Registration keeps it, and \<open>xh_core_clear\<close> gives everything back.
\<close>

section \<open>The invariant\<close>

text \<open>The elements \<open>xs\<close> are in the queue, at addresses below \<open>n\<close>, and nothing else is allocated for it.\<close>

definition holds :: "nat \<Rightarrow> 'a tailq \<Rightarrow> 'a list \<Rightarrow> bool" where
  "holds n q xs \<longleftrightarrow> (\<exists>es. tq.owns q es \<and> map snd es = xs \<and> (\<forall>e \<in> set es. fst e < n))"

definition ignore_blocks :: "'rx ignore_info list \<Rightarrow> int" where
  "ignore_blocks is = sum_list (map (\<lambda>ii. if ii_symbol ii = None then 1 else 2) is)"

text \<open>The path names of the records have no NUL.\<close>

definition proper_paths :: "map_info rbt \<Rightarrow> bool" where
  "proper_paths t \<longleftrightarrow> (\<forall>k mi. entry path_key t k = Some mi \<longrightarrow> mi_pathname mi = k)"

definition queues_ok :: "'rx core \<Rightarrow> 'rx hook_info list \<Rightarrow> 'rx ignore_info list \<Rightarrow> bool" where
  "queues_ok c hs is \<longleftrightarrow>
     holds (heap_calls c) (xh_core_hook_info c) hs \<and> holds (heap_calls c) (xh_core_ignore_info c) is"

definition core_ok :: "'rx core \<Rightarrow> 'rx hook_info list \<Rightarrow> 'rx ignore_info list \<Rightarrow> bool" where
  "core_ok c hs is \<longleftrightarrow>
     queues_ok c hs is \<and> valid_tree path_key (xh_core_map_info c) \<and> proper_paths (xh_core_map_info c) \<and>
     heap_blocks c = 2 * int (length hs) + ignore_blocks is + 2 * int (length (inorder (xh_core_map_info c)))"

lemma distinct_below: "distinct ns \<Longrightarrow> (\<forall>n \<in> set ns. n < k) \<Longrightarrow> length ns \<le> k"
  by (metis card_lessThan card_mono distinct_card finite_lessThan lessThan_iff subsetI)

lemma holds_length:
  assumes "tq.owns q es" and "\<forall>e \<in> set es. fst e < n"
  shows "length es \<le> n"
proof -
  have "distinct (map fst es)" using assms(1) by (simp add: tq.owns_def queue_list_def)
  then show ?thesis using distinct_below [of "map fst es" n] assms(2) by simp
qed

lemma holds_empty: "holds n TAILQ_HEAD_INITIALIZER []"
  using tq.owns_empty by (fastforce simp: holds_def)

lemma holds_mono: "holds n q xs \<Longrightarrow> n \<le> m \<Longrightarrow> holds m q xs"
  by (fastforce simp: holds_def)

lemma holds_Suc: "holds n q xs \<Longrightarrow> holds (Suc n) q xs" "holds n q xs \<Longrightarrow> holds (Suc (Suc n)) q xs"
  by (auto intro: holds_mono)

lemma holds_append:
  assumes "holds n q xs" and "n < m"
  obtains q' where "append_new n x q = Inr q'" and "holds m q' (xs @ [x])"
proof -
  obtain es where es: "tq.owns q es" "map snd es = xs" "\<forall>e \<in> set es. fst e < n"
    using assms(1) by (auto simp: holds_def)
  then have "n \<notin> fst ` set es" by fastforce
  with es(1) obtain q' where "append_new n x q = Inr q'" "tq.owns q' (es @ [(n, x)])"
    by (rule tq.owns_append)
  then show ?thesis
    using that es(2,3) assms(2) by (fastforce simp: holds_def)
qed

text \<open>With the bound \<open>heap_calls\<close> a traversal visits every element and never runs out of it.\<close>

lemma holds_foreach:
  assumes "holds n q xs"
  shows "TAILQ_FOREACH n q (tqh_first q) body = list_foreach xs body"
proof -
  obtain es where es: "tq.owns q es" "map snd es = xs" "\<forall>e \<in> set es. fst e < n"
    using assms by (auto simp: holds_def)
  then show ?thesis
    using FOREACH_list [of q es n body] holds_length [OF es(1,3)] by (simp add: tq.owns_def)
qed

lemma holds_foreach_free:
  assumes "holds n q xs"
  obtains q' where "TAILQ_FOREACH_SAFE_free n (tqh_first q) release q s = Inr (q', fold release xs s)"
    and "holds 0 q' []"
proof -
  obtain es where es: "tq.owns q es" "map snd es = xs" "\<forall>e \<in> set es. fst e < n"
    using assms by (auto simp: holds_def)
  moreover obtain q' where "TAILQ_FOREACH_SAFE_free n (tqh_first q) release q s = Inr (q', fold release (map snd es) s)"
    "queue_list q' []" "dom (cells q') = dom (cells q) - fst ` set es"
    using FOREACH_SAFE_free_list [of q es n release s] holds_length [OF es(1,3)] es(1) by (auto simp: tq.owns_def)
  ultimately show ?thesis
    using that by (auto simp: holds_def tq.owns_def)
qed

lemma ignore_blocks_simps [simp]:
  "ignore_blocks [] = 0" "ignore_blocks (is @ js) = ignore_blocks is + ignore_blocks js"
  "ignore_blocks (ii # is) = (if ii_symbol ii = None then 1 else 2) + ignore_blocks is"
  by (simp_all add: ignore_blocks_def)

lemma core_ok_initial: "core_ok (core_initial act) [] []"
  by (simp add: core_ok_def queues_ok_def core_initial_def holds_empty valid_Leaf proper_paths_def)

section \<open>Registration\<close>

text \<open>The two blocks of a hook, from the state in which its expression is compiled.\<close>

lemma alloc_run: "alloc env c = (if alloc_ok env (heap_calls c)
    then (Inr (Some (heap_calls c)), c\<lparr>heap_calls := Suc (heap_calls c), heap_blocks := heap_blocks c + 1\<rparr>)
    else (Inr None, c\<lparr>heap_calls := Suc (heap_calls c)\<rparr>))"
  by (simp add: alloc_def sysE_def Let_def)

lemma compile_run: "compile env s c = (case regcomp env s of None \<Rightarrow> (Inr None, c)
    | Some rx \<Rightarrow> (Inr (Some rx), c\<lparr>regexes := regexes c + 1\<rparr>))"
  by (simp add: compile_def sysE_def split: option.splits)

lemma free_blocks_run: "free_blocks k c = (Inr (), c\<lparr>heap_blocks := heap_blocks c - int k\<rparr>)"
  by (simp add: free_blocks_def sysE_def)

lemmas heap_run = alloc_run compile_run free_blocks_run

text \<open>When the arguments and the state let a registration go on, and what it then appends.\<close>

fun new_hook :: "'rx env \<Rightarrow> 'rx core \<Rightarrow> string option \<Rightarrow> string option \<Rightarrow> addr \<Rightarrow> addr \<Rightarrow> 'rx hook_info option" where
  "new_hook env c (Some regex) (Some symbol) new_func old_func =
     (if new_func = 0 \<or> xh_core_inited c \<or> \<not> alloc_ok env (heap_calls c) \<or> \<not> alloc_ok env (Suc (heap_calls c)) then None
      else map_option (\<lambda>rx. \<lparr>hi_pathname_regex = rx, hi_symbol = symbol, hi_new_func = new_func,
        hi_old_func = old_func\<rparr>) (regcomp env regex))"
| "new_hook env c _ _ _ _ = None"

lemma register_cases:
  assumes "core_ok c hs is"
  obtains r c' where "xh_core_register env regex symbol new_func old_func c = (Inr r, c')"
    and "r = 0 \<longleftrightarrow> new_hook env c regex symbol new_func old_func \<noteq> None"
    and "core_ok c' (hs @ (case new_hook env c regex symbol new_func old_func of None \<Rightarrow> [] | Some hi \<Rightarrow> [hi])) is"
proof (cases "new_hook env c regex symbol new_func old_func")
  case None
  have "\<exists>r c'. xh_core_register env regex symbol new_func old_func c = (Inr r, c') \<and> r \<noteq> 0 \<and> core_ok c' hs is"
    using None assms
    by (cases regex; cases symbol)
      (auto simp: xh_core_register_def bindE_def readE_def heap_run core_ok_def queues_ok_def xh_errno_defs
        intro: holds_mono split: option.splits)
  then show ?thesis using that None by auto
next
  case (Some hi)
  then obtain s y rx where a: "regex = Some s" "symbol = Some y" "new_func \<noteq> 0" "\<not> xh_core_inited c"
    "alloc_ok env (heap_calls c)" "alloc_ok env (Suc (heap_calls c))" "regcomp env s = Some rx"
    and hi: "hi = \<lparr>hi_pathname_regex = rx, hi_symbol = y, hi_new_func = new_func, hi_old_func = old_func\<rparr>"
    by (cases regex; cases symbol) (auto split: if_splits)
  obtain q' where q': "append_new (heap_calls c) hi (xh_core_hook_info c) = Inr q'"
    "holds (Suc (Suc (heap_calls c))) q' (hs @ [hi])"
    using assms by (auto simp: core_ok_def queues_ok_def intro: holds_append [of _ _ hs "Suc (Suc (heap_calls c))" hi])
  have "\<exists>c'. xh_core_register env regex symbol new_func old_func c = (Inr 0, c') \<and> core_ok c' (hs @ [hi]) is"
    using a hi q' assms
    by (auto simp: xh_core_register_def bindE_def readE_def heap_run append_hook_def storeE_def core_ok_def queues_ok_def
        intro: holds_Suc)
  then show ?thesis using that Some by auto
qed

text \<open>Whether a registration gets as far as compiling its expression, and succeeds in that; then the expression is not freed again.\<close>

fun compiles :: "'rx env \<Rightarrow> 'rx core \<Rightarrow> string option \<Rightarrow> string option \<Rightarrow> addr \<Rightarrow> bool" where
  "compiles env c (Some regex) (Some symbol) new_func \<longleftrightarrow> new_func \<noteq> 0 \<and> \<not> xh_core_inited c \<and> regcomp env regex \<noteq> None"
| "compiles env c _ _ _ \<longleftrightarrow> False"

text \<open>Nothing but the queue of hooks and the accounts of the heap and the expressions changes.\<close>

lemma register_frame:
  assumes "xh_core_register env regex symbol new_func old_func c = (Inr r, c')"
  obtains q n b where "c' = c\<lparr>xh_core_hook_info := q, heap_calls := n, heap_blocks := b,
      regexes := regexes c + (if compiles env c regex symbol new_func then 1 else 0)\<rparr>"
    and "r \<noteq> 0 \<Longrightarrow> q = xh_core_hook_info c"
proof -
  have "\<exists>q n b. c' = c\<lparr>xh_core_hook_info := q, heap_calls := n, heap_blocks := b,
      regexes := regexes c + (if compiles env c regex symbol new_func then 1 else 0)\<rparr> \<and> (r \<noteq> 0 \<longrightarrow> q = xh_core_hook_info c)"
  proof (cases "regex = None \<or> symbol = None")
    case True
    then have "c' = c" "\<not> compiles env c regex symbol new_func"
      using assms by (cases regex; cases symbol; simp add: xh_core_register_def)+
    then show ?thesis
      by (intro exI [of _ "xh_core_hook_info c"] exI [of _ "heap_calls c"] exI [of _ "heap_blocks c"]) simp
  next
    case False
    then obtain s y where sy: "regex = Some s" "symbol = Some y" by auto
    let ?hi = "\<lparr>hi_pathname_regex = the (regcomp env s), hi_symbol = y, hi_new_func = new_func, hi_old_func = old_func\<rparr>"
    show ?thesis
      using assms
      by (cases "append_new (heap_calls c) ?hi (xh_core_hook_info c)"; cases c;
        force simp: sy xh_core_register_def bindE_def readE_def retE_def heap_run append_hook_def storeE_def seqE_def
          split: if_splits option.splits)
  qed
  then show ?thesis using that by blast
qed

fun new_ignore :: "'rx env \<Rightarrow> 'rx core \<Rightarrow> string option \<Rightarrow> string option \<Rightarrow> 'rx ignore_info option" where
  "new_ignore env c (Some regex) symbol =
     (if xh_core_inited c \<or> \<not> alloc_ok env (heap_calls c) \<or> symbol \<noteq> None \<and> \<not> alloc_ok env (Suc (heap_calls c)) then None
      else map_option (\<lambda>rx. \<lparr>ii_pathname_regex = rx, ii_symbol = symbol\<rparr>) (regcomp env regex))"
| "new_ignore env c None _ = None"

lemma ignore_cases:
  assumes "core_ok c hs is"
  obtains r c' where "xh_core_ignore env regex symbol c = (Inr r, c')"
    and "r = 0 \<longleftrightarrow> new_ignore env c regex symbol \<noteq> None"
    and "core_ok c' hs (is @ (case new_ignore env c regex symbol of None \<Rightarrow> [] | Some ii \<Rightarrow> [ii]))"
proof (cases "new_ignore env c regex symbol")
  case None
  have "\<exists>r c'. xh_core_ignore env regex symbol c = (Inr r, c') \<and> r \<noteq> 0 \<and> core_ok c' hs is"
    using None assms
    by (cases regex)
      (auto simp: xh_core_ignore_def bindE_def readE_def heap_run core_ok_def queues_ok_def xh_errno_defs
        intro: holds_mono split: option.splits if_splits)
  then show ?thesis using that None by auto
next
  case (Some ii)
  then obtain s rx where a: "regex = Some s" "\<not> xh_core_inited c" "alloc_ok env (heap_calls c)"
    "symbol = None \<or> alloc_ok env (Suc (heap_calls c))" "regcomp env s = Some rx"
    and ii: "ii = \<lparr>ii_pathname_regex = rx, ii_symbol = symbol\<rparr>"
    by (cases regex) (auto split: if_splits)
  let ?n = "if symbol = None then Suc (heap_calls c) else Suc (Suc (heap_calls c))"
  obtain q' where q': "append_new (heap_calls c) ii (xh_core_ignore_info c) = Inr q'" "holds ?n q' (is @ [ii])"
    using assms by (auto simp: core_ok_def queues_ok_def intro: holds_append [of _ _ "is" ?n ii])
  have "\<exists>c'. xh_core_ignore env regex symbol c = (Inr 0, c') \<and> core_ok c' hs (is @ [ii])"
    using a ii q' assms
    by (auto simp: xh_core_ignore_def bindE_def readE_def heap_run append_ignore_def storeE_def core_ok_def queues_ok_def
        intro: holds_Suc)
  then show ?thesis using that Some by auto
qed

section \<open>Clearing\<close>

lemma free_map_info_run:
  assumes "valid_tree path_key (xh_core_map_info c)"
  shows "free_map_info c = (Inr (), c\<lparr>xh_core_map_info := Leaf,
    heap_blocks := heap_blocks c - 2 * int (length (inorder (xh_core_map_info c)))\<rparr>)"
proof -
  have "fold (\<lambda>mi c. c\<lparr>heap_blocks := heap_blocks c - 2\<rparr>) xs c = c\<lparr>heap_blocks := heap_blocks c - 2 * int (length xs)\<rparr>"
    for xs :: "map_info list"
    by (induction xs arbitrary: c) simp_all
  then show ?thesis
    using mi.foreach_safe_free [OF assms order_refl, of "\<lambda>mi c. c\<lparr>heap_blocks := heap_blocks c - 2\<rparr>" c]
    by (simp add: free_map_info_def storeE_def Let_def)
qed

lemma free_hook_info_run:
  assumes "holds (heap_calls c) (xh_core_hook_info c) hs"
  obtains q where "free_hook_info c = (Inr (), c\<lparr>regexes := regexes c - int (length hs),
    heap_blocks := heap_blocks c - 2 * int (length hs), xh_core_hook_info := q\<rparr>)" and "holds 0 q []"
proof -
  let ?f = "\<lambda>hi c. c\<lparr>regexes := regexes c - 1, heap_blocks := heap_blocks c - 2\<rparr>"
  have f: "fold ?f xs c = c\<lparr>regexes := regexes c - int (length xs), heap_blocks := heap_blocks c - 2 * int (length xs)\<rparr>" for xs
    by (induction xs arbitrary: c) simp_all
  obtain q where "TAILQ_FOREACH_SAFE_free (heap_calls c) (tqh_first (xh_core_hook_info c)) ?f (xh_core_hook_info c) c =
      Inr (q, fold ?f hs c)" "holds 0 q []"
    by (rule holds_foreach_free [OF assms])
  then show ?thesis
    using that by (simp add: free_hook_info_def storeE_def Let_def f)
qed

lemma free_ignore_info_run:
  assumes "holds (heap_calls c) (xh_core_ignore_info c) is"
  obtains q where "free_ignore_info c = (Inr (), c\<lparr>regexes := regexes c - int (length is),
    heap_blocks := heap_blocks c - ignore_blocks is, xh_core_ignore_info := q\<rparr>)" and "holds 0 q []"
proof -
  let ?f = "\<lambda>ii c. c\<lparr>regexes := regexes c - 1, heap_blocks := heap_blocks c - (if ii_symbol ii = None then 1 else 2)\<rparr>"
  have f: "fold ?f xs c = c\<lparr>regexes := regexes c - int (length xs), heap_blocks := heap_blocks c - ignore_blocks xs\<rparr>" for xs
    by (induction xs arbitrary: c) simp_all
  obtain q where "TAILQ_FOREACH_SAFE_free (heap_calls c) (tqh_first (xh_core_ignore_info c)) ?f (xh_core_ignore_info c) c =
      Inr (q, fold ?f is c)" "holds 0 q []"
    by (rule holds_foreach_free [OF assms])
  then show ?thesis
    using that by (simp add: free_ignore_info_def storeE_def Let_def f)
qed

text \<open>The variables that \<open>xh_core_clear\<close> leaves alone: the pending request, the switches, and the saved action.\<close>

definition unswitched :: "'rx core \<Rightarrow> bool \<times> bool \<times> bool \<times> sigaction \<times> nat" where
  "unswitched c = (xh_core_refresh_thread_do c, xh_core_sigsegv_enable c, xh_core_sigsegv_flag c,
     xh_core_sigsegv_act_old c, xh_log_priority c)"

lemma clear_run:
  assumes "core_ok c hs is"
  shows "\<exists>c'. xh_core_clear c = (Inr (), c') \<and> core_ok c' [] [] \<and> xh_core_map_info c' = Leaf \<and> heap_blocks c' = 0 \<and>
    regexes c' = regexes c - int (length hs) - int (length is) \<and>
    \<not> xh_core_inited c' \<and> \<not> xh_core_init_ok c' \<and> \<not> xh_core_async_inited c' \<and> \<not> xh_core_async_init_ok c' \<and>
    xh_core_refresh_thread_running c' = (xh_core_refresh_thread_running c \<and> \<not> xh_core_async_init_ok c) \<and>
    sigsegv_action c' = (if xh_core_init_ok c \<and> xh_core_sigsegv_enable c then xh_core_sigsegv_act_old c else sigsegv_action c) \<and>
    unswitched c' = unswitched c"
proof -
  let ?c = "stop_threads_and_handler c"
  have same: "xh_core_hook_info ?c = xh_core_hook_info c" "xh_core_ignore_info ?c = xh_core_ignore_info c"
    "xh_core_map_info ?c = xh_core_map_info c" "heap_calls ?c = heap_calls c" "heap_blocks ?c = heap_blocks c"
    "regexes ?c = regexes c"
    "sigsegv_action ?c = (if xh_core_init_ok c \<and> xh_core_sigsegv_enable c then xh_core_sigsegv_act_old c else sigsegv_action c)"
    "\<not> xh_core_inited ?c" "\<not> xh_core_init_ok ?c" "\<not> xh_core_async_inited ?c" "\<not> xh_core_async_init_ok ?c"
    "xh_core_refresh_thread_running ?c = (xh_core_refresh_thread_running c \<and> \<not> xh_core_async_init_ok c)"
    "unswitched ?c = unswitched c"
    by (auto simp: stop_threads_and_handler_def xh_core_del_sigsegv_handler_def Let_def unswitched_def)
  let ?c1 = "?c\<lparr>xh_core_map_info := Leaf, heap_blocks := heap_blocks ?c - 2 * int (length (inorder (xh_core_map_info ?c)))\<rparr>"
  have 1: "free_map_info ?c = (Inr (), ?c1)"
    using assms same by (intro free_map_info_run) (simp add: core_ok_def queues_ok_def)
  obtain q where 2: "free_hook_info ?c1 = (Inr (), ?c1\<lparr>regexes := regexes ?c1 - int (length hs),
      heap_blocks := heap_blocks ?c1 - 2 * int (length hs), xh_core_hook_info := q\<rparr>)" (is "_ = (_, ?c2)") "holds 0 q []"
    using assms same by (auto simp: core_ok_def queues_ok_def intro: free_hook_info_run [of ?c1 hs])
  obtain q' where 3: "free_ignore_info ?c2 = (Inr (), ?c2\<lparr>regexes := regexes ?c2 - int (length is),
      heap_blocks := heap_blocks ?c2 - ignore_blocks is, xh_core_ignore_info := q'\<rparr>)" "holds 0 q' []"
    using assms same by (auto simp: core_ok_def queues_ok_def intro: free_ignore_info_run [of ?c2 "is"])
  show ?thesis
    using 1 2 3 assms same
    by (auto simp: xh_core_clear_def bindE_def sysE_def core_ok_def queues_ok_def valid_Leaf proper_paths_def unswitched_def
        intro: holds_mono)
qed

end
