(* ===== verification/RefreshSpec.thy ===== *)
theory RefreshSpec
  imports CoreSpec
begin

text \<open>
  What a refresh does, over maps from path names to base addresses instead of trees, and over the lists of hooks
  and ignores instead of queues; \<open>xh_core_refresh_impl\<close> refines it.
\<close>

section \<open>Which hooks apply\<close>

fun first_some :: "('a \<Rightarrow> 'b option) \<Rightarrow> 'a list \<Rightarrow> 'b option" where
  "first_some f [] = None"
| "first_some f (x # xs) = (case f x of None \<Rightarrow> first_some f xs | Some y \<Rightarrow> Some y)"

definition ignored_as :: "'rx env \<Rightarrow> 'rx ignore_info list \<Rightarrow> string \<Rightarrow> string \<Rightarrow> ignored option" where
  "ignored_as env is path symbol = first_some (ignore_verdict env path symbol) is"

text \<open>The hooks that \<open>xh_core_hook_impl\<close> sets in a file, in order.\<close>

fun hooks_for :: "'rx env \<Rightarrow> 'rx ignore_info list \<Rightarrow> string \<Rightarrow> 'rx hook_info list \<Rightarrow> 'rx hook_info list" where
  "hooks_for env is path [] = []"
| "hooks_for env is path (hi # hs) =
     (if regexec env (hi_pathname_regex hi) path
      then case ignored_as env is path (hi_symbol hi) of
          Some AllSymbols \<Rightarrow> []
        | Some ThisSymbol \<Rightarrow> hooks_for env is path hs
        | None \<Rightarrow> hi # hooks_for env is path hs
      else hooks_for env is path hs)"

text \<open>The decision of the refresh: the first hook whose expression matches is not ignored.\<close>

definition wanted :: "'rx env \<Rightarrow> 'rx hook_info list \<Rightarrow> 'rx ignore_info list \<Rightarrow> string \<Rightarrow> bool" where
  "wanted env hs is path \<longleftrightarrow> (case find (\<lambda>hi. regexec env (hi_pathname_regex hi) path) hs of
     None \<Rightarrow> False | Some hi \<Rightarrow> ignored_as env is path (hi_symbol hi) = None)"

fun run_hooks :: "'rx env \<Rightarrow> xh_elf \<Rightarrow> 'rx hook_info list \<Rightarrow> (world, unit) eff" where
  "run_hooks env elf [] = retE ()"
| "run_hooks env elf (hi # hs) =
     bindE (xh_elf_hook (env_os env) (env_arch env) elf (Some (hi_symbol hi)) (hi_new_func hi) (hi_old_func hi)) (\<lambda>_.
     run_hooks env elf hs)"

definition hook_file ::
    "'rx env \<Rightarrow> 'rx hook_info list \<Rightarrow> 'rx ignore_info list \<Rightarrow> string \<Rightarrow> addr \<Rightarrow> (world, unit) eff" where
  "hook_file env hs is path base =
     bindE (readE (\<lambda>w. xh_elf_init w xh_elf_zero base (Some path))) (\<lambda>(r, elf).
     if r \<noteq> 0 then retE () else run_hooks env elf (hooks_for env is path hs))"

lemma list_foreach_pure: "list_foreach xs (\<lambda>x. retE (f x)) s = (Inr (first_some f xs), s)"
  by (induction xs) (auto simp: bindE_def split: option.splits)

lemma find_ignore_run:
  assumes "holds (heap_calls c) (xh_core_ignore_info c) is"
  shows "find_ignore env c path symbol s = (Inr (ignored_as env is path symbol), s)"
  by (simp add: find_ignore_def holds_foreach [OF assms] list_foreach_pure ignored_as_def)

lemma find_ignore_ret:
  assumes "holds (heap_calls c) (xh_core_ignore_info c) is"
  shows "find_ignore env c path symbol = retE (ignored_as env is path symbol)"
  using find_ignore_run [OF assms] by (auto intro!: ext)

lemma bindE_retE [simp]: "bindE (retE x) f = f x"
  by (auto simp: bindE_def)

lemma check_pathname_ret:
  assumes "queues_ok c hs is"
  shows "(check_pathname env c path :: ('s, bool) eff) = retE (wanted env hs is path)"
proof -
  have q: "holds (heap_calls c) (xh_core_hook_info c) hs" "holds (heap_calls c) (xh_core_ignore_info c) is"
    using assms by (simp_all add: queues_ok_def)
  have "list_foreach hs (\<lambda>hi. if regexec env (hi_pathname_regex hi) path then
        (case ignored_as env is path (hi_symbol hi) of Some AllSymbols \<Rightarrow> retE (Some False)
         | Some ThisSymbol \<Rightarrow> retE (Some False) | None \<Rightarrow> retE (Some True))
      else retE None) s = (Inr (map_option (\<lambda>hi. ignored_as env is path (hi_symbol hi) = None)
        (find (\<lambda>hi. regexec env (hi_pathname_regex hi) path) hs)), s)" for s :: 's
    by (induction hs) (auto simp: bindE_def split: option.splits ignored.splits)
  then show ?thesis
    unfolding check_pathname_def holds_foreach [OF q(1)] find_ignore_ret [OF q(2)] bindE_retE
    by (intro ext) (auto simp: bindE_def wanted_def split: option.splits)
qed

lemma bindE_assoc: "bindE (bindE m f) g = bindE m (\<lambda>x. bindE (f x) g)"
  by (intro ext) (auto simp: bindE_def split: prod.splits sum.splits)

lemma verdict_cases: obtains "v = None" | "v = Some AllSymbols" | "v = Some ThisSymbol"
  by (cases v; cases "the v") auto

lemma run_hooks_foreach:
  "bindE (list_foreach hs (\<lambda>hi. if regexec env (hi_pathname_regex hi) path then
      (case ignored_as env is path (hi_symbol hi) of
        Some AllSymbols \<Rightarrow> retE (Some ())
      | Some ThisSymbol \<Rightarrow> retE None
      | None \<Rightarrow> bindE (xh_elf_hook (env_os env) (env_arch env) elf (Some (hi_symbol hi)) (hi_new_func hi) (hi_old_func hi))
          (\<lambda>_. retE None))
    else retE None)) (\<lambda>_. retE ()) = run_hooks env elf (hooks_for env is path hs)"
proof (induction hs)
  case (Cons hi hs)
  then show ?case
    by (cases "regexec env (hi_pathname_regex hi) path"; cases "ignored_as env is path (hi_symbol hi)" rule: verdict_cases)
      (simp_all add: bindE_assoc del: retE_simps)
qed (simp del: retE_simps)

text \<open>The functional behaviour of \<open>xh_core_hook_impl\<close>.\<close>

lemma hook_impl_file:
  assumes "queues_ok c hs is"
  shows "xh_core_hook_impl env c mi = hook_file env hs is (mi_pathname mi) (mi_base_addr mi)"
proof -
  have q: "holds (heap_calls c) (xh_core_hook_info c) hs" "holds (heap_calls c) (xh_core_ignore_info c) is"
    using assms by (simp_all add: queues_ok_def)
  show ?thesis
    unfolding xh_core_hook_impl_def holds_foreach [OF q(1)] find_ignore_ret [OF q(2)] bindE_retE
      hook_file_def run_hooks_foreach ..
qed

section \<open>Protection from SIGSEGV\<close>

text \<open>\<open>m\<close> with its faults turned into the result \<open>d\<close> when \<open>on\<close>.\<close>

definition catching :: "bool \<Rightarrow> 'a \<Rightarrow> (world, 'a) eff \<Rightarrow> (world, 'a) eff" where
  "catching on d m w = (case m w of
       (Inl Segv, w') \<Rightarrow> if on then (Inr d, w') else (Inl Segv, w')
     | r \<Rightarrow> r)"

text \<open>The handler is installed if the code relies on it, and no region is being protected.\<close>

definition guarded :: "'rx core \<Rightarrow> bool" where
  "guarded c \<longleftrightarrow> (xh_core_sigsegv_enable c \<longrightarrow> sigsegv_action c = XhHandler) \<and> \<not> xh_core_sigsegv_flag c"

text \<open>\<open>m\<close> leaves the globals alone and does to the memory what \<open>s\<close> does; \<open>s\<close> may not return where \<open>m\<close> does not.\<close>

definition mem_only :: "'rx core \<Rightarrow> ('rx, 'a) proc \<Rightarrow> (world, 'a) eff \<Rightarrow> bool" where
  "mem_only c m s \<longleftrightarrow> (\<forall>w. case s w of
       (Inr x, w') \<Rightarrow> m (c, w) = (Inr x, (c, w'))
     | (Inl t, w') \<Rightarrow> \<exists>c'. m (c, w) = (Inl t, (c', w')))"

lemma mem_only_cases:
  assumes "mem_only c m s"
  obtains (returns) x w' where "s w = (Inr x, w')" and "m (c, w) = (Inr x, (c, w'))"
    | (traps) t w' c' where "s w = (Inl t, w')" and "m (c, w) = (Inl t, (c', w'))"
proof (cases "s w")
  case (Pair r w')
  then show ?thesis
    using assms that by (cases r) (fastforce simp: mem_only_def split: prod.splits sum.splits)+
qed

lemma mem_only_on_mem: "mem_only c (on_mem m) m"
  by (auto simp: mem_only_def on_mem_def split: prod.splits sum.splits)

lemma core_flag_id: "\<not> xh_core_sigsegv_flag c \<Longrightarrow> c\<lparr>xh_core_sigsegv_flag := False\<rparr> = c"
  by (cases c) simp

lemma protected_block:
  assumes "guarded c" and "xh_core_sigsegv_enable c"
  shows "mem_only c
    (bindE (put_core (xh_core_sigsegv_flag_update (\<lambda>_. True))) (\<lambda>_.
     bindE (sigsetjmp_block (on_mem m)) (\<lambda>r.
     bindE (put_core (xh_core_sigsegv_flag_update (\<lambda>_. False))) (\<lambda>_.
     retE (case r of Some x \<Rightarrow> x | None \<Rightarrow> d))))) (catching True d m)"
proof -
  have h: "sigsegv_action c = XhHandler" "c\<lparr>xh_core_sigsegv_flag := False\<rparr> = c"
    using assms by (auto simp: guarded_def core_flag_id)
  show ?thesis
    using h by (auto simp: mem_only_def catching_def bindE_def put_core_def sysE_def sigsetjmp_block_def on_mem_def
        xh_core_sigsegv_handler_def split: prod.splits sum.splits trap.splits)
qed

lemma bindE_Pair: "bindE (Pair (Inr x)) f = f x"
  by (auto simp: bindE_def)

lemma bindE_runs:
  "m s = (Inr x, s') \<Longrightarrow> bindE m f s = f x s'"
  "m s = (Inl t, s') \<Longrightarrow> bindE m f s = (Inl t, s')"
  by (simp_all add: bindE_def)

lemma get_core_run: "bindE get_core f (c, w) = f c (c, w)"
  by (simp add: bindE_def get_core_def readE_def)

lemma mem_only_get: "mem_only c (bindE get_core f) s = mem_only c (f c) s"
  by (simp only: mem_only_def get_core_run)

lemma catching_off: "catching False d m = m"
  by (auto simp: catching_def split: prod.splits sum.splits trap.splits)

lemma catching_Segv: "catching on d m w = (Inl tr, w') \<Longrightarrow> on \<Longrightarrow> tr \<noteq> Segv"
  by (auto simp: catching_def split: prod.splits sum.splits trap.splits)

lemma bindE_unit: "bindE m retE = m"
  by (intro ext) (auto simp: bindE_def split: prod.splits sum.splits)

lemma check_elf_header_mem:
  assumes "guarded c"
  shows "mem_only c (xh_core_check_elf_header env base path)
    (catching (xh_core_sigsegv_enable c) XH_ERRNO_SEGVERR (readE (\<lambda>w. xh_elf_check_elfheader (env_arch env) w base)))"
proof (cases "xh_core_sigsegv_enable c")
  case True
  with protected_block [OF assms True] show ?thesis
    by (simp add: xh_core_check_elf_header_def mem_only_get)
next
  case False
  then show ?thesis
    by (simp add: xh_core_check_elf_header_def mem_only_get catching_off mem_only_on_mem)
qed

lemma hook_mem:
  assumes "guarded c" and "queues_ok c hs is"
  shows "mem_only c (xh_core_hook env mi)
    (catching (xh_core_sigsegv_enable c) () (hook_file env hs is (mi_pathname mi) (mi_base_addr mi)))"
proof (cases "xh_core_sigsegv_enable c")
  case True
  have "(case r of None \<Rightarrow> () | Some x \<Rightarrow> x) = ()" for r
    by simp
  with protected_block [OF assms(1) True, of "hook_file env hs is (mi_pathname mi) (mi_base_addr mi)" "()"] True
  show ?thesis
    by (simp add: xh_core_hook_def mem_only_get hook_impl_file [OF assms(2)] bindE_unit del: retE_simps)
next
  case False
  then show ?thesis
    by (simp add: xh_core_hook_def mem_only_get catching_off mem_only_on_mem hook_impl_file [OF assms(2)])
qed

section \<open>The abstract refresh\<close>

text \<open>The map of a tree from path names to base addresses.\<close>

definition bases :: "map_info rbt \<Rightarrow> string \<Rightarrow> addr option" where
  "bases t k = map_option mi_base_addr (entry path_key t k)"

text \<open>The file a line asks to hook: its path name and base address.\<close>

definition candidate ::
    "'rx env \<Rightarrow> 'rx hook_info list \<Rightarrow> 'rx ignore_info list \<Rightarrow> string \<Rightarrow> (string \<times> addr) option res" where
  "candidate env hs is line =
     (case scan_refresh_line line of None \<Rightarrow> Inr None
      | Some (base, perm, offset, pos) \<Rightarrow>
        if perm_at perm 0 \<noteq> CHR ''r'' \<or> perm_at perm 3 \<noteq> CHR ''p'' \<or> offset \<noteq> 0 then Inr None
        else case pos of None \<Rightarrow> Inl Undef | Some pos \<Rightarrow>
        case line_pathname line pos of None \<Rightarrow> Inr None
        | Some path \<Rightarrow> Inr (if wanted env hs is path then Some (path, base) else None))"

text \<open>
  A file that is recorded already in this refresh is left alone; another one is recorded, and hooked unless
  the last refresh recorded it at the same address.
\<close>

definition note_file ::
    "'rx env \<Rightarrow> 'rx hook_info list \<Rightarrow> 'rx ignore_info list \<Rightarrow> bool \<Rightarrow> (string \<Rightarrow> addr option) \<Rightarrow> addr \<Rightarrow> string
      \<Rightarrow> (string \<Rightarrow> addr option) \<Rightarrow> (world, string \<Rightarrow> addr option) eff" where
  "note_file env hs is on old base path new =
     (if new path \<noteq> None then retE new
      else bindE (if old path = Some base then retE () else catching on () (hook_file env hs is path base)) (\<lambda>_.
        retE (new(path \<mapsto> base))))"

definition note_line ::
    "'rx env \<Rightarrow> 'rx hook_info list \<Rightarrow> 'rx ignore_info list \<Rightarrow> bool \<Rightarrow> (string \<Rightarrow> addr option) \<Rightarrow> string
      \<Rightarrow> (string \<Rightarrow> addr option) \<Rightarrow> (world, string \<Rightarrow> addr option) eff" where
  "note_line env hs is on old line new =
     bindE (readE (\<lambda>_. candidate env hs is line)) (\<lambda>file.
     case file of None \<Rightarrow> retE new | Some (path, base) \<Rightarrow>
     bindE (catching on XH_ERRNO_SEGVERR (readE (\<lambda>w. xh_elf_check_elfheader (env_arch env) w base))) (\<lambda>r.
     if r \<noteq> 0 then retE new else note_file env hs is on old base path new))"

fun note_lines ::
    "'rx env \<Rightarrow> 'rx hook_info list \<Rightarrow> 'rx ignore_info list \<Rightarrow> bool \<Rightarrow> (string \<Rightarrow> addr option) \<Rightarrow> string list
      \<Rightarrow> (string \<Rightarrow> addr option) \<Rightarrow> (world, string \<Rightarrow> addr option) eff" where
  "note_lines env hs is on old [] new = retE new"
| "note_lines env hs is on old (line # lines) new =
     bindE (note_line env hs is on old line new) (note_lines env hs is on old lines)"

definition abstract_refresh ::
    "'rx env \<Rightarrow> 'rx hook_info list \<Rightarrow> 'rx ignore_info list \<Rightarrow> bool \<Rightarrow> (string \<Rightarrow> addr option)
      \<Rightarrow> (world, string \<Rightarrow> addr option) eff" where
  "abstract_refresh env hs is on old =
     bindE (readE (\<lambda>w. Inr (proc_maps (env_os env) w))) (\<lambda>fp.
     case fp of None \<Rightarrow> retE old
     | Some text \<Rightarrow> note_lines env hs is on old (fgets_lines text) Map.empty)"

section \<open>The state during a refresh\<close>

text \<open>
  \<open>old\<close> holds the entries at the start. The tree of the globals still has those of them that are not in the new tree,
  and the blocks that are not freed belong to the queues and the two trees.
\<close>

definition refreshing ::
    "'rx core \<Rightarrow> map_info rbt \<Rightarrow> 'rx hook_info list \<Rightarrow> 'rx ignore_info list \<Rightarrow> (string \<Rightarrow> map_info option) \<Rightarrow> bool" where
  "refreshing c t hs is old \<longleftrightarrow>
     queues_ok c hs is \<and> guarded c \<and> valid_tree path_key (xh_core_map_info c) \<and> valid_tree path_key t \<and>
     proper_paths t \<and> (\<forall>k mi. old k = Some mi \<longrightarrow> mi_pathname mi = k) \<and>
     (\<forall>k. entry path_key (xh_core_map_info c) k = (if entry path_key t k = None then old k else None)) \<and>
     heap_blocks c = 2 * int (length hs) + ignore_blocks is +
       2 * int (length (inorder (xh_core_map_info c))) + 2 * int (length (inorder t))"

text \<open>The globals differ in the tree and in the counters of the heap.\<close>

definition alike :: "'rx core \<Rightarrow> 'rx core \<Rightarrow> bool" where
  "alike c c' \<longleftrightarrow> (\<exists>t a b. heap_calls c \<le> a \<and> c' = c\<lparr>xh_core_map_info := t, heap_calls := a, heap_blocks := b\<rparr>)"

lemma alikeI: "heap_calls c \<le> a \<Longrightarrow> alike c (c\<lparr>xh_core_map_info := t, heap_calls := a, heap_blocks := b\<rparr>)"
  by (auto simp: alike_def)

lemma alike_refl [simp]: "alike c c"
  unfolding alike_def by (intro exI [of _ "xh_core_map_info c"] exI [of _ "heap_calls c"] exI [of _ "heap_blocks c"]) simp

lemma alike_trans: "alike a b \<Longrightarrow> alike b c \<Longrightarrow> alike a c"
  unfolding alike_def [of a b] alike_def [of b c] by (elim exE conjE) (simp add: alikeI)

lemma alike_eqs:
  assumes "alike c c'"
  shows "xh_core_sigsegv_enable c' = xh_core_sigsegv_enable c" "guarded c' = guarded c"
    "queues_ok c hs is \<Longrightarrow> queues_ok c' hs is"
  using assms by (auto simp: alike_def guarded_def queues_ok_def intro: holds_mono)

lemma entry_SomeD: "entry key t k = Some x \<Longrightarrow> key x = k"
  unfolding entry_def by (drule keyed_SomeD) simp

text \<open>The lengths of the trees follow their entries.\<close>

lemma length_insert:
  assumes "valid_tree key t" and "valid_tree key t'" and "entry key t' = (entry key t)(k \<mapsto> x)" and "entry key t k = None"
  shows "length (inorder t') = Suc (length (inorder t))"
proof -
  have "dom (entry key t') = insert k (dom (entry key t))" unfolding assms(3) by simp
  moreover have "k \<notin> dom (entry key t)" using assms(4) by auto
  ultimately show ?thesis
    using entry_card [OF assms(1)] entry_card(2) [OF assms(2)] by simp
qed

lemma length_remove:
  assumes "valid_tree key t" and "valid_tree key t'" and "entry key t' = (entry key t)(k := None)" and "entry key t k = Some x"
  shows "length (inorder t) = Suc (length (inorder t'))"
proof -
  have "k \<in> dom (entry key t)" using assms(4) by blast
  then have "card (dom (entry key t)) = Suc (card (dom (entry key t) - {k}))"
    by (rule card.remove [OF entry_card(1) [OF assms(1)]])
  moreover have "card (dom (entry key t')) = card (dom (entry key t) - {k})"
    unfolding assms(3) by simp
  ultimately show ?thesis
    by (simp add: entry_card(2) [OF assms(1)] entry_card(2) [OF assms(2)])
qed

lemma rb_remove_old_run:
  assumes "valid_tree path_key (xh_core_map_info c)" and "entry path_key (xh_core_map_info c) k = Some mi"
  obtains t where "rb_remove_old mi (c, w) = (Inr (), (c\<lparr>xh_core_map_info := t\<rparr>, w))" and "valid_tree path_key t"
    and "entry path_key t = (entry path_key (xh_core_map_info c))(k := None)"
    and "length (inorder (xh_core_map_info c)) = Suc (length (inorder t))"
proof -
  have k: "path_key mi = k" using assms(2) by (rule entry_SomeD)
  obtain t where t: "rb_remove xh_core_map_info_cmp mi (xh_core_map_info c) = Some t" "valid_tree path_key t"
    "entry path_key t = (entry path_key (xh_core_map_info c))(k := None)"
    using mi.remove_entry [OF assms(1), of mi mi] assms(2) k by auto
  moreover have "rb_remove_old mi (c, w) = (Inr (), (c\<lparr>xh_core_map_info := t\<rparr>, w))"
    using t(1) by (simp add: rb_remove_old_def storeE_def derefE_def)
  ultimately show ?thesis
    using that length_remove [OF assms(1) t(2,3) assms(2)] by blast
qed

lemma rb_insert_new_run:
  assumes "valid_tree path_key t" and "entry path_key t (path_key mi) = None"
  obtains t' where "rb_insert_new mi t s = (Inr (None, t'), s)" and "valid_tree path_key t'"
    and "entry path_key t' = (entry path_key t)(path_key mi \<mapsto> mi)"
    and "length (inorder t') = Suc (length (inorder t))"
proof -
  obtain t' where t': "rb_insert xh_core_map_info_cmp mi t = Some (None, t')" "valid_tree path_key t'"
    "entry path_key t' = (entry path_key t)(path_key mi \<mapsto> mi)"
    using mi.insert_absent [OF assms] by auto
  moreover have "rb_insert_new mi t s = (Inr (None, t'), s)"
    using t'(1) by (simp add: rb_insert_new_def readE_def derefE_def)
  ultimately show ?thesis
    using that length_insert [OF assms(1) t'(2,3) assms(2)] by blast
qed

lemma rb_insert_new_repeated:
  assumes "valid_tree path_key t" and "entry path_key t (path_key mi) = Some x"
  shows "rb_insert_new mi t s = (Inr (Some x, t), s)"
  using mi.insert_present [OF assms] by (simp add: rb_insert_new_def readE_def derefE_def)

lemma set_base_addr_tree:
  assumes "valid_tree path_key t" and "entry path_key t (path_key mi) = Some mi"
  shows "valid_tree path_key (set_base_addr mi base t)"
    and "entry path_key (set_base_addr mi base t) = (entry path_key t)(path_key mi \<mapsto> mi\<lparr>mi_base_addr := base\<rparr>)"
    and "length (inorder (set_base_addr mi base t)) = length (inorder t)"
proof -
  let ?f = "\<lambda>m. if m = mi then m\<lparr>mi_base_addr := base\<rparr> else m"
  have f: "path_key (?f x) = path_key x" for x by (simp add: path_key_def)
  note stored = map_valid [of path_key t ?f, OF assms(1) f]
  show "valid_tree path_key (set_base_addr mi base t)"
    unfolding set_base_addr_def by (rule stored)
  show "length (inorder (set_base_addr mi base t)) = length (inorder t)"
    by (simp add: set_base_addr_def inorder_map)
  have "entry path_key (set_base_addr mi base t) k =
      ((entry path_key t)(path_key mi \<mapsto> mi\<lparr>mi_base_addr := base\<rparr>)) k" for k
  proof (cases "k = path_key mi")
    case True
    then show ?thesis
      by (simp add: set_base_addr_def stored(2) assms(2))
  next
    case False
    then have "entry path_key t k \<noteq> Some mi" using entry_SomeD by metis
    then show ?thesis
      using False by (cases "entry path_key t k") (simp_all add: set_base_addr_def stored(2))
  qed
  then show "entry path_key (set_base_addr mi base t) = (entry path_key t)(path_key mi \<mapsto> mi\<lparr>mi_base_addr := base\<rparr>)"
    by (rule ext)
qed

section \<open>One file\<close>

lemma bases_upd: "entry path_key t' = (entry path_key t)(k \<mapsto> mi) \<Longrightarrow> bases t' = (bases t)(k \<mapsto> mi_base_addr mi)"
  by (auto simp: bases_def fun_eq_iff)

lemma find_path:
  assumes "valid_tree path_key t" and "c_str path = path"
  shows "rb_find xh_core_map_info_cmp \<lparr>mi_pathname = path, mi_base_addr = 0\<rparr> t = entry path_key t path"
  using mi.find_entry [OF assms(1)] assms(2) by (simp add: path_key_def)

definition old_bases :: "(string \<Rightarrow> map_info option) \<Rightarrow> string \<Rightarrow> addr option" where
  "old_bases old k = map_option mi_base_addr (old k)"

lemma refreshing_store:
  assumes "refreshing c t hs is old" and "entry path_key t (path_key mi) = Some mi" and "path_key mi = mi_pathname mi"
  shows "refreshing c (set_base_addr mi base t) hs is old"
proof -
  have v: "valid_tree path_key t" "proper_paths t" using assms(1) by (simp_all add: refreshing_def)
  note t' = set_base_addr_tree [OF v(1) assms(2), of base]
  have "proper_paths (set_base_addr mi base t)"
    using v(2) assms(3) by (simp add: proper_paths_def t'(2))
  moreover have "(entry path_key (set_base_addr mi base t) k = None) = (entry path_key t k = None)" for k
    using assms(2) by (simp add: t'(2))
  ultimately show ?thesis
    using assms(1) t'(1,3) by (simp add: refreshing_def)
qed

text \<open>
  How the code and the abstract step end together, if no allocation fails. Without protection a fault may end them, never with it.
\<close>

definition step_ok ::
    "'rx env \<Rightarrow> 'rx hook_info list \<Rightarrow> 'rx ignore_info list \<Rightarrow> (string \<Rightarrow> map_info option) \<Rightarrow> 'rx core \<Rightarrow>
      ('rx, map_info rbt) proc \<Rightarrow> (world, string \<Rightarrow> addr option) eff \<Rightarrow> world \<Rightarrow> bool" where
  "step_ok env hs is old c m s w \<longleftrightarrow> (case m (c, w) of
       (Inl tr, (c', w')) \<Rightarrow> (xh_core_sigsegv_enable c \<longrightarrow> tr \<noteq> Segv) \<and>
         ((\<forall>n. alloc_ok env n) \<longrightarrow> s w = (Inl tr, w'))
     | (Inr t', (c', w')) \<Rightarrow> alike c c' \<and> refreshing c' t' hs is old \<and>
         ((\<forall>n. alloc_ok env n) \<longrightarrow> s w = (Inr (bases t'), w')))"

lemma item_known:
  assumes r: "refreshing c t hs is old" and path: "c_str path = path"
    and mi: "entry path_key (xh_core_map_info c) path = Some mi"
  shows "step_ok env hs is old c (refresh_item env base path t)
    (note_file env hs is (xh_core_sigsegv_enable c) (old_bases old) base path (bases t)) w"
proof -
  have v: "valid_tree path_key (xh_core_map_info c)" "valid_tree path_key t" "guarded c" "queues_ok c hs is"
    using r by (simp_all add: refreshing_def)
  have e: "entry path_key t path = None" "old path = Some mi" "mi_pathname mi = path" "path_key mi = path"
    using r mi entry_SomeD [OF mi] by (auto simp: refreshing_def split: if_splits)
  obtain t1 where t1: "rb_remove_old mi (c, w) = (Inr (), (c\<lparr>xh_core_map_info := t1\<rparr>, w))" "valid_tree path_key t1"
    "entry path_key t1 = (entry path_key (xh_core_map_info c))(path := None)"
    "length (inorder (xh_core_map_info c)) = Suc (length (inorder t1))"
    by (rule rb_remove_old_run [OF v(1) mi])
  let ?c = "c\<lparr>xh_core_map_info := t1\<rparr>"
  obtain t2 where t2: "rb_insert_new mi t (?c, w) = (Inr (None, t2), (?c, w))" "valid_tree path_key t2"
    "entry path_key t2 = (entry path_key t)(path \<mapsto> mi)" "length (inorder t2) = Suc (length (inorder t))"
    using rb_insert_new_run [OF v(2), of mi "(?c, w)"] e by auto
  have run: "refresh_item env base path t (c, w) = (if mi_base_addr mi = base then (Inr t2, (?c, w))
      else bindE (xh_core_hook env (mi\<lparr>mi_base_addr := base\<rparr>)) (\<lambda>_. retE (set_base_addr mi base t2)) (?c, w))"
    using t1(1) t2(1) find_path [OF v(1) path] mi by (simp add: refresh_item_def get_core_run bindE_runs)
  have c: "alike c ?c" by (auto simp: alike_def intro!: exI [of _ "heap_calls c"] exI [of _ "heap_blocks c"])
  have r2: "refreshing ?c t2 hs is old"
    using r t1(2-4) t2(2-4) e alike_eqs [OF c]
    by (auto simp: refreshing_def proper_paths_def)
  have new: "bases t path = None" by (simp add: bases_def e(1))
  have b2: "bases t2 = (bases t)(path \<mapsto> mi_base_addr mi)"
    using t2(3) by (rule bases_upd)
  show ?thesis
  proof (cases "mi_base_addr mi = base")
    case True
    then show ?thesis
      using run c r2 new b2 e(2) by (simp add: step_ok_def note_file_def old_bases_def)
  next
    case False
    let ?s = "catching (xh_core_sigsegv_enable c) () (hook_file env hs is path base)"
    have "mem_only ?c (xh_core_hook env (mi\<lparr>mi_base_addr := base\<rparr>)) ?s"
      using hook_mem [of ?c hs "is" env "mi\<lparr>mi_base_addr := base\<rparr>"] v(3,4) c e(3) by (simp add: alike_eqs)
    then show ?thesis
    proof (cases rule: mem_only_cases [where w = w])
      case (returns x w')
      have e2: "entry path_key t2 (path_key mi) = Some mi" using t2(3) e(4) by simp
      have "entry path_key (set_base_addr mi base t2) = (entry path_key t)(path \<mapsto> mi\<lparr>mi_base_addr := base\<rparr>)"
        unfolding set_base_addr_tree(2) [OF t2(2) e2] t2(3) e(4) by simp
      from bases_upd [OF this] have "bases (set_base_addr mi base t2) = (bases t)(path \<mapsto> base)"
        by simp
      moreover have "refreshing ?c (set_base_addr mi base t2) hs is old"
        using e by (intro refreshing_store [OF r2 e2]) simp
      ultimately show ?thesis
        using run returns False c new e(2) by (simp add: step_ok_def note_file_def old_bases_def bindE_runs)
    next
      case (traps tr w' c')
      then show ?thesis
        using run False new e(2) catching_Segv [OF traps(1)]
        by (simp add: step_ok_def note_file_def old_bases_def bindE_runs)
    qed
  qed
qed

lemma refreshing_heap:
  assumes "refreshing c t hs is old" and "heap_calls c \<le> a"
  shows "alike c (c\<lparr>heap_calls := a, heap_blocks := b\<rparr>)" and "alike c (c\<lparr>heap_calls := a\<rparr>)"
    and "refreshing (c\<lparr>heap_calls := a\<rparr>) t hs is old"
proof -
  show a: "alike c (c\<lparr>heap_calls := a, heap_blocks := b\<rparr>)" for b
    using assms(2) unfolding alike_def by (intro exI [of _ "xh_core_map_info c"] exI [of _ a] exI [of _ b]) simp
  show b: "alike c (c\<lparr>heap_calls := a\<rparr>)"
    using a [of "heap_blocks c"] by simp
  show "refreshing (c\<lparr>heap_calls := a\<rparr>) t hs is old"
    using assms(1) alike_eqs(2,3) [OF b] by (simp add: refreshing_def)
qed

text \<open>The state after the two allocations of a new record, and what follows them.\<close>

lemma item_run_unknown:
  assumes "valid_tree path_key (xh_core_map_info c)" and "c_str path = path"
    and "entry path_key (xh_core_map_info c) path = None"
  shows "refresh_item env base path t (c, w) =
    (if \<not> alloc_ok env (heap_calls c) then (Inr t, (c\<lparr>heap_calls := Suc (heap_calls c)\<rparr>, w))
     else if \<not> alloc_ok env (Suc (heap_calls c))
     then (Inr t, (c\<lparr>heap_calls := Suc (Suc (heap_calls c))\<rparr>, w))
     else bindE (rb_insert_new \<lparr>mi_pathname = path, mi_base_addr = base\<rparr> t) (\<lambda>(repeated, t).
       if repeated \<noteq> None then bindE (on_core (free_blocks 2)) (\<lambda>_. retE t)
       else bindE (xh_core_hook env \<lparr>mi_pathname = path, mi_base_addr = base\<rparr>) (\<lambda>_. retE t))
       (c\<lparr>heap_calls := Suc (Suc (heap_calls c)), heap_blocks := heap_blocks c + 2\<rparr>, w))"
  using assms find_path [OF assms(1,2)]
  by (cases "alloc_ok env (heap_calls c)"; cases "alloc_ok env (Suc (heap_calls c))")
    (simp_all add: refresh_item_def get_core_run on_core_def heap_run bindE_runs Let_def add.commute)

lemma item_unknown:
  assumes r: "refreshing c t hs is old" and path: "c_str path = path"
    and none: "entry path_key (xh_core_map_info c) path = None"
  shows "step_ok env hs is old c (refresh_item env base path t)
    (note_file env hs is (xh_core_sigsegv_enable c) (old_bases old) base path (bases t)) w"
proof -
  have v: "valid_tree path_key (xh_core_map_info c)" "valid_tree path_key t" "guarded c" "queues_ok c hs is"
    using r by (simp_all add: refreshing_def)
  let ?n = "heap_calls c" and ?mi = "\<lparr>mi_pathname = path, mi_base_addr = base\<rparr>"
  let ?c = "c\<lparr>heap_calls := Suc (Suc ?n), heap_blocks := heap_blocks c + 2\<rparr>"
  have key: "path_key ?mi = path" using path by (simp add: path_key_def)
  note run = item_run_unknown [OF v(1) path none, of env base t w]
  consider "\<not> alloc_ok env ?n \<or> \<not> alloc_ok env (Suc ?n)"
    | x where "alloc_ok env ?n" "alloc_ok env (Suc ?n)" "entry path_key t path = Some x"
    | "alloc_ok env ?n" "alloc_ok env (Suc ?n)" "entry path_key t path = None"
    by (cases "entry path_key t path") auto
  then show ?thesis
  proof cases
    case 1
    then show ?thesis
      using run refreshing_heap [OF r, of "Suc ?n"] refreshing_heap [OF r, of "Suc (Suc ?n)"]
      by (auto simp: step_ok_def)
  next
    case 2
    then show ?thesis
      using run rb_insert_new_repeated [OF v(2), of ?mi x "(?c, w)"] key refreshing_heap [OF r, of "Suc (Suc ?n)"]
      by (simp add: step_ok_def bindE_runs on_core_def free_blocks_run note_file_def bases_def)
  next
    case 3
    obtain t2 where t2: "rb_insert_new ?mi t (?c, w) = (Inr (None, t2), (?c, w))" "valid_tree path_key t2"
      "entry path_key t2 = (entry path_key t)(path \<mapsto> ?mi)" "length (inorder t2) = Suc (length (inorder t))"
      using rb_insert_new_run [OF v(2), of ?mi "(?c, w)"] key 3(3) by auto
    have c: "alike c ?c" by (rule refreshing_heap(1) [OF r]) simp
    have old: "old path = None" using r none 3(3) by (auto simp: refreshing_def)
    have r2: "refreshing ?c t2 hs is old"
      using r t2(2-4) old alike_eqs(2,3) [OF c] 3(3) none by (auto simp: refreshing_def proper_paths_def)
    have b2: "bases t2 = (bases t)(path \<mapsto> base)" "bases t path = None"
      using bases_upd [OF t2(3)] 3(3) by (simp_all add: bases_def)
    have "mem_only ?c (xh_core_hook env ?mi) (catching (xh_core_sigsegv_enable c) () (hook_file env hs is path base))"
      using hook_mem [of ?c hs "is" env ?mi] v(3,4) c by (simp add: alike_eqs)
    then show ?thesis
    proof (cases rule: mem_only_cases [where w = w])
      case (returns x w')
      then show ?thesis
        using run 3(1,2) t2(1) c r2 b2 old by (simp add: step_ok_def note_file_def old_bases_def bindE_runs)
    next
      case (traps tr w' c')
      then show ?thesis
        using run 3(1,2) t2(1) b2 old catching_Segv [OF traps(1)]
        by (simp add: step_ok_def note_file_def old_bases_def bindE_runs)
    qed
  qed
qed

lemma item_step:
  assumes "refreshing c t hs is old" and "c_str path = path"
  shows "step_ok env hs is old c (refresh_item env base path t)
    (note_file env hs is (xh_core_sigsegv_enable c) (old_bases old) base path (bases t)) w"
  using item_known [OF assms] item_unknown [OF assms] by (cases "entry path_key (xh_core_map_info c) path") auto

section \<open>Lines, and the whole refresh\<close>

lemma step_ok_ret: "refreshing c t hs is old \<Longrightarrow> step_ok env hs is old c (retE t) (retE (bases t)) w"
  by (simp add: step_ok_def)

lemma step_ok_move:
  assumes "step_ok env hs is old c m' s' w'" and "m (c, w) = m' (c, w')" and "s w = s' w'"
  shows "step_ok env hs is old c m s w"
  using assms(1) unfolding step_ok_def assms(2,3) .

lemma step_ok_bind:
  assumes m: "step_ok env hs is old c m s w"
    and f: "\<And>c' t' w'. alike c c' \<Longrightarrow> refreshing c' t' hs is old \<Longrightarrow> step_ok env hs is old c' (f t') (g (bases t')) w'"
  shows "step_ok env hs is old c (bindE m f) (bindE s g) w"
proof (cases "m (c, w)")
  case (fields r c1 w1)
  show ?thesis
  proof (cases r)
    case (Inl tr)
    then show ?thesis
      using m fields by (auto simp: step_ok_def bindE_runs)
  next
    case (Inr t1)
    then have 1: "alike c c1" "refreshing c1 t1 hs is old" "(\<forall>n. alloc_ok env n) \<longrightarrow> s w = (Inr (bases t1), w1)"
      using m fields by (simp_all add: step_ok_def)
    from f [OF 1(1,2), of w1] show ?thesis
      using 1 Inr fields alike_eqs(1) [OF 1(1)] alike_trans [OF 1(1)]
      by (auto simp: step_ok_def bindE_runs split: prod.splits sum.splits)
  qed
qed

lemma line_pathname_NUL:
  assumes "line_pathname line pos = Some path"
  shows "c_str path = path"
proof -
  have "CHR 0x00 \<notin> set (c_str s)" "CHR 0x00 \<notin> set (butlast (c_str s))" for s
    by (auto simp: c_str_def dest: in_set_butlastD set_takeWhileD)
  then show ?thesis
    using assms by (auto simp: line_pathname_def Let_def intro: c_str_no_NUL split: if_splits)
qed

lemma candidate_NUL: "candidate env hs is line = Inr (Some (path, base)) \<Longrightarrow> c_str path = path"
  by (auto simp: candidate_def dest: line_pathname_NUL split: option.splits if_splits)

lemma refresh_line_run:
  assumes "queues_ok c hs is"
  shows "refresh_line env line t (c, w) = (case candidate env hs is line of
      Inl tr \<Rightarrow> (Inl tr, (c, w)) | Inr None \<Rightarrow> (Inr t, (c, w))
    | Inr (Some (path, base)) \<Rightarrow> bindE (xh_core_check_elf_header env base path) (\<lambda>r.
        if r \<noteq> 0 then retE t else refresh_item env base path t) (c, w))"
  by (auto simp: refresh_line_def candidate_def readE_def get_core_run check_pathname_ret [OF assms] bindE_Pair
    split: option.splits)

lemma line_step:
  assumes r: "refreshing c t hs is old"
  shows "step_ok env hs is old c (refresh_line env line t)
    (note_line env hs is (xh_core_sigsegv_enable c) (old_bases old) line (bases t)) w"
proof -
  have q: "queues_ok c hs is" "guarded c" using r by (simp_all add: refreshing_def)
  note run = refresh_line_run [OF q(1), of env line t w]
  show ?thesis
  proof (cases "candidate env hs is line")
    case (Inl tr)
    then have "tr = Undef" by (auto simp: candidate_def split: option.splits if_splits)
    then show ?thesis
      using run Inl by (simp add: step_ok_def note_line_def bindE_runs readE_def)
  next
    case (Inr found)
    show ?thesis
    proof (cases found)
      case None
      then show ?thesis
        using run Inr r by (simp add: step_ok_def note_line_def bindE_runs readE_def)
    next
      case (Some pb)
      obtain path base where pb: "pb = (path, base)" by (cases pb)
      note path = candidate_NUL [OF Inr [unfolded Some pb]]
      from check_elf_header_mem [OF q(2), of env base path] show ?thesis
      proof (cases rule: mem_only_cases [where w = w])
        case (returns x w')
        have m: "refresh_line env line t (c, w) = (if x \<noteq> 0 then retE t else refresh_item env base path t) (c, w')"
          using run Inr Some pb returns by (simp add: bindE_runs)
        have s: "note_line env hs is (xh_core_sigsegv_enable c) (old_bases old) line (bases t) w =
            (if x \<noteq> 0 then retE (bases t)
             else note_file env hs is (xh_core_sigsegv_enable c) (old_bases old) base path (bases t)) w'"
          using Inr Some pb returns by (simp add: note_line_def bindE_runs readE_def)
        show ?thesis
        proof (cases "x = 0")
          case True
          then show ?thesis
            by (intro step_ok_move [OF item_step [OF r path]]) (simp_all add: m s)
        next
          case False
          then show ?thesis
            by (intro step_ok_move [OF step_ok_ret [OF r]]) (simp_all add: m s)
        qed
      next
        case (traps tr w' c')
        then show ?thesis
          using run Inr Some pb catching_Segv [OF traps(1)]
          by (simp add: step_ok_def note_line_def bindE_runs readE_def)
      qed
    qed
  qed
qed

lemma loop_step:
  "refreshing c t hs is old \<Longrightarrow> step_ok env hs is old c (refresh_loop env lines t)
    (note_lines env hs is (xh_core_sigsegv_enable c) (old_bases old) lines (bases t)) w"
proof (induction lines arbitrary: c t w)
  case Nil
  then show ?case using step_ok_ret by (simp del: retE_simps)
next
  case (Cons line lines)
  show ?case
    unfolding refresh_loop.simps note_lines.simps
  proof (rule step_ok_bind [OF line_step [OF Cons.prems]])
    fix c' t' w'
    assume "alike c c'" "refreshing c' t' hs is old"
    then show "step_ok env hs is old c' (refresh_loop env lines t')
        (note_lines env hs is (xh_core_sigsegv_enable c) (old_bases old) lines (bases t')) w'"
      using Cons.IH [of c' t' w'] by (simp add: alike_eqs(1))
  qed
qed

lemma refreshing_start:
  assumes "core_ok c hs is" and "guarded c"
  shows "refreshing c Leaf hs is (entry path_key (xh_core_map_info c))"
  using assms by (auto simp: refreshing_def core_ok_def proper_paths_def valid_Leaf)

lemma refreshing_end:
  assumes "refreshing c t hs is old"
  obtains c' where "on_core free_map_info (c, w) = (Inr (), (c', w))" and "alike c c'"
    and "core_ok (c'\<lparr>xh_core_map_info := t\<rparr>) hs is" and "guarded (c'\<lparr>xh_core_map_info := t\<rparr>)"
proof -
  let ?b = "heap_blocks c - 2 * int (length (inorder (xh_core_map_info c)))"
  let ?c = "c\<lparr>xh_core_map_info := Leaf, heap_blocks := ?b\<rparr>"
  have "on_core free_map_info (c, w) = (Inr (), (?c, w))"
    using assms free_map_info_run [of c] by (simp add: on_core_def refreshing_def)
  moreover have c: "alike c ?c"
    unfolding alike_def by (intro exI [of _ Leaf] exI [of _ "heap_calls c"] exI [of _ ?b]) simp
  moreover have "core_ok (?c\<lparr>xh_core_map_info := t\<rparr>) hs is" "guarded (?c\<lparr>xh_core_map_info := t\<rparr>)"
    using assms by (simp_all add: refreshing_def core_ok_def queues_ok_def guarded_def)
  ultimately show ?thesis using that by blast
qed

lemma alike_store:
  assumes "alike c c'"
  shows "alike c (c'\<lparr>xh_core_map_info := t\<rparr>)"
proof -
  obtain t0 a b where "heap_calls c \<le> a" "c' = c\<lparr>xh_core_map_info := t0, heap_calls := a, heap_blocks := b\<rparr>"
    using assms by (auto simp: alike_def)
  then have "heap_calls c \<le> a \<and>
      c'\<lparr>xh_core_map_info := t\<rparr> = c\<lparr>xh_core_map_info := t, heap_calls := a, heap_blocks := b\<rparr>"
    by simp
  then show ?thesis unfolding alike_def by blast
qed

text \<open>Both results of a refresh at once: the invariant, and the abstract refresh if no allocation fails.\<close>

lemma refresh_impl_cases:
  assumes ok: "core_ok c hs is" and g: "guarded c"
  shows "case xh_core_refresh_impl env (c, w) of
      (Inl tr, (c', w')) \<Rightarrow> (xh_core_sigsegv_enable c \<longrightarrow> tr \<noteq> Segv) \<and>
        ((\<forall>n. alloc_ok env n) \<longrightarrow>
          abstract_refresh env hs is (xh_core_sigsegv_enable c) (bases (xh_core_map_info c)) w = (Inl tr, w'))
    | (Inr _, (c', w')) \<Rightarrow> core_ok c' hs is \<and> guarded c' \<and> alike c c' \<and>
        ((\<forall>n. alloc_ok env n) \<longrightarrow>
          abstract_refresh env hs is (xh_core_sigsegv_enable c) (bases (xh_core_map_info c)) w =
            (Inr (bases (xh_core_map_info c')), w'))"
proof (cases "proc_maps (env_os env) w")
  case None
  then show ?thesis
    using assms by (simp add: xh_core_refresh_impl_def abstract_refresh_def bindE_runs readE_def)
next
  case (Some contents)
  let ?old = "entry path_key (xh_core_map_info c)" and ?lines = "fgets_lines contents"
  have old: "old_bases ?old = bases (xh_core_map_info c)" "bases Leaf = Map.empty"
    by (auto simp: old_bases_def bases_def fun_eq_iff entry_def)
  have spec: "abstract_refresh env hs is (xh_core_sigsegv_enable c) (bases (xh_core_map_info c)) w =
      note_lines env hs is (xh_core_sigsegv_enable c) (bases (xh_core_map_info c)) ?lines Map.empty w"
    using Some by (simp add: abstract_refresh_def bindE_runs readE_def)
  have loop: "step_ok env hs is ?old c (refresh_loop env ?lines Leaf)
      (note_lines env hs is (xh_core_sigsegv_enable c) (bases (xh_core_map_info c)) ?lines Map.empty) w"
    using loop_step [OF refreshing_start [OF ok g], where env = env and lines = ?lines and w = w]
    by (simp add: old)
  obtain r c1 w1 where r: "refresh_loop env ?lines Leaf (c, w) = (r, (c1, w1))"
    by (cases "refresh_loop env ?lines Leaf (c, w)")
  show ?thesis
  proof (cases r)
    case (Inl tr)
    then have "xh_core_refresh_impl env (c, w) = (Inl tr, (c1, w1))"
      using Some r by (simp add: xh_core_refresh_impl_def bindE_runs readE_def)
    then show ?thesis
      using loop r Inl spec by (simp add: step_ok_def)
  next
    case (Inr t)
    then have 1: "alike c c1" "refreshing c1 t hs is ?old" using loop r by (simp_all add: step_ok_def)
    obtain c2 where 2: "on_core free_map_info (c1, w1) = (Inr (), (c2, w1))" "alike c1 c2"
      "core_ok (c2\<lparr>xh_core_map_info := t\<rparr>) hs is" "guarded (c2\<lparr>xh_core_map_info := t\<rparr>)"
      by (rule refreshing_end [OF 1(2)])
    have "xh_core_refresh_impl env (c, w) = (Inr (), (c2\<lparr>xh_core_map_info := t\<rparr>, w1))"
      using Some r Inr 2(1) by (simp add: xh_core_refresh_impl_def bindE_runs readE_def put_core_def sysE_def)
    then show ?thesis
      using loop r Inr spec 2(3,4) alike_store [OF alike_trans [OF 1(1) 2(2)]] by (simp add: step_ok_def)
  qed
qed

end
