(* ===== verification/RefreshProps.thy ===== *)
theory RefreshProps
  imports RefreshSpec
begin

text \<open>
  The properties of registration, refresh and clear, with an example: one hook for every file, and the image of
  \<open>ElfInit\<close> mapped by the kernel at one place.
\<close>

section \<open>An example\<close>

definition example_hook :: "unit hook_info" where
  "example_hook = \<lparr>hi_pathname_regex = (), hi_symbol = ''nope'', hi_new_func = 0x9000, hi_old_func = 0\<rparr>"

definition example_core :: "unit core" where
  "example_core = (core_initial (OtherAction 0))
     \<lparr>xh_core_hook_info := \<lparr>tqh_first = Some 0, tqh_last = NextOf 0,
        cells = [0 \<mapsto> \<lparr>content = example_hook, tqe_next = None, tqe_prev = HeadFirst\<rparr>]\<rparr>,
      sigsegv_action := XhHandler, heap_calls := 2, heap_blocks := 2, regexes := 1\<rparr>"

definition example_env :: "unit env" where
  "example_env = \<lparr>regcomp = (\<lambda>_. Some ()), regexec = (\<lambda>_ _. True), alloc_ok = (\<lambda>_. True),
     sigemptyset_ok = True, sigaction_ok = True, errno = 0, pthread_create_ok = True,
     env_os = example_maps, env_arch = X86_64\<rparr>"

lemma example_core_ok: "core_ok example_core [example_hook] []"
proof -
  have "tq.owns (xh_core_hook_info example_core) [(0, example_hook)]"
    by (simp add: tq.owns_def queue_list_def example_core_def end_ref_def)
  then have "holds 2 (xh_core_hook_info example_core) [example_hook]"
    unfolding holds_def by (intro exI [of _ "[(0, example_hook)]"]) simp
  moreover have "holds 2 (xh_core_ignore_info example_core) []"
    by (simp add: example_core_def core_initial_def holds_empty)
  ultimately show ?thesis
    by (simp add: core_ok_def queues_ok_def valid_Leaf proper_paths_def example_core_def core_initial_def)
qed

lemma example_guarded: "guarded example_core"
  by (simp add: guarded_def example_core_def core_initial_def)

section \<open>Lines of the kernel\<close>

lemma line_pathname_vma:
  assumes "vma_ok v" and "CHR 0x00 \<notin> set (v_name v)"
  shows "line_pathname (vma_line v) (vma_pos v) =
    (if v_name v = [] \<or> hd (v_name v) = CHR ''['' then None else Some (v_name v))"
proof (cases "v_name v")
  case Nil
  then have "takeWhile isspace (drop (vma_pos v) (vma_line v)) = replicate (v_pad v) (CHR '' '') @ [CHR 0x0A]"
    by (simp add: drop_vma_pos takeWhile_append isspace_def)
  moreover have "drop (vma_pos v + Suc (v_pad v)) (vma_line v) = []"
    using Nil by (simp add: vma_pos_def)
  ultimately show ?thesis
    using Nil by (simp add: line_pathname_def Let_def)
next
  case (Cons a name)
  let ?pos = "vma_pos v + v_pad v"
  have s: "takeWhile isspace (drop (vma_pos v) (vma_line v)) = replicate (v_pad v) (CHR '' '')"
    using Cons assms(1) by (simp add: drop_vma_pos vma_ok_def takeWhile_append isspace_def)
  have d: "drop ?pos (vma_line v) = v_name v @ [CHR 0x0A]"
    by (simp add: drop_drop [symmetric] drop_vma_pos add.commute [of "vma_pos v"] del: drop_drop)
  have "length (drop ?pos (vma_line v)) \<ge> 2" unfolding d using Cons by simp
  moreover have "length (vma_line v) \<le> 511" using assms(1) by (simp add: vma_ok_def)
  ultimately have "?pos < 511" by simp
  moreover have "c_str (v_name v @ [CHR 0x0A]) = v_name v @ [CHR 0x0A]"
    using assms(2) by (intro c_str_no_NUL) simp
  ultimately show ?thesis
    using s d Cons by (simp add: line_pathname_def Let_def add.commute)
qed

text \<open>
  Claim C29. The parser of a refresh reads every line that the kernel writes for a mapping (a name without newline and NUL that
  does not start with a space, in a line that fits the buffer): \<open>sscanf\<close> delivers the start, the permissions and
  the offset, and the path name that follows is the name of the mapping without the newline; a mapping without a name or with a name in
  brackets, as \<^verbatim>\<open>[stack]\<close>, has none.
\<close>

theorem refresh_parses_line:
  assumes "vma_ok v" and "CHR 0x00 \<notin> set (v_name v)"
  shows "\<exists>pos. scan_refresh_line (vma_line v) = Some (v_start v, v_perm v, v_offset v, Some pos) \<and>
    line_pathname (vma_line v) pos = (if v_name v = [] \<or> hd (v_name v) = CHR ''['' then None else Some (v_name v))"
  using scan_refresh_vma_line [OF assms(1)] line_pathname_vma [OF assms] by blast

lemma refresh_parses_line_witness:
  "\<exists>pos. scan_refresh_line (''00001000-00002000 r--p 00000000 01:02 7 /l/libx.so'' @ [CHR 0x0A]) =
      Some (0x1000, ''r--p'', 0, Some pos) \<and>
    line_pathname (''00001000-00002000 r--p 00000000 01:02 7 /l/libx.so'' @ [CHR 0x0A]) pos = Some ''/l/libx.so''"
proof -
  have "vma_ok example_vma" using example_vma_ok by (simp add: vmas_ok_def)
  moreover have "CHR 0x00 \<notin> set (v_name example_vma)" by (simp add: example_vma_def)
  ultimately show ?thesis
    using refresh_parses_line [of example_vma] unfolding example_vma_line
    by (simp add: example_vma_def)
qed

lemma candidate_vma:
  assumes "vma_ok v" and "CHR 0x00 \<notin> set (v_name v)"
  shows "candidate env hs is (vma_line v) = Inr
    (if perm_at (v_perm v) 0 = CHR ''r'' \<and> perm_at (v_perm v) 3 = CHR ''p'' \<and> v_offset v = 0 \<and> v_name v \<noteq> [] \<and>
        hd (v_name v) \<noteq> CHR ''['' \<and> wanted env hs is (v_name v)
     then Some (v_name v, v_start v) else None)"
  using scan_refresh_vma_line [OF assms(1)] line_pathname_vma [OF assms]
  by (simp add: candidate_def)

section \<open>Registration\<close>

text \<open>
  Claim C17. \<open>xh_core_register\<close> returns 0 exactly when its arguments are not null, nothing has been refreshed yet, the expression
  compiles and both allocations succeed; then the hook comes after all the registered ones. Otherwise the registered hooks and ignores are
  as before. Either way every block that is not freed belongs to a registered element or to the tree, and the tree, the queue of ignores, all flags and the action of
  SIGSEGV are as before. An expression that has been compiled stays compiled, also when an allocation fails after it (it is then leaked).
\<close>

theorem xh_core_register_appends:
  assumes "core_ok c hs is"
  shows "\<exists>r c'. xh_core_register env regex symbol new_func old_func c = (Inr r, c') \<and>
    (r = 0 \<longleftrightarrow> new_hook env c regex symbol new_func old_func \<noteq> None) \<and>
    core_ok c' (hs @ (case new_hook env c regex symbol new_func old_func of None \<Rightarrow> [] | Some hi \<Rightarrow> [hi])) is \<and>
    (\<exists>q n b. c' = c\<lparr>xh_core_hook_info := q, heap_calls := n, heap_blocks := b,
       regexes := regexes c + (if compiles env c regex symbol new_func then 1 else 0)\<rparr> \<and>
       (r \<noteq> 0 \<longrightarrow> q = xh_core_hook_info c))"
proof (rule register_cases [OF assms, of env regex symbol new_func old_func])
  fix r c'
  assume run: "xh_core_register env regex symbol new_func old_func c = (Inr r, c')"
    and ok: "r = 0 \<longleftrightarrow> new_hook env c regex symbol new_func old_func \<noteq> None"
      "core_ok c' (hs @ (case new_hook env c regex symbol new_func old_func of None \<Rightarrow> [] | Some hi \<Rightarrow> [hi])) is"
  obtain q n b where "c' = c\<lparr>xh_core_hook_info := q, heap_calls := n, heap_blocks := b,
      regexes := regexes c + (if compiles env c regex symbol new_func then 1 else 0)\<rparr>" "r \<noteq> 0 \<longrightarrow> q = xh_core_hook_info c"
    using register_frame [OF run] by blast
  then show ?thesis using run ok by blast
qed

lemma xh_core_register_appends_witness:
  "\<exists>c'. xh_core_register example_env (Some ''so'') (Some ''nope'') 0x9000 0 (core_initial (OtherAction 0)) = (Inr 0, c') \<and>
     core_ok c' [example_hook] []"
proof -
  let ?c = "core_initial (OtherAction 0) :: unit core"
  have "new_hook example_env ?c (Some ''so'') (Some ''nope'') 0x9000 0 = Some example_hook"
    by (simp add: example_env_def core_initial_def example_hook_def)
  then show ?thesis
    using xh_core_register_appends [OF core_ok_initial, of example_env "Some ''so''" "Some ''nope''" "0x9000" 0 "OtherAction 0"]
    by auto
qed

text \<open>
  \<open>xh_core_ignore\<close> returns 0 exactly when the expression is not null and compiles, nothing has been refreshed yet and
  the allocations it needs succeed (one for a rule that ignores all symbols, two otherwise); then the rule comes last. Otherwise
  hooks and rules are as before, and nothing is leaked on the heap.
\<close>

theorem xh_core_ignore_appends:
  assumes "core_ok c hs is"
  shows "\<exists>r c'. xh_core_ignore env regex symbol c = (Inr r, c') \<and>
    (r = 0 \<longleftrightarrow> new_ignore env c regex symbol \<noteq> None) \<and>
    core_ok c' hs (is @ (case new_ignore env c regex symbol of None \<Rightarrow> [] | Some ii \<Rightarrow> [ii]))"
  by (rule ignore_cases [OF assms]) blast

lemma xh_core_ignore_appends_witness:
  "\<exists>c'. xh_core_ignore example_env (Some ''so'') None example_core = (Inr 0, c') \<and>
     core_ok c' [example_hook] [\<lparr>ii_pathname_regex = (), ii_symbol = None\<rparr>]"
  using xh_core_ignore_appends [OF example_core_ok, of example_env "Some ''so''" None]
  by (simp add: example_env_def example_core_def core_initial_def)

section \<open>Clear\<close>

text \<open>
  Claim C14. \<open>xh_core_clear\<close> unlinks and frees every record, hook and rule without touching a freed one; afterwards no block of the heap
  is left, the queues and the tree are empty, and nothing counts as initialised any more, so that hooks can be registered again. The former action of
  SIGSEGV comes back only if an initialisation has succeeded and the protection is switched on at that moment; otherwise the action stays as it
  is. The thread is told to stop only if its creation has succeeded. What is not reset: a request for a refresh that the thread has not served
  (\<open>xh_core_refresh_thread_do\<close>), the switch and the flag of the protection, the saved action and the log priority.
\<close>

theorem xh_core_clear_frees_all:
  assumes "core_ok c hs is"
  shows "\<exists>c'. xh_core_clear c = (Inr (), c') \<and> core_ok c' [] [] \<and> xh_core_map_info c' = Leaf \<and> heap_blocks c' = 0 \<and>
    regexes c' = regexes c - int (length hs) - int (length is) \<and>
    \<not> xh_core_inited c' \<and> \<not> xh_core_init_ok c' \<and> \<not> xh_core_async_inited c' \<and> \<not> xh_core_async_init_ok c' \<and>
    xh_core_refresh_thread_running c' = (xh_core_refresh_thread_running c \<and> \<not> xh_core_async_init_ok c) \<and>
    xh_core_refresh_thread_do c' = xh_core_refresh_thread_do c \<and>
    xh_core_sigsegv_enable c' = xh_core_sigsegv_enable c \<and> xh_core_sigsegv_flag c' = xh_core_sigsegv_flag c \<and>
    xh_core_sigsegv_act_old c' = xh_core_sigsegv_act_old c \<and> xh_log_priority c' = xh_log_priority c \<and>
    sigsegv_action c' = (if xh_core_init_ok c \<and> xh_core_sigsegv_enable c then xh_core_sigsegv_act_old c else sigsegv_action c)"
  using clear_run [OF assms] by (fastforce simp: unswitched_def)

lemma xh_core_clear_frees_all_witness:
  "\<exists>c'. xh_core_clear example_core = (Inr (), c') \<and> heap_blocks c' = 0 \<and> regexes c' = 0"
  using xh_core_clear_frees_all [OF example_core_ok] by (auto simp: example_core_def core_initial_def)

section \<open>Refresh\<close>

text \<open>
  Claim C4. When no allocation fails, a refresh does what \<open>abstract_refresh\<close> does on maps from path names to base addresses: in the order of
  the mappings it records each file at the first place that has to be hooked and has the right header, hooks it unless the
  last refresh recorded it at the same place, and forgets the files that are gone; memory and result agree, also when the process is lost.
\<close>

theorem xh_core_refresh_impl_refines:
  assumes "core_ok c hs is" and "guarded c" and "\<forall>n. alloc_ok env n"
  shows "case abstract_refresh env hs is (xh_core_sigsegv_enable c) (bases (xh_core_map_info c)) w of
      (Inr new, w') \<Rightarrow> \<exists>c'. xh_core_refresh_impl env (c, w) = (Inr (), (c', w')) \<and> bases (xh_core_map_info c') = new
    | (Inl tr, w') \<Rightarrow> \<exists>c'. xh_core_refresh_impl env (c, w) = (Inl tr, (c', w'))"
  using refresh_impl_cases [OF assms(1,2), of env w] assms(3)
  by (auto split: prod.splits sum.splits)

text \<open>
  Claim C15. A refresh keeps the invariant whatever allocations fail: the queues are as before, the new tree is a red-black tree in order,
  every block that is not freed belongs to a queue element or to a record of the tree, so nothing leaks and nothing is freed twice; and
  with the protection on no fault in a mapped file ends the process.
\<close>

theorem xh_core_refresh_impl_safe:
  assumes "core_ok c hs is" and "guarded c"
  shows "case xh_core_refresh_impl env (c, w) of
      (Inl tr, _) \<Rightarrow> \<not> (xh_core_sigsegv_enable c \<and> tr = Segv)
    | (Inr _, (c', w')) \<Rightarrow> core_ok c' hs is \<and> guarded c'"
  using refresh_impl_cases [OF assms, of env w] by (auto split: prod.splits sum.splits)

text \<open>The example: a file with an ELF header and no segment. It is recorded, and initialisation refuses it.\<close>

definition header_words :: "(addr \<times> u64) list" where
  "header_words = [(0x1000, 0x10102464c457f), (0x1010, 0x1003e0003), (0x1020, 0x40)]"

definition header_elf :: world where
  "header_elf = \<lparr>mbytes = word_image header_words,
     mprot = (\<lambda>a. if 0x1000 \<le> a \<and> a < 0x2000 then PROT_READ else 0)\<rparr>"

lemma header_bytes: "mbytes header_elf = word_image header_words"
  by (simp add: header_elf_def)

lemma header_readable: "readable header_elf a \<longleftrightarrow> 0x1000 \<le> a \<and> a < 0x2000"
  by (simp add: header_elf_def readable_def prot_defs)

lemmas header_loads = ld_word [OF header_bytes] header_readable all_readable_unfold
  word_at_def header_words_def

lemma header_check: "xh_elf_check_elfheader X86_64 header_elf 0x1000 = Inr 0"
  by (simp add: xh_elf_check_elfheader_def layout_defs header_loads EM_def)

lemma header_init: "\<exists>self. xh_elf_init header_elf s 0x1000 (Some p) = Inr (XH_ERRNO_FORMAT, self)"
  by (simp add: xh_elf_init_def xh_elf_zero_def Let_def layout_defs entries_def
      xh_elf_get_first_segment_by_type_offset_def header_loads)

lemma header_refresh:
  "abstract_refresh example_env [example_hook] [] True Map.empty header_elf = (Inr [''/l/libx.so'' \<mapsto> 0x1000], header_elf)"
proof -
  obtain self where init: "xh_elf_init header_elf xh_elf_zero 0x1000 (Some ''/l/libx.so'') = Inr (XH_ERRNO_FORMAT, self)"
    using header_init by blast
  have ok: "\<forall>v \<in> set [example_vma]. vma_ok v" using example_vma_ok by (simp add: vmas_ok_def)
  have lines: "fgets_lines (vma_line example_vma) = [vma_line example_vma]"
    using fgets_lines_vmas [OF ok] by simp
  have "candidate example_env [example_hook] [] (vma_line example_vma) = Inr (Some (''/l/libx.so'', 0x1000))"
    using candidate_vma [of example_vma example_env "[example_hook]" "[]"] ok
    by (simp add: example_vma_def perm_at_def wanted_def example_env_def ignored_as_def)
  moreover have "xh_elf_check_elfheader (env_arch example_env) header_elf 0x1000 = Inr 0"
    by (simp add: example_env_def header_check)
  ultimately have "note_line example_env [example_hook] [] True Map.empty (vma_line example_vma) Map.empty header_elf =
      (Inr [''/l/libx.so'' \<mapsto> 0x1000], header_elf)"
    using init
    by (simp add: note_line_def note_file_def hook_file_def bindE_def readE_def catching_def xh_errno_defs)
  then show ?thesis
    using lines by (simp add: abstract_refresh_def bindE_runs readE_def example_env_def example_maps_def)
qed

lemma xh_core_refresh_impl_refines_witness:
  "\<exists>c'. xh_core_refresh_impl example_env (example_core, header_elf) = (Inr (), (c', header_elf)) \<and>
     bases (xh_core_map_info c') = [''/l/libx.so'' \<mapsto> 0x1000]"
proof -
  have "bases (xh_core_map_info example_core) = Map.empty" "xh_core_sigsegv_enable example_core"
    by (auto simp: example_core_def core_initial_def bases_def entry_def)
  moreover have "\<forall>n. alloc_ok example_env n" by (simp add: example_env_def)
  ultimately show ?thesis
    using xh_core_refresh_impl_refines [OF example_core_ok example_guarded, of example_env header_elf] header_refresh
    by simp
qed

lemma xh_core_refresh_impl_safe_witness:
  "case xh_core_refresh_impl example_env (example_core, header_elf) of
      (Inl tr, _) \<Rightarrow> tr \<noteq> Segv | (Inr _, (c', w')) \<Rightarrow> core_ok c' [example_hook] []"
proof -
  have "xh_core_sigsegv_enable example_core" by (simp add: example_core_def core_initial_def)
  then show ?thesis
    using xh_core_refresh_impl_safe [OF example_core_ok example_guarded, of example_env header_elf]
    by (auto split: prod.splits sum.splits)
qed

section \<open>Files that stay\<close>

lemma note_lines_unmoved:
  assumes "\<forall>line \<in> set lines. \<forall>path base. candidate env hs is line = Inr (Some (path, base)) \<longrightarrow> old path = Some base"
  shows "snd (note_lines env hs is on old lines new w) = w"
  using assms
proof (induction lines arbitrary: new)
  case (Cons line lines)
  have "snd (note_line env hs is on old line new w) = w"
    using Cons.prems
    by (auto simp: note_line_def note_file_def bindE_def readE_def catching_def
        split: sum.splits option.splits prod.splits trap.splits)
  with Cons show ?case
    by (cases "note_line env hs is on old line new w") (auto simp: bindE_def split: sum.splits)
qed simp

text \<open>
  A refresh writes nothing to the memory of the process when every file that it would hook is recorded at the place where it is
  mapped: files that have not moved are not hooked again.
\<close>

theorem refresh_unmoved_writes_nothing:
  assumes "core_ok c hs is" and "guarded c" and "\<forall>n. alloc_ok env n"
    and "proc_maps (env_os env) w = Some maps"
    and "\<forall>line \<in> set (fgets_lines maps). \<forall>path base.
      candidate env hs is line = Inr (Some (path, base)) \<longrightarrow> bases (xh_core_map_info c) path = Some base"
  shows "snd (snd (xh_core_refresh_impl env (c, w))) = w"
proof -
  have "snd (abstract_refresh env hs is (xh_core_sigsegv_enable c) (bases (xh_core_map_info c)) w) = w"
    using note_lines_unmoved [OF assms(5)] assms(4) by (simp add: abstract_refresh_def bindE_runs readE_def)
  then show ?thesis
    using refresh_impl_cases [OF assms(1,2), of env w] assms(3)
    by (auto split: prod.splits sum.splits)
qed

definition example_recorded :: "unit core" where
  "example_recorded = example_core\<lparr>
     xh_core_map_info := Node Leaf RB_BLACK \<lparr>mi_pathname = ''/l/libx.so'', mi_base_addr = 0x1000\<rparr> Leaf,
     heap_calls := 4, heap_blocks := 4\<rparr>"

lemma example_recorded_ok: "core_ok example_recorded [example_hook] []"
proof -
  have "queues_ok example_recorded [example_hook] []"
    using example_core_ok by (auto simp: core_ok_def queues_ok_def example_recorded_def example_core_def intro: holds_mono)
  moreover have "rb 1 (xh_core_map_info example_recorded)" "rb_color (xh_core_map_info example_recorded) = RB_BLACK"
    by (simp_all add: example_recorded_def)
  moreover have "ordered path_key (xh_core_map_info example_recorded)"
    by (simp add: ordered_def example_recorded_def)
  moreover have "proper_paths (xh_core_map_info example_recorded)"
    by (auto simp: proper_paths_def entry_def keyed_def example_recorded_def path_key_def split: if_splits)
  ultimately show ?thesis
    by (auto simp: core_ok_def valid_tree_def rb_tree_def example_recorded_def)
qed

lemma refresh_unmoved_writes_nothing_witness:
  "snd (snd (xh_core_refresh_impl example_env (example_recorded, header_elf))) = header_elf"
proof -
  have ok: "\<forall>v \<in> set [example_vma]. vma_ok v" using example_vma_ok by (simp add: vmas_ok_def)
  have "\<forall>line \<in> set (fgets_lines (vma_line example_vma)). \<forall>path base.
      candidate example_env [example_hook] [] line = Inr (Some (path, base)) \<longrightarrow>
      bases (xh_core_map_info example_recorded) path = Some base"
    using fgets_lines_vmas [OF ok] candidate_vma [of example_vma example_env "[example_hook]" "[]"] ok
    by (auto simp: example_vma_def perm_at_def wanted_def example_env_def ignored_as_def bases_def entry_def keyed_def
        example_recorded_def path_key_def)
  moreover have "guarded example_recorded"
    using example_guarded by (simp add: guarded_def example_recorded_def)
  moreover have "proc_maps (env_os example_env) header_elf = Some (vma_line example_vma)" "\<forall>n. alloc_ok example_env n"
    by (simp_all add: example_env_def example_maps_def)
  ultimately show ?thesis
    by (intro refresh_unmoved_writes_nothing [OF example_recorded_ok])
qed

section \<open>Where the code does less than it means to\<close>

text \<open>
  Claim C34. Whether a file is hooked at all depends on the order of registration: of two hooks whose expressions match a file, of which
  one is ignored for its symbol, \<open>xh_core_hook_impl\<close> sets the other one in both orders, but the refresh only looks at
  the first and passes the file over when the ignored hook was registered first.
\<close>

theorem ignored_first_hook_hides_file:
  assumes "core_ok c [a, b] is" and "core_ok c' [b, a] is"
    and "regexec env (hi_pathname_regex a) path" and "regexec env (hi_pathname_regex b) path"
    and "ignored_as env is path (hi_symbol a) = Some ThisSymbol" and "ignored_as env is path (hi_symbol b) = None"
  shows "check_pathname env c path s = (Inr False, s) \<and> check_pathname env c' path s = (Inr True, s) \<and>
    xh_core_hook_impl env c \<lparr>mi_pathname = path, mi_base_addr = base\<rparr> =
      xh_core_hook_impl env c' \<lparr>mi_pathname = path, mi_base_addr = base\<rparr> \<and>
    hooks_for env is path [a, b] = [b]"
proof -
  have q: "queues_ok c [a, b] is" "queues_ok c' [b, a] is" using assms(1,2) by (simp_all add: core_ok_def)
  have h: "hooks_for env is path [a, b] = [b]" "hooks_for env is path [b, a] = [b]" using assms(3-6) by simp_all
  have "hook_file env [a, b] is path base = hook_file env [b, a] is path base"
    unfolding hook_file_def h ..
  then show ?thesis
    using assms(3-6) h(1) by (simp add: check_pathname_ret [OF q(1)] check_pathname_ret [OF q(2)] wanted_def
        hook_impl_file [OF q(1)] hook_impl_file [OF q(2)])
qed

definition two_hooks :: "string \<Rightarrow> string \<Rightarrow> unit core" where
  "two_hooks s1 s2 = (core_initial (OtherAction 0))
     \<lparr>xh_core_hook_info := \<lparr>tqh_first = Some 0, tqh_last = NextOf 2,
        cells = [0 \<mapsto> \<lparr>content = example_hook\<lparr>hi_symbol := s1\<rparr>, tqe_next = Some 2, tqe_prev = HeadFirst\<rparr>,
                 2 \<mapsto> \<lparr>content = example_hook\<lparr>hi_symbol := s2\<rparr>, tqe_next = None, tqe_prev = NextOf 0\<rparr>]\<rparr>,
      xh_core_ignore_info := \<lparr>tqh_first = Some 4, tqh_last = NextOf 4,
        cells = [4 \<mapsto> \<lparr>content = \<lparr>ii_pathname_regex = (), ii_symbol = Some ''f''\<rparr>, tqe_next = None, tqe_prev = HeadFirst\<rparr>]\<rparr>,
      heap_calls := 6, heap_blocks := 6, regexes := 3\<rparr>"

lemma two_hooks_ok:
  "core_ok (two_hooks s1 s2) [example_hook\<lparr>hi_symbol := s1\<rparr>, example_hook\<lparr>hi_symbol := s2\<rparr>]
     [\<lparr>ii_pathname_regex = (), ii_symbol = Some ''f''\<rparr>]"
proof -
  have "tq.owns (xh_core_hook_info (two_hooks s1 s2)) [(0, example_hook\<lparr>hi_symbol := s1\<rparr>), (2, example_hook\<lparr>hi_symbol := s2\<rparr>)]"
    by (auto simp: tq.owns_def queue_list_def two_hooks_def end_ref_def)
  then have "holds 6 (xh_core_hook_info (two_hooks s1 s2)) [example_hook\<lparr>hi_symbol := s1\<rparr>, example_hook\<lparr>hi_symbol := s2\<rparr>]"
    unfolding holds_def
    by (intro exI [of _ "[(0, example_hook\<lparr>hi_symbol := s1\<rparr>), (2, example_hook\<lparr>hi_symbol := s2\<rparr>)]"]) simp
  moreover have "tq.owns (xh_core_ignore_info (two_hooks s1 s2)) [(4, \<lparr>ii_pathname_regex = (), ii_symbol = Some ''f''\<rparr>)]"
    by (simp add: tq.owns_def queue_list_def two_hooks_def end_ref_def)
  then have "holds 6 (xh_core_ignore_info (two_hooks s1 s2)) [\<lparr>ii_pathname_regex = (), ii_symbol = Some ''f''\<rparr>]"
    unfolding holds_def by (intro exI [of _ "[(4, \<lparr>ii_pathname_regex = (), ii_symbol = Some ''f''\<rparr>)]"]) simp
  ultimately show ?thesis
    by (simp add: core_ok_def queues_ok_def valid_Leaf proper_paths_def two_hooks_def core_initial_def)
qed

lemma ignored_first_hook_hides_file_witness:
  "check_pathname example_env (two_hooks ''f'' ''g'') ''/l/libx.so'' () = (Inr False, ()) \<and>
   check_pathname example_env (two_hooks ''g'' ''f'') ''/l/libx.so'' () = (Inr True, ())"
  using ignored_first_hook_hides_file [OF two_hooks_ok [of "''f''" "''g''"] two_hooks_ok [of "''g''" "''f''"],
      of example_env "''/l/libx.so''" "()"]
  by (simp add: example_env_def ignored_as_def ignore_verdict_def)

text \<open>
  A registration for which \<open>malloc\<close> fails loses its compiled expression: \<open>xh_core_register\<close> returns \<open>XH_ERRNO_NOMEM\<close>
  without \<open>regfree\<close>, and even \<open>xh_core_clear\<close>, which frees everything else, leaves the expression behind.
\<close>

theorem register_nomem_leaks_regex:
  fixes env :: "'rx env"
  assumes "regcomp env regex = Some rx" and "\<not> alloc_ok env 0" and "new_func \<noteq> 0"
  shows "\<exists>c c'. xh_core_register env (Some regex) (Some symbol) new_func old_func (core_initial act) = (Inr XH_ERRNO_NOMEM, c) \<and>
    xh_core_clear c = (Inr (), c') \<and> heap_blocks c' = 0 \<and> regexes c' = 1"
proof -
  let ?c = "(core_initial act :: 'rx core)\<lparr>regexes := 1, heap_calls := Suc 0\<rparr>"
  have "xh_core_register env (Some regex) (Some symbol) new_func old_func (core_initial act) = (Inr XH_ERRNO_NOMEM, ?c)"
    using assms by (simp add: xh_core_register_def bindE_def readE_def heap_run core_initial_def)
  moreover have "core_ok ?c [] []"
    by (simp add: core_ok_def queues_ok_def core_initial_def holds_empty valid_Leaf proper_paths_def)
  from clear_run [OF this] obtain c' where "xh_core_clear ?c = (Inr (), c')" "heap_blocks c' = 0" "regexes c' = 1"
    by auto
  ultimately have "xh_core_register env (Some regex) (Some symbol) new_func old_func (core_initial act) = (Inr XH_ERRNO_NOMEM, ?c) \<and>
      xh_core_clear ?c = (Inr (), c') \<and> heap_blocks c' = 0 \<and> regexes c' = 1"
    by simp
  then show ?thesis by (intro exI)
qed

lemma register_nomem_leaks_regex_witness:
  "\<exists>c c'. xh_core_register (example_env\<lparr>alloc_ok := \<lambda>_. False\<rparr>) (Some ''so'') (Some ''f'') 0x9000 0 (core_initial XhHandler) =
      (Inr XH_ERRNO_NOMEM, c) \<and> xh_core_clear c = (Inr (), c') \<and> regexes c' = 1"
  using register_nomem_leaks_regex [of "example_env\<lparr>alloc_ok := \<lambda>_. False\<rparr>" "''so''" "()" "0x9000" "''f''" 0 XhHandler]
  by (auto simp: example_env_def)

section \<open>The SIGSEGV handler\<close>

text \<open>
  When the installation of the handler fails in the first refresh, \<open>xh_core_refresh\<close> returns \<open>XH_ERRNO_UNKNOWN\<close> and leaves
  the memory alone, and so do all refreshes after it, even if the system calls would succeed by then.
\<close>

theorem failed_init_is_final:
  assumes "\<not> xh_core_inited c" and "\<not> xh_core_init_ok c" and "xh_core_sigsegv_enable c"
    and "\<not> sigemptyset_ok env \<or> \<not> sigaction_ok env"
  shows "\<exists>c'. xh_core_refresh env async (c, w) = (Inr XH_ERRNO_UNKNOWN, (c', w)) \<and>
    (\<forall>env' async' w'. xh_core_refresh env' async' (c', w') = (Inr XH_ERRNO_UNKNOWN, (c', w')))"
proof -
  have i: "xh_core_init_once env c = c\<lparr>xh_core_inited := True\<rparr>"
    using assms by (cases "sigemptyset_ok env"; cases "errno env = 0")
      (simp_all add: xh_core_init_once_def xh_core_add_sigsegv_handler_def xh_errno_defs Let_def)
  have r: "xh_core_refresh e a (d, v) = (Inr XH_ERRNO_UNKNOWN, (xh_core_init_once e d, v))"
    if "\<not> xh_core_init_ok (xh_core_init_once e d)" for e :: "'a env" and a d v
    using that by (simp add: xh_core_refresh_def bindE_def put_core_def sysE_def get_core_def readE_def)
  have "\<not> xh_core_init_ok (xh_core_init_once env c)" using i assms(2) by simp
  moreover have "xh_core_init_once env' (xh_core_init_once env c) = xh_core_init_once env c" for env' :: "'a env"
    unfolding i by (simp add: xh_core_init_once_def)
  ultimately show ?thesis
    using r [of env c async w] r [of _ "xh_core_init_once env c"] by auto
qed

lemma failed_init_is_final_witness:
  "\<exists>c'. xh_core_refresh (example_env\<lparr>sigaction_ok := False\<rparr>) False (core_initial XhHandler, header_elf) =
      (Inr XH_ERRNO_UNKNOWN, (c', header_elf)) \<and>
    (\<forall>async'. xh_core_refresh example_env async' (c', header_elf) = (Inr XH_ERRNO_UNKNOWN, (c', header_elf)))"
proof -
  have "\<not> sigaction_ok (example_env\<lparr>sigaction_ok := False\<rparr>)" by simp
  then show ?thesis
    using failed_init_is_final [of "core_initial XhHandler" "example_env\<lparr>sigaction_ok := False\<rparr>" False header_elf]
    by (auto simp: core_initial_def)
qed

text \<open>
  The protection does not survive a change of \<open>xh_core_enable_sigsegv_protection\<close> between the first refresh and the clear.
  Switched on after the first refresh, it relies on a handler that is not there, so that an unreadable header ends the process;
  switched off before the clear, it leaves the handler of xHook installed although everything else is given back.
\<close>

theorem late_protection_switch:
  assumes "sigemptyset_ok env" and "sigaction_ok env"
  shows "(let c = xh_core_enable_sigsegv_protection True (xh_core_init_once env
        (xh_core_enable_sigsegv_protection False (core_initial (OtherAction n)))) in
      xh_core_init_ok c \<and> xh_core_sigsegv_enable c \<and>
      (\<forall>base w path. \<not> readable w base \<longrightarrow> fst (xh_core_check_elf_header env base path (c, w)) = Inl Segv)) \<and>
    (\<exists>c'. xh_core_clear (xh_core_enable_sigsegv_protection False (xh_core_init_once env (core_initial (OtherAction n)))) = (Inr (), c') \<and>
      heap_blocks c' = 0 \<and> \<not> xh_core_inited c' \<and> sigsegv_action c' = XhHandler)"
proof
  let ?c = "xh_core_enable_sigsegv_protection True (xh_core_init_once env
        (xh_core_enable_sigsegv_protection False (core_initial (OtherAction n))))"
  have c: "xh_core_init_ok ?c" "xh_core_sigsegv_enable ?c" "sigsegv_action ?c = OtherAction n"
    by (simp_all add: xh_core_enable_sigsegv_protection_def xh_core_init_once_def xh_core_add_sigsegv_handler_def core_initial_def)
  have "fst (xh_core_check_elf_header env base path (?c, w)) = Inl Segv" if "\<not> readable w base" for base w path
  proof -
    have "xh_elf_check_elfheader (env_arch env) w base = Inl Segv"
      using that by (simp add: xh_elf_check_elfheader_def ld8_def)
    then show ?thesis
      using c by (simp add: xh_core_check_elf_header_def get_core_run bindE_runs put_core_def sysE_def sigsetjmp_block_def on_mem_def
          readE_def)
  qed
  with c show "let c = ?c in xh_core_init_ok c \<and> xh_core_sigsegv_enable c \<and>
      (\<forall>base w path. \<not> readable w base \<longrightarrow> fst (xh_core_check_elf_header env base path (c, w)) = Inl Segv)"
    by (simp add: Let_def)
next
  let ?d = "xh_core_enable_sigsegv_protection False (xh_core_init_once env (core_initial (OtherAction n)))"
  have d: "core_ok ?d [] []" "\<not> xh_core_sigsegv_enable ?d" "sigsegv_action ?d = XhHandler"
    using assms by (simp_all add: xh_core_enable_sigsegv_protection_def xh_core_init_once_def xh_core_add_sigsegv_handler_def
        core_initial_def core_ok_def queues_ok_def holds_empty valid_Leaf proper_paths_def)
  from clear_run [OF d(1)] d(2,3)
  show "\<exists>c'. xh_core_clear ?d = (Inr (), c') \<and> heap_blocks c' = 0 \<and> \<not> xh_core_inited c' \<and> sigsegv_action c' = XhHandler"
    by auto
qed

lemma late_protection_switch_witness:
  "\<exists>c'. xh_core_clear (xh_core_enable_sigsegv_protection False (xh_core_init_once example_env (core_initial (OtherAction 0)))) = (Inr (), c') \<and>
      sigsegv_action c' = XhHandler"
  using late_protection_switch [of example_env 0] by (auto simp: example_env_def)

end
