(* ===== verification/ReplaceSpec.thy ===== *)
theory ReplaceSpec
  imports ElfHook
begin

text \<open>
  What replacing one slot promises: which bytes can change, on every path, for a kernel that
  only keeps its hands off the data; and that the slot, \<open>*old_func\<close> and the protections end as
  intended when the kernel works and lists the mappings truthfully.
\<close>

section \<open>Bytes without protections\<close>

text \<open>The 8 bytes at an address, and the value they hold.\<close>

definition slot :: "addr \<Rightarrow> addr set" where
  "slot a = {b. \<exists>k<8. b = a + of_nat k}"

definition word64 :: "world \<Rightarrow> addr \<Rightarrow> u64" where
  "word64 w a = (case ld64 (w\<lparr>mprot := (\<lambda>_. PROT_READ)\<rparr>) a of Inr v \<Rightarrow> v | Inl _ \<Rightarrow> 0)"

lemma slot_unfold: "b \<in> slot a \<longleftrightarrow> b = a \<or> b = a + 1 \<or> b = a + 2 \<or> b = a + 3 \<or> b = a + 4 \<or>
    b = a + 5 \<or> b = a + 6 \<or> b = a + 7"
proof -
  have "(\<exists>k<8. P k) \<longleftrightarrow> P 0 \<or> P 1 \<or> P 2 \<or> P 3 \<or> P 4 \<or> P 5 \<or> P 6 \<or> P 7" for P :: "nat \<Rightarrow> bool"
    by (auto simp: less_Suc_eq eval_nat_numeral)
  from this [of "\<lambda>k. b = a + of_nat k"] show ?thesis by (simp add: slot_def)
qed

lemma readable_open: "readable (w\<lparr>mprot := (\<lambda>_. PROT_READ)\<rparr>) a"
  by (simp add: readable_def PROT_READ_def)

lemma ld8_open: "ld8 (w\<lparr>mprot := (\<lambda>_. PROT_READ)\<rparr>) a = Inr (mbytes w a)"
  by (simp add: ld8_def readable_def PROT_READ_def)

lemma ld_le_word64: "ld_le w n a = Inr v \<Longrightarrow> ld_le (w\<lparr>mprot := (\<lambda>_. PROT_READ)\<rparr>) n a = Inr v"
  by (induction n arbitrary: a v) (auto simp: readable_open ld8_def split: if_splits)

lemma ld64_word64: "ld64 w a = Inr v \<Longrightarrow> word64 w a = v"
  using ld_le_word64 [of w 8 a v] by (simp add: ld64_def word64_def)

lemma word64_cong: "(\<And>b. b \<in> slot a \<Longrightarrow> mbytes w b = mbytes w' b) \<Longrightarrow> word64 w a = word64 w' a"
proof -
  assume "\<And>b. b \<in> slot a \<Longrightarrow> mbytes w b = mbytes w' b"
  then have "ld_le (w\<lparr>mprot := (\<lambda>_. PROT_READ)\<rparr>) 8 a = ld_le (w'\<lparr>mprot := (\<lambda>_. PROT_READ)\<rparr>) 8 a"
    by (intro ld_le_cong) (auto simp: ld8_open slot_def)
  then show ?thesis by (simp add: word64_def ld64_def)
qed

lemma word64_st64: "st64 w a v = Inr w' \<Longrightarrow> word64 w' a = v"
proof -
  assume "st64 w a v = Inr w'"
  then have w': "w' = w\<lparr>mbytes := put_le (mbytes w) 8 a v\<rparr>" by (simp add: st64_def split: if_splits)
  have "all_readable (w\<lparr>mprot := (\<lambda>_. PROT_READ)\<rparr>) 8 a"
    by (simp add: all_readable_iff readable_def PROT_READ_def)
  from ld_le_put_le [OF this, of v]
  have "ld_le (w\<lparr>mprot := (\<lambda>_. PROT_READ), mbytes := put_le (mbytes w) 8 a v\<rparr>) 8 a = Inr v"
    by (simp add: take_bit_word_eq_self)
  moreover have "w'\<lparr>mprot := (\<lambda>_. PROT_READ)\<rparr> =
      w\<lparr>mprot := (\<lambda>_. PROT_READ), mbytes := put_le (mbytes w) 8 a v\<rparr>"
    by (cases w) (simp add: w')
  ultimately show ?thesis by (simp only: word64_def ld64_def sum.case)
qed

lemma st64_outside: "st64 w a v = Inr w' \<Longrightarrow> b \<notin> slot a \<Longrightarrow> mbytes w' b = mbytes w b"
  by (rule st64_mbytes_other) (auto simp: slot_def)

section \<open>Which bytes can change\<close>

text \<open>The kernel changes no data: \<open>mprotect\<close> touches protections only.\<close>

definition os_keeps_data :: "os \<Rightarrow> bool" where
  "os_keeps_data os \<longleftrightarrow> (\<forall>w p n prot. mbytes (snd (mprotect os w p n prot)) = mbytes w)"

text \<open>The bytes a call may write.\<close>

definition written :: "addr \<Rightarrow> addr \<Rightarrow> addr set" where
  "written addr old_func = slot addr \<union> (if old_func = 0 then {} else slot old_func)"

lemma set_addr_protect_data:
  "os_keeps_data os \<Longrightarrow> xh_util_set_addr_protect os w a prot = (r, w') \<Longrightarrow> mbytes w' = mbytes w"
  unfolding os_keeps_data_def xh_util_set_addr_protect_def
  by (auto split: prod.splits option.splits) (metis snd_conv)+

lemma change_prot_run:
  assumes "change_prot os a old prot w = (r, w')"
  shows "\<exists>e. r = Inr e" and "os_keeps_data os \<Longrightarrow> mbytes w' = mbytes w"
  using assms set_addr_protect_data
  by (auto simp: change_prot_def sysE_run split: if_splits)

text \<open>A run of \<open>replace_slot\<close>: it faults before any store, between the two, or completes both.\<close>

lemma replace_slot_cases [consumes 1, case_names none save both]:
  assumes "replace_slot addr nf old_func w = (r, w')"
  obtains "r = Inl Segv" and "w' = w"
    | v where "ld64 w addr = Inr v" and "old_func \<noteq> 0" and "st64 w old_func v = Inr w'" and "r = Inl Segv"
    | v w1 where "ld64 w addr = Inr v" and "if old_func = 0 then w1 = w else st64 w old_func v = Inr w1"
      and "st64 w1 addr nf = Inr w'" and "r = Inr ()"
  using assms unfolding replace_slot_def
proof (cases rule: bindE_cases)
  case (trap t)
  then show ?thesis using that(1) by (auto simp: eff_run ld64_def dest: ld_le_trap [OF sym])
next
  case (go v wa)
  then have v: "ld64 w addr = Inr v" and [simp]: "wa = w" by (auto simp: eff_run)
  from go(2) show ?thesis
  proof (cases rule: bindE_cases)
    case (trap t)
    then show ?thesis using that(1) by (auto simp: eff_run dest: st64_trap split: if_splits)
  next
    case (go u w1)
    then have w1: "if old_func = 0 then w1 = w else st64 w old_func v = Inr w1"
      by (auto simp: eff_run split: if_splits)
    from go(2) consider (fault) t where "st64 w1 addr nf = Inl t" "r = Inl t" "w' = w1"
      | (ok) "st64 w1 addr nf = Inr w'" "r = Inr ()"
      by (auto simp: eff_run)
    then show ?thesis
    proof cases
      case fault
      then show ?thesis
        using st64_trap [OF fault(1)] that(1) that(2) [OF v] w1 by (cases "old_func = 0") auto
    next
      case ok
      then show ?thesis using that(3) v w1 by blast
    qed
  qed
qed

text \<open>A run of the whole function: it stops with the data as it was, or runs \<open>replace_slot\<close>.\<close>

lemma replace_function_cases [consumes 2, case_names same slot]:
  assumes run: "xh_elf_replace_function os self symbol addr nf old_func w = (r, w')"
    and os: "os_keeps_data os"
  obtains "mbytes w' = mbytes w" and "r = Inr 0 \<Longrightarrow> ld64 w addr = Inr nf"
      and "r \<noteq> Inl Undef" and "r \<noteq> Inl Diverge"
    | w1 r2 w2 where "mbytes w1 = mbytes w" and "replace_slot addr nf old_func w1 = (r2, w2)"
      and "mbytes w' = mbytes w2" and "r = (case r2 of Inl t \<Rightarrow> Inl t | Inr _ \<Rightarrow> Inr 0)"
      and "word64 w addr \<noteq> nf"
  using run unfolding xh_elf_replace_function_def
proof (cases rule: bindE_cases)
  case (trap t)
  then show ?thesis using that(1) by (auto simp: eff_run ld64_def dest: ld_le_trap [OF sym])
next
  case (go cur wa)
  then have cur: "ld64 w addr = Inr cur" and [simp]: "wa = w" by (auto simp: eff_run)
  show ?thesis
  proof (cases "cur = nf")
    case True
    then show ?thesis using go(2) cur that(1) by auto
  next
    case False
    then have ne: "word64 w addr \<noteq> nf" using ld64_word64 [OF cur] by simp
    from False go(2) have "bindE (readE (\<lambda>w. Inr (xh_util_get_addr_protect os w addr (pathname self)))) (\<lambda>(r, old_prot).
       if r \<noteq> 0 then retE r else
       bindE (change_prot os addr old_prot need_prot) (\<lambda>r.
       if r \<noteq> 0 then retE r else
       bindE (replace_slot addr nf old_func) (\<lambda>_.
       bindE (change_prot os addr old_prot old_prot) (\<lambda>_.
       bindE (sysE (\<lambda>w. ((), xh_util_flush_instruction_cache addr w))) (\<lambda>_.
       retE 0))))) w = (r, w')" by simp
    then show ?thesis
    proof (cases rule: bindE_cases)
      case (go x wb)
      then obtain r1 old where x: "x = (r1, old)" and [simp]: "wb = w" by (cases x) (auto simp: eff_run)
      show ?thesis
      proof (cases "r1 = 0")
        case True
        with go(2) x have "bindE (change_prot os addr old need_prot) (\<lambda>r.
           if r \<noteq> 0 then retE r else
           bindE (replace_slot addr nf old_func) (\<lambda>_.
           bindE (change_prot os addr old old) (\<lambda>_.
           bindE (sysE (\<lambda>w. ((), xh_util_flush_instruction_cache addr w))) (\<lambda>_.
           retE 0)))) w = (r, w')" by simp
        then show ?thesis
        proof (cases rule: bindE_cases)
          case (trap t)
          then show ?thesis using change_prot_run(1) [OF trap(1)] by simp
        next
          case (go r2 w1)
          note data = change_prot_run(2) [OF go(1) os]
          show ?thesis
          proof (cases "r2 = 0")
            case True
            with go(2) have "bindE (replace_slot addr nf old_func) (\<lambda>_.
               bindE (change_prot os addr old old) (\<lambda>_.
               bindE (sysE (\<lambda>w. ((), xh_util_flush_instruction_cache addr w))) (\<lambda>_.
               retE 0))) w1 = (r, w')" by simp
            then show ?thesis
            proof (cases rule: bindE_cases)
              case (trap t)
              then show ?thesis using that(2) [OF data trap(1)] ne by simp
            next
              case (go u w2)
              obtain r3 w3 where c: "change_prot os addr old old w2 = (r3, w3)"
                by (cases "change_prot os addr old old w2")
              then obtain e where "r3 = Inr e" using change_prot_run(1) by blast
              then have "r = Inr 0" "w' = w3"
                using go(2) c by (auto simp: bindE_def sysE_def xh_util_flush_instruction_cache_def)
              then show ?thesis
                using that(2) [OF data go(1)] change_prot_run(2) [OF c os] ne by simp
            qed
          next
            case False
            then show ?thesis using go(2) data that(1) by auto
          qed
        qed
      next
        case False
        then show ?thesis using go(2) x that(1) by auto
      qed
    qed (simp add: eff_run)
  qed
qed

lemma replace_slot_bytes:
  assumes "replace_slot addr nf old_func w = (r, w')" and "b \<notin> written addr old_func"
  shows "mbytes w' b = mbytes w b"
  using assms(1)
proof (cases rule: replace_slot_cases)
  case (save v)
  then show ?thesis using st64_outside [OF save(3)] assms(2) by (simp add: written_def)
next
  case (both v w1)
  then show ?thesis
    using st64_outside [OF both(3)] st64_outside [of w old_func v w1 b] assms(2)
    by (auto simp: written_def split: if_splits)
qed simp

text \<open>
  Claim C16. Whatever the kernel answers, and also when a fault cuts the call short, replacing a
  function writes nothing outside the slot and \<open>*old_func\<close>; a call that returns an error number
  has written nothing at all; and after a call that returns 0 the slot holds the new function.
\<close>

theorem replace_function_writes:
  assumes "os_keeps_data os"
    and "xh_elf_replace_function os self symbol addr nf old_func w = (r, w')"
  shows "(\<forall>b. b \<notin> written addr old_func \<longrightarrow> mbytes w' b = mbytes w b) \<and>
    (\<forall>e. r = Inr e \<and> e \<noteq> 0 \<longrightarrow> mbytes w' = mbytes w) \<and>
    (r = Inr 0 \<longrightarrow> word64 w' addr = nf) \<and> r \<noteq> Inl Undef \<and> r \<noteq> Inl Diverge"
  using assms(2,1)
proof (cases rule: replace_function_cases)
  case same
  have "word64 w' addr = word64 w addr"
    by (rule word64_cong) (simp add: same(1))
  then show ?thesis
    using same ld64_word64 by auto
next
  case (slot w1 r2 w2)
  have "mbytes w2 b = mbytes w b" if "b \<notin> written addr old_func" for b
    using replace_slot_bytes [OF slot(2) that] slot(1) by simp
  moreover have "word64 w' addr = word64 w2 addr"
    by (rule word64_cong) (simp add: slot(3))
  moreover have "r2 = Inl Segv \<or> r2 = Inr () \<and> word64 w2 addr = nf"
    using slot(2) by (cases rule: replace_slot_cases) (auto dest: word64_st64)
  ultimately show ?thesis
    by (auto simp: slot(3,4))
qed

section \<open>With a working kernel\<close>

text \<open>\<open>/proc/self/maps\<close> lists the mappings \<open>vs\<close> and these are the protections of the image.\<close>

definition os_lists :: "os \<Rightarrow> world \<Rightarrow> vma list \<Rightarrow> bool" where
  "os_lists os w vs \<longleftrightarrow> proc_maps os w = Some (concat (map vma_line vs)) \<and> vmas_ok vs \<and>
     (\<forall>v\<in>set vs. aligned PAGE_SIZE (v_start v) \<and> aligned PAGE_SIZE (v_end v)) \<and>
     (\<forall>a. mprot w a = (case prot_at vs a of None \<Rightarrow> 0 | Some p \<Rightarrow> p))"

definition mprotect_works :: "os \<Rightarrow> bool" where
  "mprotect_works os \<longleftrightarrow> (\<forall>w p n prot. mprotect os w p n prot =
     (None, w\<lparr>mprot := (\<lambda>a. if a - p < n then prot else mprot w a)\<rparr>))"

lemma set_addr_protect_works:
  assumes "mprotect_works os" "aligned 8 addr"
  shows "xh_util_set_addr_protect os w addr prot =
    (0, w\<lparr>mprot := (\<lambda>a. if a \<in> page_of addr then prot else mprot w a)\<rparr>)"
  using assms
  by (simp add: xh_util_set_addr_protect_def mprotect_works_def PAGE_COVER_aligned page_of_def)

lemma need_prot_bits: "need_prot AND PROT_READ \<noteq> 0" "need_prot AND PROT_WRITE \<noteq> 0"
  by (simp_all add: need_prot_def prot_defs)

lemma all_writable_unfold:
  "all_writable w 8 a \<longleftrightarrow> writable w a \<and> writable w (a + 1) \<and> writable w (a + 2) \<and> writable w (a + 3) \<and>
     writable w (a + 4) \<and> writable w (a + 5) \<and> writable w (a + 6) \<and> writable w (a + 7)"
  by (simp add: eval_nat_numeral add.assoc)

lemma replace_slot_works:
  assumes acc: "all_readable w 8 addr" "all_writable w 8 addr"
    and old: "old_func = 0 \<or> all_writable w 8 old_func \<and> slot old_func \<inter> slot addr = {}"
  shows "\<exists>v w'. ld64 w addr = Inr v \<and> replace_slot addr nf old_func w = (Inr (), w') \<and>
    mprot w' = mprot w \<and> word64 w' addr = nf \<and> (old_func \<noteq> 0 \<longrightarrow> word64 w' old_func = v)"
proof -
  obtain v where v: "ld64 w addr = Inr v" using ld_le_total [OF acc(1)] by (auto simp: ld64_def)
  obtain w1 where w1: "if old_func = 0 then w1 = w else st64 w old_func v = Inr w1"
    using old by (cases "old_func = 0") (auto simp: st64_def)
  then have p1: "mprot w1 = mprot w" by (auto dest: st64_mprot split: if_splits)
  then obtain w' where w': "st64 w1 addr nf = Inr w'"
    using acc(2) all_writable_cong [OF p1] by (simp add: st64_def)
  have "replace_slot addr nf old_func w = (Inr (), w')"
    using v w1 w' by (auto simp: replace_slot_def bindE_def readE_def storeE_def split: if_splits)
  moreover have "word64 w' old_func = v" if "old_func \<noteq> 0"
  proof -
    have "word64 w1 old_func = v" using w1 that word64_st64 by simp
    moreover have "word64 w' old_func = word64 w1 old_func"
      using old that st64_outside [OF w'] by (intro word64_cong) auto
    ultimately show ?thesis by simp
  qed
  ultimately show ?thesis
    using v word64_st64 [OF w'] st64_mprot [OF w'] p1 by auto
qed

lemma replace_function_runs:
  assumes kernel: "mprotect_works os" "os_lists os w vs"
    and v: "v \<in> set vs" "considered (pathname self) v" "vma_has v addr" "bit (vma_prot v) 0"
    and al: "aligned 8 addr"
    and old: "old_func = 0 \<or> all_writable w 8 old_func \<and> slot old_func \<inter> slot addr = {}"
  shows "\<exists>old w'. ld64 w addr = Inr old \<and>
    xh_elf_replace_function os self symbol addr nf old_func w = (Inr 0, w') \<and>
    ld64 w' addr = Inr nf \<and> mprot w' = mprot w \<and>
    (if old = nf then w' = w else old_func \<noteq> 0 \<longrightarrow> word64 w' old_func = old)"
proof -
  have ok: "vmas_ok vs" and maps: "proc_maps os w = Some (concat (map vma_line vs))"
    and pages: "aligned PAGE_SIZE (v_start v)" "aligned PAGE_SIZE (v_end v)"
    and mp: "\<And>a. mprot w a = (case prot_at vs a of None \<Rightarrow> 0 | Some p \<Rightarrow> p)"
    using kernel(2) v(1) by (auto simp: os_lists_def)
  have prot: "mprot w b = vma_prot v" if "vma_has v b" for b
    using mp [of b] prot_at_vma [OF ok v(1) that] by simp
  note in_slot = aligned_slot [OF pages(2) al v(3)]
  have page: "mprot w b = vma_prot v" if "b \<in> page_of addr" for b
    using prot vma_page [OF pages v(3) that] .
  have r: "vma_prot v AND PROT_READ \<noteq> 0"
    using v(4) bit_eq_iff [of "vma_prot v AND PROT_READ" 0] bit_prot(1) [of 0]
    by (metis bit_and_iff bit_0_eq bot_apply bot_bool_def bit_0 even_zero)
  have readable: "all_readable w 8 addr"
    using prot in_slot(2) r by (simp add: all_readable_iff readable_def)
  obtain old where old_v: "ld64 w addr = Inr old"
    using ld_le_total [OF readable] by (auto simp: ld64_def)
  show ?thesis
  proof (cases "old = nf")
    case True
    then have "xh_elf_replace_function os self symbol addr nf old_func w = (Inr 0, w)"
      by (simp add: xh_elf_replace_function_def bindE_def readE_def old_v)
    then show ?thesis using old_v True by auto
  next
    case False
    have get: "xh_util_get_addr_protect os w addr (pathname self) = (0, vma_prot v)"
      by (rule get_addr_protect_vma [OF maps ok v(1-3) in_slot(1)])
    let ?w1 = "if vma_prot v = need_prot then w
      else w\<lparr>mprot := (\<lambda>a. if a \<in> page_of addr then need_prot else mprot w a)\<rparr>"
    have c1: "change_prot os addr (vma_prot v) need_prot w = (Inr 0, ?w1)"
      by (simp add: change_prot_def sysE_def set_addr_protect_works [OF kernel(1) al])
    have p1: "mprot ?w1 = (\<lambda>a. if a \<in> page_of addr then need_prot else mprot w a)"
      using page by auto
    have "all_readable ?w1 8 addr" "all_writable ?w1 8 addr"
      using in_slot(3) need_prot_bits
      by (simp_all add: all_readable_iff all_writable_iff readable_def writable_def p1)
    moreover have "all_writable ?w1 8 old_func" if "all_writable w 8 old_func"
      using that need_prot_bits by (auto simp: all_writable_iff writable_def p1)
    ultimately obtain u w2 where u: "ld64 ?w1 addr = Inr u"
      and w2: "replace_slot addr nf old_func ?w1 = (Inr (), w2)" "mprot w2 = mprot ?w1"
      "word64 w2 addr = nf" "old_func \<noteq> 0 \<longrightarrow> word64 w2 old_func = u"
      using replace_slot_works [of ?w1 addr old_func nf] old by blast
    have "u = old"
      using ld64_word64 [OF u] ld64_word64 [OF old_v] word64_cong [of addr ?w1 w] by simp
    let ?w3 = "if vma_prot v = need_prot then w2
      else w2\<lparr>mprot := (\<lambda>a. if a \<in> page_of addr then vma_prot v else mprot w2 a)\<rparr>"
    have c3: "change_prot os addr (vma_prot v) (vma_prot v) w2 = (Inr 0, ?w3)"
      by (simp add: change_prot_def sysE_def set_addr_protect_works [OF kernel(1) al])
    have p3: "mprot ?w3 = mprot w"
      using page by (auto simp: w2(2) p1)
    have run: "xh_elf_replace_function os self symbol addr nf old_func w = (Inr 0, ?w3)"
      using False
      by (simp add: xh_elf_replace_function_def bindE_def readE_def sysE_def old_v get c1 w2(1) c3
          xh_util_flush_instruction_cache_def)
    have w3: "word64 ?w3 a = word64 w2 a" for a
      by (rule word64_cong) simp
    obtain x where x: "ld64 ?w3 addr = Inr x"
      using ld_le_total [of ?w3 8 addr] all_readable_cong [OF p3] readable by (auto simp: ld64_def)
    then have "ld64 ?w3 addr = Inr nf" using ld64_word64 [OF x] w3 w2(3) by simp
    then show ?thesis
      using False old_v run p3 w2(4) w3 \<open>u = old\<close> by (intro exI [of _ old] exI [of _ ?w3]) simp
  qed
qed

text \<open>
  Claim C8. With a working kernel that lists the mappings truthfully, replacing the function in
  an aligned readable slot of a private mapping of the library always succeeds: the slot then
  holds the new function, \<open>*old_func\<close> the function it held before, and every page has the
  protection it had, although the slot's page was made writable in between. A slot that holds
  the new function already is left alone.
\<close>

theorem replace_function_works:
  assumes kernel: "mprotect_works os" "os_lists os w vs"
    and v: "v \<in> set vs" "considered (pathname self) v" "vma_has v addr" "bit (vma_prot v) 0"
    and al: "aligned 8 addr"
    and old: "old_func = 0 \<or> all_writable w 8 old_func \<and> slot old_func \<inter> slot addr = {}"
  shows "\<exists>old w'. ld64 w addr = Inr old \<and>
    xh_elf_replace_function os self symbol addr nf old_func w = (Inr 0, w') \<and>
    ld64 w' addr = Inr nf \<and> mprot w' = mprot w \<and>
    (if old = nf then w' = w else old_func \<noteq> 0 \<longrightarrow> word64 w' old_func = old)"
  using assms by (rule replace_function_runs)

text \<open>
  An example: the library of \<open>example_elf\<close>, mapped read-only, and a page of data that takes the
  old function, under a kernel that works.
\<close>

definition example_data_vma :: vma where
  "example_data_vma = \<lparr>v_start = 0x3000, v_end = 0x4000, v_perm = ''rw-p'', v_offset = 0, v_major = 0,
     v_minor = 0, v_inode = 0, v_pad = 1, v_name = ''''\<rparr>"

definition example_os :: os where
  "example_os =
     \<lparr>proc_maps = (\<lambda>w. Some (concat (map vma_line [example_vma, example_data_vma]))),
      mprotect = (\<lambda>w p n prot. (None, w\<lparr>mprot := (\<lambda>a. if a - p < n then prot else mprot w a)\<rparr>))\<rparr>"

definition example_world :: world where
  "example_world = \<lparr>mbytes = word_image example_words,
     mprot = (\<lambda>a. case prot_at [example_vma, example_data_vma] a of None \<Rightarrow> 0 | Some p \<Rightarrow> p)\<rparr>"

lemma example_data_line:
  "vma_line example_data_vma = ''00003000-00004000 rw-p 00000000 00:00 0 '' @ [CHR 0x0A]"
  by (simp add: vma_line_def example_data_vma_def padded_def hex_of.simps dec_of.simps hexchar_def
      char_of_eq_iff replicate_numeral)

lemma example_vmas_ok: "vmas_ok [example_vma, example_data_vma]"
  using example_vma_ok
  by (simp add: vmas_ok_def vma_ok_def [of example_data_vma] example_data_line)
    (simp add: example_data_vma_def example_vma_def isspace_def)

lemma example_os_lists: "os_lists example_os example_world [example_vma, example_data_vma]"
  by (simp add: os_lists_def example_vmas_ok)
    (simp add: example_os_def example_world_def example_vma_def example_data_vma_def aligned_def PAGE_SIZE_def)

lemma example_mprotect_works: "mprotect_works example_os"
  by (simp add: mprotect_works_def example_os_def)

lemma example_vma_prots: "vma_prot example_vma = 1" "vma_prot example_data_vma = 3"
  by (simp_all add: vma_prot_def example_vma_def example_data_vma_def perm_set_def perm_at_def prot_defs)

lemma example_world_bytes: "mbytes example_world = word_image example_words"
  by (simp add: example_world_def)

lemma example_world_prot: "mprot example_world a
    = (if 0x1000 \<le> a \<and> a < 0x2000 then 1 else if 0x3000 \<le> a \<and> a < 0x4000 then 3 else 0)"
  by (simp add: example_world_def vma_has_def example_vma_prots)
    (auto simp: example_vma_def example_data_vma_def)

theorem replace_function_works_witness:
  "\<exists>w'. xh_elf_replace_function example_os example_self ''f'' 0x1300 0x6000 0x3010 example_world
      = (Inr 0, w') \<and>
    ld64 w' 0x1300 = Inr 0x6000 \<and> mprot w' = mprot example_world \<and> word64 w' 0x3010 = 0x5000"
proof -
  have path: "pathname example_self = Some ''libx.so''" by (simp add: example_self_def)
  have "b < 0x2000" if "b \<in> slot 0x1300" for b
    using that by (auto simp: slot_unfold)
  moreover have "\<not> b < 0x2000" if "b \<in> slot 0x3010" for b
    using that by (auto simp: slot_unfold)
  ultimately have disj: "slot 0x3010 \<inter> slot 0x1300 = {}" by blast
  have wr: "all_writable example_world 8 0x3010"
    by (simp add: all_writable_unfold writable_def example_world_prot prot_defs)
  have ld: "ld64 example_world 0x1300 = Inr 0x5000"
    by (simp add: ld_word [OF example_world_bytes] all_readable_unfold readable_def prot_defs
        example_world_prot word_at_def example_words_def)
  have here: "vma_has example_vma 0x1300" "aligned 8 0x1300" "example_vma \<in> set [example_vma, example_data_vma]"
    "considered (pathname example_self) example_vma" "bit (vma_prot example_vma) 0"
    by (simp_all add: path example_considered example_vma_prots)
      (simp_all add: vma_has_def example_vma_def aligned_def)
  obtain old w' where "ld64 example_world 0x1300 = Inr old"
    "xh_elf_replace_function example_os example_self ''f'' 0x1300 0x6000 0x3010 example_world = (Inr 0, w')"
    "ld64 w' 0x1300 = Inr 0x6000" "mprot w' = mprot example_world"
    "if old = 0x6000 then w' = example_world else (0x3010 :: addr) \<noteq> 0 \<longrightarrow> word64 w' 0x3010 = old"
    using replace_function_works [OF example_mprotect_works example_os_lists here(3,4,1,5,2),
        of "0x3010" "''f''" "0x6000"] disj wr by blast
  then show ?thesis using ld by auto
qed

lemma example_keeps_data: "os_keeps_data example_os"
  by (simp add: os_keeps_data_def example_os_def)

theorem replace_function_writes_witness:
  "mbytes (snd (xh_elf_replace_function example_os example_self ''f'' 0x1300 0x6000 0x3010 example_world))
     0x1280 = 0 \<and>
   fst (xh_elf_replace_function example_os example_self ''f'' 0x1300 0x6000 0x3010 example_world)
     \<noteq> Inl Undef"
proof -
  have "0x1280 \<notin> written 0x1300 0x3010" by (simp add: written_def slot_unfold)
  moreover have "mbytes example_world 0x1280 = 0"
    by (simp add: example_world_def word_image_def word_at_def example_words_def)
  ultimately show ?thesis
    using replace_function_writes [OF example_keeps_data surjective_pairing] by simp
qed

end
