(* ===== verification/HookSpec.thy ===== *)
theory HookSpec
  imports ReplaceSpec
begin

text \<open>
  What \<open>xh_elf_hook\<close> does as a whole: it replaces the function in the slots that the relocation tables
  of the image name for the symbol, in the order of the tables. The slots are read off the image as it is
  before the call; the tables are read while slots are being written, so they must not overlap.
\<close>

section \<open>Reading without protections\<close>

text \<open>\<open>legible A w w'\<close>: what can be read in \<open>A\<close> in the image \<open>w\<close> can be read in \<open>w'\<close>, with the same result.\<close>

definition legible :: "addr set \<Rightarrow> world \<Rightarrow> world \<Rightarrow> bool" where
  "legible A w w' \<longleftrightarrow> (\<forall>b\<in>A. \<forall>v. ld8 w b = Inr v \<longrightarrow> ld8 w' b = Inr v)"

lemma legible_mono: "legible A w w' \<Longrightarrow> B \<subseteq> A \<Longrightarrow> legible B w w'"
  by (auto simp: legible_def)

lemma legible_trans: "legible A w w' \<Longrightarrow> legible A w' w'' \<Longrightarrow> legible A w w''"
  by (auto simp: legible_def)

text \<open>The bytes alone: an image in which everything can be read.\<close>

abbreviation visible :: "world \<Rightarrow> world" where
  "visible w \<equiv> w\<lparr>mprot := (\<lambda>_. PROT_READ)\<rparr>"

definition same_bytes :: "addr set \<Rightarrow> world \<Rightarrow> world \<Rightarrow> bool" where
  "same_bytes A w w' \<longleftrightarrow> (\<forall>b\<in>A. mbytes w b = mbytes w' b)"

lemma same_bytes_sym: "same_bytes A w w' \<Longrightarrow> same_bytes A w' w"
  by (simp add: same_bytes_def)

lemma same_bytes_mono: "same_bytes A w w' \<Longrightarrow> B \<subseteq> A \<Longrightarrow> same_bytes B w w'"
  by (auto simp: same_bytes_def)

lemma same_bytes_trans: "same_bytes A w w' \<Longrightarrow> same_bytes A w' w'' \<Longrightarrow> same_bytes A w w''"
  by (auto simp: same_bytes_def)

lemma legible_visible: "same_bytes A w w' \<Longrightarrow> legible A w (visible w')"
  by (auto simp: legible_def same_bytes_def ld8_def readable_open split: if_splits)

lemma legible_same: "same_bytes A w w' \<Longrightarrow> mprot w' = mprot w \<Longrightarrow> legible A w w'"
  by (auto simp: legible_def same_bytes_def ld8_def readable_def split: if_splits)

lemma ld8_legible: "ld8 w a = Inr v \<Longrightarrow> legible A w w' \<Longrightarrow> a \<in> A \<Longrightarrow> ld8 w' a = Inr v"
  by (auto simp: legible_def)

lemma ld_le_legible:
  "ld_le w n a = Inr v \<Longrightarrow> legible A w w' \<Longrightarrow> (\<And>k. k < n \<Longrightarrow> a + of_nat k \<in> A) \<Longrightarrow>
    ld_le w' n a = Inr v"
proof (induction n arbitrary: a v)
  case 0
  then show ?case by simp
next
  case (Suc n)
  from Suc.prems(1) obtain b r where b: "ld8 w a = Inr b" and r: "ld_le w n (a + 1) = Inr r"
    and v: "v = ucast b OR push_bit 8 r" by auto
  have "a \<in> A" using Suc.prems(3) [of 0] by simp
  moreover have "ld_le w' n (a + 1) = Inr r"
    using Suc.prems(3) [of "Suc k" for k] by (intro Suc.IH [OF r Suc.prems(2)]) (simp add: add.assoc)
  ultimately show ?case
    using ld8_legible [OF b Suc.prems(2)] v by simp
qed

lemma ld64_legible:
  "ld64 w a = Inr v \<Longrightarrow> legible A w w' \<Longrightarrow> (\<And>k. k < 8 \<Longrightarrow> a + of_nat k \<in> A) \<Longrightarrow> ld64 w' a = Inr v"
  unfolding ld64_def by (rule ld_le_legible)

text \<open>The decoder reads between \<open>cur\<close> and \<open>end\<close> and moves up.\<close>

lemma sleb128_loop_legible:
  assumes "sleb128_loop w cur ende val shift = Inr (cur', out)" and "legible {cur..<ende} w w'"
  shows "sleb128_loop w' cur ende val shift = Inr (cur', out) \<and> cur \<le> cur'"
  using assms
proof (induction w cur ende val shift rule: sleb128_loop.induct)
  case (1 w cur ende val shift)
  show ?case
  proof (cases "ende \<le> cur")
    case True
    then show ?thesis using 1(2) by (simp add: sleb128_loop.simps [of _ _ ende])
  next
    case False
    with 1(2) obtain byte where byte: "ld8 w cur = Inr byte" and sh: "\<not> 64 \<le> shift"
      and step: "(let val = val OR push_bit shift (ucast (byte AND 127)) in
           if byte AND 128 \<noteq> 0 then sleb128_loop w (cur + 1) ende val (shift + 7)
           else Inr (cur + 1, Some (val, shift + 7, byte))) = Inr (cur', out)"
      by (auto simp: sleb128_loop.simps [of _ _ ende] split: if_splits)
    have b: "ld8 w' cur = Inr byte"
      by (rule ld8_legible [OF byte 1(3)]) (use False in simp)
    have up: "cur \<le> cur + 1"
      using unat_inc [of cur ende] False by (simp add: word_le_nat_alt word_less_nat_alt)
    show ?thesis
    proof (cases "byte AND 128 = 0")
      case True
      then show ?thesis
        using step False sh up by (simp add: sleb128_loop.simps [of _ _ ende] b)
    next
      case more: False
      then have "sleb128_loop w (cur + 1) ende (val OR push_bit shift (ucast (byte AND 127))) (shift + 7)
          = Inr (cur', out)" using step by simp
      moreover have "legible {cur + 1..<ende} w w'"
        by (rule legible_mono [OF 1(3)]) (use up in auto)
      ultimately have "sleb128_loop w' (cur + 1) ende (val OR push_bit shift (ucast (byte AND 127)))
          (shift + 7) = Inr (cur', out) \<and> cur + 1 \<le> cur'"
        using 1(1) [OF False byte sh refl more] by blast
      then show ?thesis
        using False sh more up by (auto simp: sleb128_loop.simps [of _ _ ende] b)
    qed
  qed
qed

lemma decoder_next_legible:
  assumes "xh_elf_sleb128_decoder_next w d = Inr (v, d')" and "legible {dcur d..<dend d} w w'"
  shows "xh_elf_sleb128_decoder_next w' d = Inr (v, d') \<and> dcur d \<le> dcur d' \<and> dend d' = dend d"
proof (cases "sleb128_loop w (dcur d) (dend d) 0 0")
  case (Inl t)
  then show ?thesis using assms(1) by (simp add: xh_elf_sleb128_decoder_next_def)
next
  case (Inr p)
  obtain cur out where p: "p = (cur, out)" by (cases p)
  have "d' = d\<lparr>dcur := cur\<rparr>"
    using assms(1) by (auto simp: xh_elf_sleb128_decoder_next_def Inr p Let_def split: option.splits)
  then show ?thesis
    using sleb128_loop_legible [OF Inr [unfolded p] assms(2)] assms(1)
    by (simp add: xh_elf_sleb128_decoder_next_def Inr p)
qed

text \<open>The packed iterator reads what is left between its decoder's ends.\<close>

definition packed_bytes :: "packed_reloc_iterator \<Rightarrow> addr set" where
  "packed_bytes it = {dcur (decoder it)..<dend (decoder it)}"

definition later :: "packed_reloc_iterator \<Rightarrow> packed_reloc_iterator \<Rightarrow> bool" where
  "later it it' \<longleftrightarrow> dcur (decoder it) \<le> dcur (decoder it') \<and> dend (decoder it') = dend (decoder it)"

lemma later_bytes: "later it it' \<Longrightarrow> packed_bytes it' \<subseteq> packed_bytes it"
  by (auto simp: later_def packed_bytes_def)

lemma later_refl [simp]: "decoder it' = decoder it \<Longrightarrow> later it it'"
  by (simp add: later_def)

lemma later_trans: "later it it' \<Longrightarrow> later it' it'' \<Longrightarrow> later it it''"
  by (auto simp: later_def)

lemma later_cong: "decoder it' = decoder it \<Longrightarrow> later it' it'' \<longleftrightarrow> later it it''"
  by (simp add: later_def)

lemma next_if_legible:
  assumes "next_if w c upd self k = Inr x" and "legible (packed_bytes self) w w'"
    and upd: "\<And>v s. decoder (upd v s) = decoder s"
    and k: "\<And>s. k s = Inr x \<Longrightarrow> legible (packed_bytes s) w w' \<Longrightarrow> k' s = Inr x \<and> later s (snd x)"
  shows "next_if w' c upd self k' = Inr x \<and> later self (snd x)"
proof (cases c)
  case False
  then show ?thesis using assms(1,2) k by (simp add: next_if_def)
next
  case True
  show ?thesis
  proof (cases "xh_elf_sleb128_decoder_next w (decoder self)")
    case (Inl t)
    then show ?thesis using assms(1) True by (simp add: next_if_def with_next_def)
  next
    case (Inr p)
    obtain r d where p: "p = (r, d)" by (cases p)
    note v = decoder_next_legible [OF Inr [unfolded p], of w'] assms(2)
    then have dec: "xh_elf_sleb128_decoder_next w' (decoder self) = Inr (r, d)"
      and l: "later self (self\<lparr>decoder := d\<rparr>)"
      by (auto simp: packed_bytes_def later_def)
    show ?thesis
    proof (cases r)
      case (Inl e)
      then show ?thesis
        using assms(1) True dec l Inr p by (auto simp: next_if_def with_next_def)
    next
      case r: (Inr v)
      let ?s = "upd v (self\<lparr>decoder := d\<rparr>)"
      have ls: "later self ?s" using l by (simp add: later_def upd)
      have "k ?s = Inr x" using assms(1) True Inr p r by (simp add: next_if_def with_next_def Let_def)
      moreover have "legible (packed_bytes ?s) w w'"
        using assms(2) later_bytes [OF ls] by (rule legible_mono)
      ultimately have "k' ?s = Inr x" "later ?s (snd x)" using k by blast+
      then show ?thesis
        using later_trans [OF ls] True dec r by (simp add: next_if_def with_next_def Let_def)
    qed
  qed
qed

lemma group_addend_legible:
  assumes "next_if w True (\<lambda>v. k_r_addend_update (\<lambda>a. a + v)) self
      (\<lambda>self. Inr (0, self\<lparr>relocation_group_index := 0\<rparr>)) = Inr x"
    and "legible (packed_bytes self) w w'"
  shows "next_if w' True (\<lambda>v. k_r_addend_update (\<lambda>a. a + v)) self
      (\<lambda>self. Inr (0, self\<lparr>relocation_group_index := 0\<rparr>)) = Inr x \<and> later self (snd x)"
  using assms by (rule next_if_legible) auto

lemma read_group_fields_legible:
  assumes "xh_elf_packed_reloc_iterator_read_group_fields w self = Inr x"
    and "legible (packed_bytes self) w w'"
  shows "xh_elf_packed_reloc_iterator_read_group_fields w' self = Inr x \<and> later self (snd x)"
  using assms unfolding xh_elf_packed_reloc_iterator_read_group_fields_def
  by (elim next_if_legible) (auto elim!: next_if_legible dest: group_addend_legible split: if_splits)

lemma packed_next_entry_legible:
  assumes "packed_next_entry w self = Inr x" and "legible (packed_bytes self) w w'"
  shows "packed_next_entry w' self = Inr x \<and> later self (snd x)"
proof -
  let ?c = "has_flag (group_flags self) RELOCATION_GROUPED_BY_OFFSET_DELTA_FLAG"
  let ?s = "if ?c then self\<lparr>k_r_offset := k_r_offset self + group_r_offset_delta self\<rparr> else self"
  have s: "decoder ?s = decoder self" by simp
  then have "legible (packed_bytes ?s) w w'" using assms(2) by (simp add: packed_bytes_def)
  then have "packed_next_entry w' self = Inr x \<and> later ?s (snd x)"
    using assms(1) unfolding packed_next_entry_def Let_def
    by (elim next_if_legible [rotated]) (auto elim!: next_if_legible)
  then show ?thesis using later_cong [OF s] by blast
qed

lemma packed_next_legible:
  assumes "xh_elf_packed_reloc_iterator_next w self = Inr x" and "legible (packed_bytes self) w w'"
  shows "xh_elf_packed_reloc_iterator_next w' self = Inr x \<and> later self (snd x)"
proof (cases "relocation_count self \<le> relocation_index self")
  case True
  then show ?thesis using assms(1) by (auto simp: xh_elf_packed_reloc_iterator_next_def)
next
  case False
  define g where "g w = (if relocation_group_index self = group_size self
     then xh_elf_packed_reloc_iterator_read_group_fields w self else Inr (0, self))" for w
  obtain r1 s1 where g: "g w = Inr (r1, s1)"
    using assms(1) False
    by (cases "g w") (auto simp: xh_elf_packed_reloc_iterator_next_def simp flip: g_def)
  have g': "g w' = Inr (r1, s1)" and l1: "later self s1"
    using read_group_fields_legible [of w self "(r1, s1)" w'] assms(2) g
    by (auto simp: g_def split: if_splits)
  show ?thesis
  proof (cases "r1 = 0")
    case False
    then show ?thesis
      using assms(1) \<open>\<not> _ \<le> _\<close> g g' l1
      by (auto simp: xh_elf_packed_reloc_iterator_next_def simp flip: g_def)
  next
    case True
    obtain r2 s2 where e: "packed_next_entry w s1 = Inr (r2, s2)"
      using assms(1) False g True
      by (cases "packed_next_entry w s1") (auto simp: xh_elf_packed_reloc_iterator_next_def simp flip: g_def)
    have "legible (packed_bytes s1) w w'"
      using assms(2) later_bytes [OF l1] by (rule legible_mono)
    from packed_next_entry_legible [OF e this]
    have e': "packed_next_entry w' s1 = Inr (r2, s2)" and l2: "later self s2"
      using later_trans [OF l1] by auto
    show ?thesis
      using assms(1) False g g' True e e' l2
      by (auto simp: xh_elf_packed_reloc_iterator_next_def later_def simp flip: g_def split: if_splits)
  qed
qed

lemma rel_in_iter_fields: "rel_fields (RelInIter off info) w = Inr (info, off)"
  by (simp add: rel_fields_def)

text \<open>The plain iterator hands out entries between its ends; the last one may stick out by 24 bytes at most.\<close>

definition plain_bytes :: "plain_reloc_iterator \<Rightarrow> addr set" where
  "plain_bytes it = {a. p_cur it \<le> a \<and> unat a < unat (p_end it) + 24}"

lemma plain_next_legible:
  assumes "xh_elf_plain_reloc_iterator_next it = Inr (Some r, it')"
  shows "plain_bytes it' \<subseteq> plain_bytes it"
    and "rel_fields r w = Inr f \<Longrightarrow> legible (plain_bytes it) w w' \<Longrightarrow> rel_fields r w' = Inr f"
proof -
  have lt: "p_cur it < p_end it" and r: "r = RelInImage (p_cur it)"
    and it': "it' = it\<lparr>p_cur := p_cur it + rel_size (p_is_use_rela it)\<rparr>"
    and no: "\<not> p_cur it + rel_size (p_is_use_rela it) < p_cur it"
    using assms by (auto simp: xh_elf_plain_reloc_iterator_next_def Let_def split: if_splits)
  show "plain_bytes it' \<subseteq> plain_bytes it"
    using no by (auto simp: plain_bytes_def it')
  have entry: "p_cur it + of_nat k \<in> plain_bytes it" if "k < 16" for k
  proof -
    let ?n = "rel_size (p_is_use_rela it)"
    have "16 \<le> unat ?n" by (simp add: rel_size_def)
    then have "unat (p_cur it) + k \<le> unat (p_cur it + ?n)"
      using no that unat_lt_64 [of ?n] by (auto simp: unat_plus_if_size word_less_nat_alt word_size)
    from unat_add_le [OF this] show ?thesis
      using lt that by (simp add: plain_bytes_def word_le_nat_alt word_less_nat_alt)
  qed
  have "ld64 w' p = Inr v" if "ld64 w p = Inr v" "p = p_cur it \<or> p = p_cur it + 8"
    "legible (plain_bytes it) w w'" for p v
    using that(2) entry [of "8 + k" for k] entry [of k for k]
    by (intro ld64_legible [OF that(1,3)]) (auto simp: add.assoc)
  then show "rel_fields r w = Inr f \<Longrightarrow> legible (plain_bytes it) w w' \<Longrightarrow> rel_fields r w' = Inr f"
    by (auto simp: rel_fields_def r)
qed

section \<open>The slots of a symbol\<close>

text \<open>The slot that a relocation entry names for the symbol, by the tests of \<open>xh_elf_find_and_replace_func\<close>.\<close>

definition reloc_slot :: "arch \<Rightarrow> xh_elf \<Rightarrow> bool \<Rightarrow> u32 \<Rightarrow> u64 \<times> u64 \<Rightarrow> addr option" where
  "reloc_slot arch self is_plt symidx f = (case f of (r_info, r_offset) \<Rightarrow>
     if XH_ELF_R_SYM r_info = ucast symidx \<and>
        XH_ELF_R_TYPE r_info \<in> (if is_plt then {XH_ELF_R_GENERIC_JUMP_SLOT arch}
          else {XH_ELF_R_GENERIC_GLOB_DAT arch, XH_ELF_R_GENERIC_ABS arch})
     then Some (bias_addr self + r_offset) else None)"

text \<open>The fields of the entries of a table, up to the first that cannot be read.\<close>

fun table_entries :: "(world \<Rightarrow> 'i \<Rightarrow> (rel_common option \<times> 'i) res) \<Rightarrow> nat \<Rightarrow> world \<Rightarrow> 'i \<Rightarrow> (u64 \<times> u64) list" where
  "table_entries nxt 0 w it = []"
| "table_entries nxt (Suc n) w it = (case nxt w it of
     Inr (Some r, it') \<Rightarrow> (case rel_fields r w of Inr f \<Rightarrow> f # table_entries nxt n w it' | Inl t \<Rightarrow> [])
   | _ \<Rightarrow> [])"

text \<open>The table can be read up to its end, or up to an entry where the loop stops.\<close>

fun table_ends ::
    "(u64 \<times> u64 \<Rightarrow> bool) \<Rightarrow> (world \<Rightarrow> 'i \<Rightarrow> (rel_common option \<times> 'i) res) \<Rightarrow> nat \<Rightarrow> world \<Rightarrow> 'i \<Rightarrow> bool" where
  "table_ends stop nxt 0 w it = False"
| "table_ends stop nxt (Suc n) w it = (case nxt w it of
     Inr (None, it') \<Rightarrow> True
   | Inr (Some r, it') \<Rightarrow> (case rel_fields r w of
       Inr f \<Rightarrow> stop f \<or> table_ends stop nxt n w it' | Inl t \<Rightarrow> False)
   | Inl t \<Rightarrow> False)"

text \<open>Replacing the function in one slot after the other, up to the first error.\<close>

fun replace_all :: "os \<Rightarrow> xh_elf \<Rightarrow> string \<Rightarrow> addr \<Rightarrow> addr \<Rightarrow> addr list \<Rightarrow> int elf_eff" where
  "replace_all os self symbol new_func old_func [] = retE 0"
| "replace_all os self symbol new_func old_func (a # as) =
     (if a < base_addr self then retE XH_ERRNO_FORMAT
      else bindE (xh_elf_replace_function os self symbol a new_func old_func) (\<lambda>r.
        if r \<noteq> 0 then retE r else replace_all os self symbol new_func old_func as))"

lemma replace_all_append:
  "replace_all os self symbol nf old (as @ bs) = bindE (replace_all os self symbol nf old as) (\<lambda>r.
     if r \<noteq> 0 then retE r else replace_all os self symbol nf old bs)"
proof (induction as)
  case (Cons a as)
  show ?case
    by (rule ext) (auto simp: Cons.IH bindE_def XH_ERRNO_FORMAT_def split: prod.splits sum.splits)
qed (simp add: bindE_def fun_eq_iff)

section \<open>One table\<close>

text \<open>The body of the three loops of \<open>xh_elf_hook\<close>; \<open>once\<close> for the loop that ends with the first slot.\<close>

definition hook_entry ::
    "os \<Rightarrow> arch \<Rightarrow> xh_elf \<Rightarrow> bool \<Rightarrow> string \<Rightarrow> addr \<Rightarrow> addr \<Rightarrow> u32 \<Rightarrow> rel_common \<Rightarrow> (int \<times> bool) elf_eff" where
  "hook_entry os arch self once symbol new_func old_func symidx r =
     bindE (xh_elf_find_and_replace_func os arch self once symbol new_func old_func symidx r)
       (\<lambda>(e, found). retE (e, once \<and> found))"

lemma hook_entry_fault: "rel_fields r w = Inl t \<Longrightarrow> hook_entry os arch self once sy nf old si r w = (Inl t, w)"
  by (simp add: hook_entry_def xh_elf_find_and_replace_func_def bindE_def readE_def)

lemma hook_entry_run:
  assumes "rel_fields r w = Inr f"
  shows "hook_entry os arch self once sy nf old si r w = (case reloc_slot arch self once si f of
      None \<Rightarrow> (Inr (0, False), w)
    | Some a \<Rightarrow> if a < base_addr self then (Inr (XH_ERRNO_FORMAT, once), w)
        else (case xh_elf_replace_function os self sy a nf old w of
            (Inl t, w') \<Rightarrow> (Inl t, w') | (Inr e, w') \<Rightarrow> (Inr (e, once), w')))"
  using assms
  by (cases f) (auto simp: hook_entry_def xh_elf_find_and_replace_func_def bindE_def readE_def reloc_slot_def
      Let_def split: prod.splits sum.splits)

lemma replace_function_frame:
  assumes "os_keeps_data os" and "xh_elf_replace_function os self symbol a nf old w = (r, w')"
    and "b \<notin> written a old"
  shows "mbytes w' b = mbytes w b"
  using assms(2,1)
proof (cases rule: replace_function_cases)
  case (slot w1 r2 w2)
  then show ?thesis using replace_slot_bytes [OF slot(2) assms(3)] by simp
qed simp

text \<open>The slots that the loop replaces: all that are named, or the first only.\<close>

definition named :: "bool \<Rightarrow> addr list \<Rightarrow> addr list" where
  "named once slots = (if once then take 1 slots else slots)"

text \<open>
  A table whose bytes are not written while it is being read: the loop over it replaces the slots that its
  entries name in the image as it was before.
\<close>

locale reloc_table = reloc_iterator +
  fixes bytes :: "'a \<Rightarrow> addr set"
  assumes nxt_legible: "nxt w it = Inr x \<Longrightarrow> legible (bytes it) w w' \<Longrightarrow> nxt w' it = Inr x"
    and nxt_bytes: "nxt w it = Inr (Some r, it') \<Longrightarrow> bytes it' \<subseteq> bytes it"
    and entry_legible: "nxt w it = Inr (Some r, it') \<Longrightarrow> rel_fields r w = Inr f \<Longrightarrow>
      legible (bytes it) w w' \<Longrightarrow> rel_fields r w' = Inr f"
begin

lemma loop_replaces:
  assumes "reloc_loop n nxt (hook_entry os arch self once sy nf old si) it w = (r, w')"
    and "os_keeps_data os" and "same_bytes (bytes it) w w0"
    and "slots = named once (List.map_filter (reloc_slot arch self once si) (table_entries nxt n (visible w0) it))"
    and "\<forall>a\<in>set slots. written a old \<inter> bytes it = {}"
  shows "(\<forall>e. r = Inr e \<longrightarrow> replace_all os self sy nf old slots w = (Inr e, w')) \<and>
    (\<forall>b. (\<forall>a\<in>set slots. b \<notin> written a old) \<longrightarrow> mbytes w' b = mbytes w b)"
  using assms(1,3,4,5)
proof (induction n arbitrary: it w slots)
  case 0
  then show ?case by auto
next
  case (Suc n)
  consider (trap) t where "nxt w it = Inl t" | (last) it' where "nxt w it = Inr (None, it')"
    | (some) r1 it1 where "nxt w it = Inr (Some r1, it1)"
    by (metis option.exhaust sum.exhaust surj_pair)
  then show ?case
  proof cases
    case trap
    then show ?thesis using Suc.prems by auto
  next
    case (last it')
    then have "slots = []"
      using nxt_legible [OF last legible_visible [OF Suc.prems(2)]] Suc.prems(3)
      by (simp add: named_def List.map_filter_simps)
    then show ?thesis using Suc.prems(1) last by auto
  next
    case (some r1 it1)
    note same1 = same_bytes_mono [OF Suc.prems(2) nxt_bytes [OF some]]
    note vis = nxt_legible [OF some legible_visible [OF Suc.prems(2)]]
    show ?thesis
    proof (cases "rel_fields r1 w")
      case (Inl t)
      then show ?thesis using Suc.prems(1) by (auto simp: some hook_entry_fault)
    next
      case (Inr f)
      note f' = entry_legible [OF some Inr legible_visible [OF Suc.prems(2)]]
      define rest where "rest = named once (List.map_filter (reloc_slot arch self once si)
          (table_entries nxt n (visible w0) it1))"
      show ?thesis
      proof (cases "reloc_slot arch self once si f")
        case None
        then have "slots = rest"
          using Suc.prems(3) by (simp add: vis f' rest_def named_def List.map_filter_simps)
        moreover have "reloc_loop n nxt (hook_entry os arch self once sy nf old si) it1 w = (r, w')"
          using Suc.prems(1) by (simp add: some hook_entry_run [OF Inr] None)
        ultimately show ?thesis
          using Suc.IH [OF _ same1 refl] Suc.prems(4) nxt_bytes [OF some] unfolding rest_def by blast
      next
        case (Some a)
        then have slots: "slots = (if once then [a] else a # rest)"
          using Suc.prems(3) by (simp add: vis f' rest_def named_def List.map_filter_simps)
        obtain r2 w2 where rep: "xh_elf_replace_function os self sy a nf old w = (r2, w2)"
          by (cases "xh_elf_replace_function os self sy a nf old w")
        note frame = replace_function_frame [OF assms(2) rep]
        have run: "reloc_loop (Suc n) nxt (hook_entry os arch self once sy nf old si) it w =
          (if a < base_addr self then (Inr XH_ERRNO_FORMAT, w)
           else case r2 of Inl t \<Rightarrow> (Inl t, w2)
           | Inr e \<Rightarrow> if e \<noteq> 0 then (Inr e, w2) else if once then (Inr 0, w2)
               else reloc_loop n nxt (hook_entry os arch self once sy nf old si) it1 w2)"
          by (simp add: some hook_entry_run [OF Inr] Some rep XH_ERRNO_FORMAT_def split: sum.splits)
        show ?thesis
        proof (cases "\<not> a < base_addr self \<and> r2 = Inr 0 \<and> \<not> once")
          case False
          then show ?thesis
            using Suc.prems(1) run rep frame
            by (auto simp: slots bindE_def XH_ERRNO_FORMAT_def split: if_splits sum.splits)
        next
          case True
          then have loop: "reloc_loop n nxt (hook_entry os arch self once sy nf old si) it1 w2 = (r, w')"
            using Suc.prems(1) run by simp
          have "same_bytes (bytes it1) w2 w"
            using frame Suc.prems(4) nxt_bytes [OF some] True by (auto simp: same_bytes_def slots)
          then have "same_bytes (bytes it1) w2 w0" using same1 by (rule same_bytes_trans)
          from Suc.IH [OF loop this refl] Suc.prems(4) nxt_bytes [OF some]
          have "(\<forall>e. r = Inr e \<longrightarrow> replace_all os self sy nf old rest w2 = (Inr e, w')) \<and>
            (\<forall>b. (\<forall>a\<in>set rest. b \<notin> written a old) \<longrightarrow> mbytes w' b = mbytes w2 b)"
            using True unfolding rest_def [symmetric] slots by fastforce
          then show ?thesis
            using True rep frame by (auto simp: slots bindE_def)
        qed
      qed
    qed
  qed
qed

text \<open>It ends with 0 when the table can be read to its end and every replacement succeeds.\<close>

lemma loop_completes:
  assumes "table_ends (\<lambda>f. once \<and> reloc_slot arch self once si f \<noteq> None) nxt n w0 it"
    and "same_bytes (bytes it) w w0" and "mprot w = mprot w0"
    and "slots = named once (List.map_filter (reloc_slot arch self once si) (table_entries nxt n (visible w0) it))"
    and "\<forall>a\<in>set slots. base_addr self \<le> a \<and> written a old \<inter> bytes it = {}"
    and step: "\<And>a w1. a \<in> set slots \<Longrightarrow> mprot w1 = mprot w0 \<Longrightarrow>
      \<exists>w2. xh_elf_replace_function os self sy a nf old w1 = (Inr 0, w2) \<and> mprot w2 = mprot w0"
    and os: "os_keeps_data os"
  shows "\<exists>w'. reloc_loop n nxt (hook_entry os arch self once sy nf old si) it w = (Inr 0, w') \<and> mprot w' = mprot w0"
  using assms(1-6)
proof (induction n arbitrary: it w slots)
  case 0
  then show ?case by simp
next
  case (Suc n)
  note same = legible_same [OF same_bytes_sym [OF Suc.prems(2)] Suc.prems(3)]
  have vis: "legible (bytes it) w0 (visible w0)" by (rule legible_visible) (simp add: same_bytes_def)
  consider (last) it' where "nxt w0 it = Inr (None, it')"
    | (some) r1 it1 f where "nxt w0 it = Inr (Some r1, it1)" and "rel_fields r1 w0 = Inr f"
    using Suc.prems(1)
    by (cases "nxt w0 it"; cases "fst (projr (nxt w0 it))"; cases "rel_fields (the (fst (projr (nxt w0 it)))) w0")
      auto
  then show ?case
  proof cases
    case (last it')
    then show ?thesis using nxt_legible [OF last same] Suc.prems(3) by simp
  next
    case (some r1 it1 f)
    note here = nxt_legible [OF some(1) same] entry_legible [OF some same]
      nxt_legible [OF some(1) vis] entry_legible [OF some vis]
    define rest where "rest = named once (List.map_filter (reloc_slot arch self once si)
        (table_entries nxt n (visible w0) it1))"
    show ?thesis
    proof (cases "reloc_slot arch self once si f")
      case None
      then have "slots = rest"
        using Suc.prems(4) by (simp add: here(3,4) rest_def named_def List.map_filter_simps)
      moreover have "table_ends (\<lambda>f. once \<and> reloc_slot arch self once si f \<noteq> None) nxt n w0 it1"
        using Suc.prems(1) some None by simp
      moreover have "same_bytes (bytes it1) w w0"
        using Suc.prems(2) nxt_bytes [OF some(1)] by (rule same_bytes_mono)
      moreover have "\<forall>a\<in>set slots. base_addr self \<le> a \<and> written a old \<inter> bytes it1 = {}"
        using Suc.prems(5) nxt_bytes [OF some(1)] by blast
      ultimately have "\<exists>w'. reloc_loop n nxt (hook_entry os arch self once sy nf old si) it1 w = (Inr 0, w') \<and>
          mprot w' = mprot w0"
        using Suc.prems(3,6) by (intro Suc.IH [where slots = slots]) (simp_all add: rest_def)
      then show ?thesis by (simp add: here(1) hook_entry_run [OF here(2)] None)
    next
      case (Some a)
      then have slots: "slots = (if once then [a] else a # rest)"
        using Suc.prems(4) by (simp add: here(3,4) rest_def named_def List.map_filter_simps)
      then obtain w2 where rep: "xh_elf_replace_function os self sy a nf old w = (Inr 0, w2)"
        and p2: "mprot w2 = mprot w0"
        using Suc.prems(6) [of a w] Suc.prems(3) by (auto split: if_splits)
      have "\<not> a < base_addr self" using Suc.prems(5) slots by (auto simp: not_less split: if_splits)
      then have run: "reloc_loop (Suc n) nxt (hook_entry os arch self once sy nf old si) it w =
          (if once then (Inr 0, w2) else reloc_loop n nxt (hook_entry os arch self once sy nf old si) it1 w2)"
        by (simp add: here(1) hook_entry_run [OF here(2)] Some rep)
      show ?thesis
      proof (cases once)
        case True
        then show ?thesis using run p2 by simp
      next
        case False
        have "same_bytes (bytes it1) w2 w"
          using replace_function_frame [OF os rep] Suc.prems(5) nxt_bytes [OF some(1)] False
          by (auto simp: same_bytes_def slots)
        then have "same_bytes (bytes it1) w2 w0"
          using Suc.prems(2) nxt_bytes [OF some(1)] by (blast intro: same_bytes_trans same_bytes_mono)
        moreover have "table_ends (\<lambda>f. once \<and> reloc_slot arch self once si f \<noteq> None) nxt n w0 it1"
          using Suc.prems(1) some False by simp
        moreover have "\<forall>a\<in>set rest. base_addr self \<le> a \<and> written a old \<inter> bytes it1 = {}"
          using Suc.prems(5) nxt_bytes [OF some(1)] False unfolding slots by fastforce
        ultimately have "\<exists>w'. reloc_loop n nxt (hook_entry os arch self once sy nf old si) it1 w2 = (Inr 0, w') \<and>
            mprot w' = mprot w0"
          using Suc.prems(6) p2 False slots
          by (intro Suc.IH [where slots = rest]) (simp_all add: rest_def)
        then show ?thesis using run False by simp
      qed
    qed
  qed
qed

end

interpretation plain_table: reloc_table "\<lambda>w. xh_elf_plain_reloc_iterator_next" plain_remaining plain_bytes
proof unfold_locales
  fix w it r it'
  assume nx: "xh_elf_plain_reloc_iterator_next it = Inr (Some r, it')"
  show "plain_bytes it' \<subseteq> plain_bytes it" by (rule plain_next_legible(1) [OF nx])
  show "rel_fields r w' = Inr f" if "rel_fields r w = Inr f" "legible (plain_bytes it) w w'" for w w' f
    by (rule plain_next_legible(2) [OF nx that])
qed simp

interpretation packed_table: reloc_table xh_elf_packed_reloc_iterator_next packed_remaining packed_bytes
proof unfold_locales
  fix w it r it' f w'
  assume "xh_elf_packed_reloc_iterator_next w it = Inr (Some r, it')" "rel_fields r w = Inr f"
  then show "rel_fields r w' = Inr f"
    by (auto simp: xh_elf_packed_reloc_iterator_next_def rel_in_iter_fields split: if_splits)
next
  fix w it r it'
  assume nx: "xh_elf_packed_reloc_iterator_next w it = Inr (Some r, it')"
  have "legible (packed_bytes it) w w" by (simp add: legible_def)
  from packed_next_legible [OF nx this] show "packed_bytes it' \<subseteq> packed_bytes it"
    by (intro later_bytes) simp
qed (drule (1) packed_next_legible, simp)

end
