(* ===== verification/HookProps.thy ===== *)
theory HookProps
  imports HookSpec
begin

text \<open>
  \<open>xh_elf_hook\<close> as a whole: the slots it replaces (\<open>hooked_slots\<close>), the bytes it reads while it writes
  (\<open>table_bytes\<close>), and its two contracts: with any kernel that leaves the data alone it does what
  \<open>replace_all\<close> does on these slots, and with a working kernel it succeeds.
\<close>

section \<open>The slots and the tables\<close>

definition plain_slots :: "arch \<Rightarrow> xh_elf \<Rightarrow> bool \<Rightarrow> u32 \<Rightarrow> addr \<Rightarrow> u32 \<Rightarrow> world \<Rightarrow> addr list" where
  "plain_slots arch self is_plt symidx rel rel_sz w =
     (if rel = 0 then []
      else let it = xh_elf_plain_reloc_iterator_init rel rel_sz (is_use_rela self) in
        named is_plt (List.map_filter (reloc_slot arch self is_plt symidx)
          (table_entries (\<lambda>w. xh_elf_plain_reloc_iterator_next) (Suc (plain_remaining it)) (visible w) it)))"

definition android_slots :: "arch \<Rightarrow> xh_elf \<Rightarrow> u32 \<Rightarrow> world \<Rightarrow> addr list" where
  "android_slots arch self symidx w =
     (if relandroid self = 0 then []
      else case xh_elf_packed_reloc_iterator_init (visible w) (relandroid self) (relandroid_sz self)
          (is_use_rela self) of
        Inl t \<Rightarrow> []
      | Inr (_, it) \<Rightarrow> List.map_filter (reloc_slot arch self False symidx)
          (table_entries xh_elf_packed_reloc_iterator_next (Suc (packed_remaining it)) (visible w) it))"

definition hooked_slots :: "arch \<Rightarrow> xh_elf \<Rightarrow> u32 \<Rightarrow> world \<Rightarrow> addr list" where
  "hooked_slots arch self symidx w =
     plain_slots arch self True symidx (relplt self) (relplt_sz self) w @
     plain_slots arch self False symidx (reldyn self) (reldyn_sz self) w @
     android_slots arch self symidx w"

definition plain_table_bytes :: "xh_elf \<Rightarrow> addr \<Rightarrow> u32 \<Rightarrow> addr set" where
  "plain_table_bytes self rel rel_sz =
     (if rel = 0 then {} else plain_bytes (xh_elf_plain_reloc_iterator_init rel rel_sz (is_use_rela self)))"

definition table_bytes :: "xh_elf \<Rightarrow> addr set" where
  "table_bytes self =
     plain_table_bytes self (relplt self) (relplt_sz self) \<union>
     plain_table_bytes self (reldyn self) (reldyn_sz self) \<union>
     (if relandroid self = 0 then {} else {relandroid self..<relandroid self + ucast (relandroid_sz self)})"

text \<open>All three tables can be read: up to the end, or up to the first slot of the PLT.\<close>

definition tables_end :: "arch \<Rightarrow> xh_elf \<Rightarrow> u32 \<Rightarrow> world \<Rightarrow> bool" where
  "tables_end arch self symidx w \<longleftrightarrow>
     (\<forall>(is_plt, rel, rel_sz) \<in> {(True, relplt self, relplt_sz self), (False, reldyn self, reldyn_sz self)}.
        rel \<noteq> 0 \<longrightarrow> (let it = xh_elf_plain_reloc_iterator_init rel rel_sz (is_use_rela self) in
          table_ends (\<lambda>f. is_plt \<and> reloc_slot arch self is_plt symidx f \<noteq> None)
            (\<lambda>w. xh_elf_plain_reloc_iterator_next) (Suc (plain_remaining it)) w it)) \<and>
     (relandroid self \<noteq> 0 \<longrightarrow> (case xh_elf_packed_reloc_iterator_init w (relandroid self) (relandroid_sz self)
          (is_use_rela self) of
        Inl t \<Rightarrow> False
      | Inr (_, it) \<Rightarrow> table_ends (\<lambda>f. False) xh_elf_packed_reloc_iterator_next (Suc (packed_remaining it)) w it))"

lemma tables_endD:
  assumes "tables_end arch self si w"
  shows "relplt self \<noteq> 0 \<Longrightarrow> it = xh_elf_plain_reloc_iterator_init (relplt self) (relplt_sz self) (is_use_rela self) \<Longrightarrow>
      table_ends (\<lambda>f. True \<and> reloc_slot arch self True si f \<noteq> None)
        (\<lambda>w. xh_elf_plain_reloc_iterator_next) (Suc (plain_remaining it)) w it"
    and "reldyn self \<noteq> 0 \<Longrightarrow> it = xh_elf_plain_reloc_iterator_init (reldyn self) (reldyn_sz self) (is_use_rela self) \<Longrightarrow>
      table_ends (\<lambda>f. False \<and> reloc_slot arch self False si f \<noteq> None)
        (\<lambda>w. xh_elf_plain_reloc_iterator_next) (Suc (plain_remaining it)) w it"
    and "relandroid self \<noteq> 0 \<Longrightarrow> \<exists>e it'. xh_elf_packed_reloc_iterator_init w (relandroid self) (relandroid_sz self)
        (is_use_rela self) = Inr (e, it') \<and>
      table_ends (\<lambda>f. False) xh_elf_packed_reloc_iterator_next (Suc (packed_remaining it')) w it'"
  using assms unfolding tables_end_def Let_def
  by (auto simp del: table_ends.simps split: sum.splits)

section \<open>The parts of the hook\<close>

lemma hook_plain_loop:
  "rel \<noteq> 0 \<Longrightarrow> it = xh_elf_plain_reloc_iterator_init rel rel_sz (is_use_rela self) \<Longrightarrow>
    hook_plain os arch self is_plt sy nf old si rel rel_sz w =
      reloc_loop (Suc (plain_remaining it)) (\<lambda>w. xh_elf_plain_reloc_iterator_next)
        (hook_entry os arch self is_plt sy nf old si) it w"
  by (simp add: hook_plain_def hook_entry_def [abs_def] Let_def del: reloc_loop.simps)

lemma hook_android_loop:
  assumes "relandroid self \<noteq> 0"
    and "xh_elf_packed_reloc_iterator_init w (relandroid self) (relandroid_sz self) (is_use_rela self) = Inr (r, it)"
  shows "hook_android os arch self sy nf old si w =
    reloc_loop (Suc (packed_remaining it)) xh_elf_packed_reloc_iterator_next
      (hook_entry os arch self False sy nf old si) it w"
  using assms by (simp add: hook_android_def hook_entry_def [abs_def] del: reloc_loop.simps)

lemma packed_init_legible:
  assumes "xh_elf_packed_reloc_iterator_init w rel rel_sz rela = Inr x"
    and "legible {rel..<rel + ucast rel_sz} w w'"
  shows "xh_elf_packed_reloc_iterator_init w' rel rel_sz rela = Inr x \<and>
    packed_bytes (snd x) \<subseteq> {rel..<rel + ucast rel_sz}"
proof -
  let ?self = "packed_reloc_iterator_zero
    \<lparr>decoder := xh_elf_sleb128_decoder_init rel rel_sz, k_is_use_rela := rela\<rparr>"
  have b: "packed_bytes ?self = {rel..<rel + ucast rel_sz}"
    by (simp add: packed_bytes_def xh_elf_sleb128_decoder_init_def)
  have second: "next_if w' True (\<lambda>v. k_r_offset_update (\<lambda>_. v)) s (\<lambda>self. Inr (0, self)) = Inr x \<and> later s (snd x)"
    if "next_if w True (\<lambda>v. k_r_offset_update (\<lambda>_. v)) s (\<lambda>self. Inr (0, self)) = Inr x"
      and "legible (packed_bytes s) w w'" for s
    using that by (rule next_if_legible) auto
  have "xh_elf_packed_reloc_iterator_init w' rel rel_sz rela = Inr x \<and> later ?self (snd x)"
    using assms(1) assms(2) [folded b] unfolding xh_elf_packed_reloc_iterator_init_def Let_def
    by (rule next_if_legible) (simp, rule second)
  then show ?thesis using later_bytes [of ?self] b by auto
qed

lemma packed_init_returns: "xh_elf_packed_reloc_iterator_init w rel rel_sz rela \<noteq> Inl Diverge"
  unfolding xh_elf_packed_reloc_iterator_init_def Let_def
  by (auto dest!: next_if_returns [THEN notE, rotated])

lemma replace_function_returns:
  "os_keeps_data os \<Longrightarrow> fst (xh_elf_replace_function os self sy a nf old w) \<noteq> Inl Diverge"
proof
  assume os: "os_keeps_data os" and "fst (xh_elf_replace_function os self sy a nf old w) = Inl Diverge"
  then obtain w' where "xh_elf_replace_function os self sy a nf old w = (Inl Diverge, w')"
    by (cases "xh_elf_replace_function os self sy a nf old w") auto
  from this os show False
  proof (cases rule: replace_function_cases)
    case (slot w1 r2 w2)
    from slot(2,4) show False by (cases rule: replace_slot_cases) auto
  qed simp
qed

lemma hook_entry_returns:
  "os_keeps_data os \<Longrightarrow> fst (hook_entry os arch self once sy nf old si r w) \<noteq> Inl Diverge"
proof (cases "rel_fields r w")
  case (Inl t)
  then have "t = Segv" by (auto simp: rel_fields_def seqE_Inl_iff dest: ld_trap split: rel_common.splits)
  with Inl show ?thesis by (simp add: hook_entry_fault)
next
  case (Inr f)
  assume os: "os_keeps_data os"
  show ?thesis
    using replace_function_returns [OF os, of self sy _ nf old w]
    by (auto simp: hook_entry_run [OF Inr] split: option.splits prod.splits sum.splits) (metis fst_conv)
qed

text \<open>
  A part of the hook, run when the bytes \<open>A\<close> of the tables are those of \<open>w0\<close>: it replaces the function in
  \<open>slots\<close>. And a part that cannot fail as long as the protections are those of \<open>w0\<close>.
\<close>

definition replaces ::
    "os \<Rightarrow> xh_elf \<Rightarrow> string \<Rightarrow> addr \<Rightarrow> addr \<Rightarrow> addr set \<Rightarrow> world \<Rightarrow> addr list \<Rightarrow> int elf_eff \<Rightarrow> bool" where
  "replaces os self sy nf old A w0 slots m \<longleftrightarrow>
     (\<forall>w r w'. m w = (r, w') \<and> same_bytes A w w0 \<longrightarrow>
        (\<forall>e. r = Inr e \<longrightarrow> replace_all os self sy nf old slots w = (Inr e, w')) \<and>
        (\<forall>b. (\<forall>a\<in>set slots. b \<notin> written a old) \<longrightarrow> mbytes w' b = mbytes w b) \<and> r \<noteq> Inl Diverge)"

definition succeeds :: "addr set \<Rightarrow> world \<Rightarrow> int elf_eff \<Rightarrow> bool" where
  "succeeds A w0 m \<longleftrightarrow> (\<forall>w. same_bytes A w w0 \<and> mprot w = mprot w0 \<longrightarrow>
     (\<exists>w'. m w = (Inr 0, w') \<and> mprot w' = mprot w0))"

lemma replacesD:
  assumes "replaces os self sy nf old A w0 slots m" and "m w = (r, w')" and "same_bytes A w w0"
  shows "r = Inr e \<Longrightarrow> replace_all os self sy nf old slots w = (Inr e, w')"
    and "\<forall>a\<in>set slots. b \<notin> written a old \<Longrightarrow> mbytes w' b = mbytes w b"
    and "r \<noteq> Inl Diverge"
  using assms unfolding replaces_def by blast+

lemma replaces_keeps:
  assumes "replaces os self sy nf old A w0 slots m" and "m w = (r, w')" and "same_bytes A w w0"
    and "\<forall>a\<in>set slots. written a old \<inter> A = {}"
  shows "same_bytes A w' w0"
proof -
  have "mbytes w' b = mbytes w b" if "b \<in> A" for b
    using assms(4) that by (intro replacesD(2) [OF assms(1-3)]) blast
  then show ?thesis using assms(3) by (simp add: same_bytes_def)
qed

lemma replaces_then:
  assumes m1: "replaces os self sy nf old A w0 slots1 m1" and m2: "replaces os self sy nf old A w0 slots2 m2"
    and apart: "\<forall>a\<in>set slots1. written a old \<inter> A = {}"
  shows "replaces os self sy nf old A w0 (slots1 @ slots2) (bindE m1 (\<lambda>r. if r \<noteq> 0 then retE r else m2))"
  unfolding replaces_def
proof (intro allI impI, elim conjE)
  fix w r w'
  assume run: "bindE m1 (\<lambda>r. if r \<noteq> 0 then retE r else m2) w = (r, w')" and same: "same_bytes A w w0"
  from run show "(\<forall>e. r = Inr e \<longrightarrow> replace_all os self sy nf old (slots1 @ slots2) w = (Inr e, w')) \<and>
    (\<forall>b. (\<forall>a\<in>set (slots1 @ slots2). b \<notin> written a old) \<longrightarrow> mbytes w' b = mbytes w b) \<and> r \<noteq> Inl Diverge"
  proof (cases rule: bindE_cases)
    case (trap t)
    then show ?thesis using replacesD(2,3) [OF m1 trap(1) same] by auto
  next
    case (go e w1)
    note first = replacesD(1) [OF m1 go(1) same refl] replacesD(2) [OF m1 go(1) same]
    show ?thesis
    proof (cases "e = 0")
      case True
      then have m2w: "m2 w1 = (r, w')" using go(2) by simp
      moreover have "same_bytes A w1 w0" by (rule replaces_keeps [OF m1 go(1) same apart])
      ultimately show ?thesis
        using replacesD [OF m2] first True by (auto simp: replace_all_append bindE_def)
    next
      case False
      then show ?thesis using first go(2) by (auto simp: replace_all_append bindE_def)
    qed
  qed
qed

lemma succeedsD: "succeeds A w m \<Longrightarrow> \<exists>w'. m w = (Inr 0, w') \<and> mprot w' = mprot w"
  by (simp add: succeeds_def same_bytes_def)

lemma succeeds_then:
  assumes "succeeds A w0 m1" and "succeeds A w0 m2" and "replaces os self sy nf old A w0 slots1 m1"
    and "\<forall>a\<in>set slots1. written a old \<inter> A = {}"
  shows "succeeds A w0 (bindE m1 (\<lambda>r. if r \<noteq> 0 then retE r else m2))"
  unfolding succeeds_def
proof (intro allI impI, elim conjE)
  fix w
  assume same: "same_bytes A w w0" and p: "mprot w = mprot w0"
  then obtain w1 where w1: "m1 w = (Inr 0, w1)" "mprot w1 = mprot w0"
    using assms(1) unfolding succeeds_def by blast
  moreover have "same_bytes A w1 w0" by (rule replaces_keeps [OF assms(3) w1(1) same assms(4)])
  ultimately obtain w2 where "m2 w1 = (Inr 0, w2)" "mprot w2 = mprot w0"
    using assms(2) unfolding succeeds_def by blast
  then show "\<exists>w'. bindE m1 (\<lambda>r. if r \<noteq> 0 then retE r else m2) w = (Inr 0, w') \<and> mprot w' = mprot w0"
    using w1 by (simp add: bindE_def)
qed

lemma same_bytes_refl [simp]: "same_bytes A w w"
  by (simp add: same_bytes_def)

lemma hook_plain_replaces:
  assumes "os_keeps_data os" and "plain_table_bytes self rel rel_sz \<subseteq> A"
    and "slots = plain_slots arch self is_plt si rel rel_sz w0"
    and "\<forall>a\<in>set slots. written a old \<inter> A = {}"
  shows "replaces os self sy nf old A w0 slots (hook_plain os arch self is_plt sy nf old si rel rel_sz)"
proof (cases "rel = 0")
  case True
  then show ?thesis using assms(3) by (simp add: replaces_def hook_plain_def plain_slots_def)
next
  case False
  define it where "it = xh_elf_plain_reloc_iterator_init rel rel_sz (is_use_rela self)"
  have A: "plain_bytes it \<subseteq> A" using assms(2) False by (simp add: plain_table_bytes_def it_def)
  have slots: "slots = named is_plt (List.map_filter (reloc_slot arch self is_plt si)
      (table_entries (\<lambda>w. xh_elf_plain_reloc_iterator_next) (Suc (plain_remaining it)) (visible w0) it))"
    using assms(3) False by (simp only: plain_slots_def it_def Let_def if_False)
  have apart: "\<forall>a\<in>set slots. written a old \<inter> plain_bytes it = {}" using assms(4) A by blast
  show ?thesis
    unfolding replaces_def
  proof (intro allI impI, elim conjE)
    fix w r w'
    assume "hook_plain os arch self is_plt sy nf old si rel rel_sz w = (r, w')" and same: "same_bytes A w w0"
    then have run: "reloc_loop (Suc (plain_remaining it)) (\<lambda>w. xh_elf_plain_reloc_iterator_next)
        (hook_entry os arch self is_plt sy nf old si) it w = (r, w')"
      using hook_plain_loop [OF False it_def] by simp
    have "fst (r, w') \<noteq> Inl Diverge"
      unfolding run [symmetric] by (rule plain.loop_returns) (simp_all add: hook_entry_returns assms(1))
    then show "(\<forall>e. r = Inr e \<longrightarrow> replace_all os self sy nf old slots w = (Inr e, w')) \<and>
        (\<forall>b. (\<forall>a\<in>set slots. b \<notin> written a old) \<longrightarrow> mbytes w' b = mbytes w b) \<and> r \<noteq> Inl Diverge"
      using plain_table.loop_replaces [OF run assms(1) same_bytes_mono [OF same A] slots apart] by simp
  qed
qed

lemma hook_android_replaces:
  assumes "os_keeps_data os" and "relandroid self \<noteq> 0 \<Longrightarrow> {relandroid self..<relandroid self + ucast (relandroid_sz self)} \<subseteq> A"
    and "slots = android_slots arch self si w0"
    and "\<forall>a\<in>set slots. written a old \<inter> A = {}"
  shows "replaces os self sy nf old A w0 slots (hook_android os arch self sy nf old si)"
proof (cases "relandroid self = 0")
  case True
  then show ?thesis using assms(3) by (simp add: replaces_def hook_android_def android_slots_def)
next
  case False
  note A = assms(2) [OF False]
  let ?init = "\<lambda>w. xh_elf_packed_reloc_iterator_init w (relandroid self) (relandroid_sz self) (is_use_rela self)"
  show ?thesis
    unfolding replaces_def
  proof (intro allI impI, elim conjE)
    fix w r w'
    assume run: "hook_android os arch self sy nf old si w = (r, w')" and same: "same_bytes A w w0"
    show "(\<forall>e. r = Inr e \<longrightarrow> replace_all os self sy nf old slots w = (Inr e, w')) \<and>
        (\<forall>b. (\<forall>a\<in>set slots. b \<notin> written a old) \<longrightarrow> mbytes w' b = mbytes w b) \<and> r \<noteq> Inl Diverge"
    proof (cases "?init w")
      case (Inl t)
      then show ?thesis using run False packed_init_returns [of w "relandroid self"]
        by (auto simp: hook_android_def)
    next
      case (Inr p)
      obtain e it where p: "p = (e, it)" by (cases p)
      from packed_init_legible [OF Inr legible_visible [OF same_bytes_mono [OF same A]]]
      have init: "?init (visible w0) = Inr (e, it)" and sub: "packed_bytes it \<subseteq> A"
        using A by (auto simp: p)
      have slots: "slots = named False (List.map_filter (reloc_slot arch self False si)
          (table_entries xh_elf_packed_reloc_iterator_next (Suc (packed_remaining it)) (visible w0) it))"
        using assms(3) False by (simp add: android_slots_def init named_def del: table_entries.simps)
      have apart: "\<forall>a\<in>set slots. written a old \<inter> packed_bytes it = {}" using assms(4) sub by blast
      have loop: "reloc_loop (Suc (packed_remaining it)) xh_elf_packed_reloc_iterator_next
          (hook_entry os arch self False sy nf old si) it w = (r, w')"
        using run hook_android_loop [OF False Inr [unfolded p]] by simp
      have "fst (r, w') \<noteq> Inl Diverge"
        unfolding loop [symmetric] by (rule packed.loop_returns) (simp_all add: hook_entry_returns assms(1))
      then show ?thesis
        using packed_table.loop_replaces [OF loop assms(1) same_bytes_mono [OF same sub] slots apart] by simp
    qed
  qed
qed

text \<open>With replacements that succeed and tables that can be read, both parts succeed.\<close>

lemma hook_plain_succeeds:
  assumes "os_keeps_data os" and "plain_table_bytes self rel rel_sz \<subseteq> A"
    and "slots = plain_slots arch self is_plt si rel rel_sz w0"
    and "\<forall>a\<in>set slots. base_addr self \<le> a \<and> written a old \<inter> A = {}"
    and "\<And>a. a \<in> set slots \<Longrightarrow> succeeds {} w0 (xh_elf_replace_function os self sy a nf old)"
    and "rel \<noteq> 0 \<Longrightarrow> it = xh_elf_plain_reloc_iterator_init rel rel_sz (is_use_rela self) \<Longrightarrow>
      table_ends (\<lambda>f. is_plt \<and> reloc_slot arch self is_plt si f \<noteq> None)
        (\<lambda>w. xh_elf_plain_reloc_iterator_next) (Suc (plain_remaining it)) w0 it"
    and it: "it = xh_elf_plain_reloc_iterator_init rel rel_sz (is_use_rela self)"
  shows "succeeds A w0 (hook_plain os arch self is_plt sy nf old si rel rel_sz)"
proof (cases "rel = 0")
  case True
  then show ?thesis by (simp add: succeeds_def hook_plain_def)
next
  case False
  have A: "plain_bytes it \<subseteq> A" using assms(2) False by (simp add: plain_table_bytes_def it)
  have slots: "slots = named is_plt (List.map_filter (reloc_slot arch self is_plt si)
      (table_entries (\<lambda>w. xh_elf_plain_reloc_iterator_next) (Suc (plain_remaining it)) (visible w0) it))"
    using assms(3) False by (simp only: plain_slots_def it Let_def if_False)
  have apart: "\<forall>a\<in>set slots. base_addr self \<le> a \<and> written a old \<inter> plain_bytes it = {}"
    using assms(4) A by blast
  have step: "\<exists>w2. xh_elf_replace_function os self sy a nf old w1 = (Inr 0, w2) \<and> mprot w2 = mprot w0"
    if "a \<in> set slots" "mprot w1 = mprot w0" for a w1
    using assms(5) [OF that(1)] that(2) by (simp add: succeeds_def same_bytes_def)
  show ?thesis
    unfolding succeeds_def hook_plain_loop [OF False it]
    using plain_table.loop_completes [OF assms(6) [OF False it] same_bytes_mono [OF _ A] _ slots apart step assms(1)]
    by blast
qed

lemma hook_android_succeeds:
  assumes "os_keeps_data os" and "relandroid self \<noteq> 0 \<Longrightarrow> {relandroid self..<relandroid self + ucast (relandroid_sz self)} \<subseteq> A"
    and "slots = android_slots arch self si w0"
    and "\<forall>a\<in>set slots. base_addr self \<le> a \<and> written a old \<inter> A = {}"
    and "\<And>a. a \<in> set slots \<Longrightarrow> succeeds {} w0 (xh_elf_replace_function os self sy a nf old)"
    and "relandroid self \<noteq> 0 \<Longrightarrow> \<exists>e it. xh_elf_packed_reloc_iterator_init w0 (relandroid self) (relandroid_sz self)
        (is_use_rela self) = Inr (e, it) \<and>
      table_ends (\<lambda>f. False) xh_elf_packed_reloc_iterator_next (Suc (packed_remaining it)) w0 it"
  shows "succeeds A w0 (hook_android os arch self sy nf old si)"
proof (cases "relandroid self = 0")
  case True
  then show ?thesis by (simp add: succeeds_def hook_android_def)
next
  case False
  note A = assms(2) [OF False]
  obtain e it where init: "xh_elf_packed_reloc_iterator_init w0 (relandroid self) (relandroid_sz self)
      (is_use_rela self) = Inr (e, it)"
    and ends: "table_ends (\<lambda>f. False) xh_elf_packed_reloc_iterator_next (Suc (packed_remaining it)) w0 it"
    using assms(6) [OF False] by blast
  from packed_init_legible [OF init legible_visible [OF same_bytes_refl]]
  have vis: "xh_elf_packed_reloc_iterator_init (visible w0) (relandroid self) (relandroid_sz self)
      (is_use_rela self) = Inr (e, it)" and sub: "packed_bytes it \<subseteq> A"
    using A by auto
  have slots: "slots = named False (List.map_filter (reloc_slot arch self False si)
      (table_entries xh_elf_packed_reloc_iterator_next (Suc (packed_remaining it)) (visible w0) it))"
    using assms(3) False by (simp add: android_slots_def vis named_def del: table_entries.simps)
  have apart: "\<forall>a\<in>set slots. base_addr self \<le> a \<and> written a old \<inter> packed_bytes it = {}"
    using assms(4) sub by blast
  have step: "\<exists>w2. xh_elf_replace_function os self sy a nf old w1 = (Inr 0, w2) \<and> mprot w2 = mprot w0"
    if "a \<in> set slots" "mprot w1 = mprot w0" for a w1
    using assms(5) [OF that(1)] that(2) by (simp add: succeeds_def same_bytes_def)
  have ends': "table_ends (\<lambda>f. False \<and> reloc_slot arch self False si f \<noteq> None)
      xh_elf_packed_reloc_iterator_next (Suc (packed_remaining it)) w0 it"
    using ends by simp
  show ?thesis
    unfolding succeeds_def
  proof (intro allI impI, elim conjE)
    fix w
    assume same: "same_bytes A w w0" and p: "mprot w = mprot w0"
    have "legible {relandroid self..<relandroid self + ucast (relandroid_sz self)} w0 w"
      by (rule legible_same [OF same_bytes_sym [OF same_bytes_mono [OF same A]] p])
    from packed_init_legible [OF init this]
    have "hook_android os arch self sy nf old si w =
        reloc_loop (Suc (packed_remaining it)) xh_elf_packed_reloc_iterator_next
          (hook_entry os arch self False sy nf old si) it w"
      by (intro hook_android_loop [OF False]) simp
    then show "\<exists>w'. hook_android os arch self sy nf old si w = (Inr 0, w') \<and> mprot w' = mprot w0"
      using packed_table.loop_completes [OF ends' same_bytes_mono [OF same sub] p slots apart step assms(1)]
      by simp
  qed
qed

section \<open>What a sequence of replacements leaves behind\<close>

lemma aligned_slots_apart:
  assumes "aligned 8 a" "aligned 8 b" "a \<noteq> b"
  shows "slot a \<inter> slot b = {}"
proof (rule ccontr)
  assume "slot a \<inter> slot b \<noteq> {}"
  then obtain i j where ij: "i < 8" "j < 8" and eq: "a + of_nat i = b + of_nat j" by (auto simp: slot_def)
  have up: "unat (c + of_nat k) = unat c + k" if "aligned 8 c" "k < 8" for c :: addr and k
  proof -
    have "unat c mod 8 = 0" using that(1) by (simp add: aligned_unat)
    then have "unat c + k < 2 ^ 64" using that(2) unat_lt_64 [of c] by (simp add: mod_eq_0_iff_dvd dvd_def) presburger
    then show ?thesis using that(2) by (simp add: unat_word_ariths unat_of_nat take_bit_nat_eq_self)
  qed
  have "unat a mod 8 = 0" "unat b mod 8 = 0" using assms(1,2) by (simp_all add: aligned_unat)
  moreover have "unat a + i = unat b + j" using up ij assms(1,2) eq by metis
  ultimately have "unat a = unat b" using ij by presburger
  then have "a = b" by (simp add: word_unat_eq_iff)
  with assms(3) show False by simp
qed

lemma mprotect_works_data: "mprotect_works os \<Longrightarrow> os_keeps_data os"
  by (simp add: mprotect_works_def os_keeps_data_def)

lemma replace_slot_values:
  assumes "replace_slot a nf old w = (Inr (), w')" and "old = 0 \<or> slot old \<inter> slot a = {}"
  shows "word64 w' a = nf" and "old \<noteq> 0 \<Longrightarrow> word64 w' old = word64 w a"
  using assms(1)
proof (atomize (full), cases rule: replace_slot_cases)
  case (both v w1)
  have "word64 w' old = word64 w1 old" if "old \<noteq> 0"
    using assms(2) that st64_outside [OF both(3)] by (intro word64_cong) auto
  then show "word64 w' a = nf \<and> (old \<noteq> 0 \<longrightarrow> word64 w' old = word64 w a)"
    using both ld64_word64 [OF both(1)] word64_st64 [OF both(3)] by (auto dest: word64_st64 split: if_splits)
qed simp_all

lemma replace_function_values:
  assumes os: "os_keeps_data os" and run: "xh_elf_replace_function os self sy a nf old w = (Inr 0, w')"
    and apart: "old = 0 \<or> slot old \<inter> slot a = {}"
  shows "word64 w' a = nf \<and> (old \<noteq> 0 \<longrightarrow> word64 w' old = (if word64 w a = nf then word64 w old else word64 w a)) \<and>
    (\<forall>c. slot c \<inter> written a old = {} \<longrightarrow> word64 w' c = word64 w c)"
proof -
  have "word64 w' c = word64 w c" if "slot c \<inter> written a old = {}" for c
    using that by (intro word64_cong replace_function_frame [OF os run]) blast
  moreover have "word64 w' a = nf \<and>
      (old \<noteq> 0 \<longrightarrow> word64 w' old = (if word64 w a = nf then word64 w old else word64 w a))"
    using run os
  proof (cases rule: replace_function_cases)
    case same
    then have "word64 w' c = word64 w c" for c by (intro word64_cong) simp
    then show ?thesis using ld64_word64 [OF same(2)] by simp
  next
    case (slot w1 r2 w2)
    have rs: "replace_slot a nf old w1 = (Inr (), w2)" using slot(2,4) by (cases r2) auto
    have "word64 w1 c = word64 w c" "word64 w' c = word64 w2 c" for c
      using slot(1,3) by (auto intro: word64_cong)
    then show ?thesis using replace_slot_values [OF rs apart] slot(5) by simp
  qed
  ultimately show ?thesis by blast
qed

text \<open>The value that \<open>*old_func\<close> ends with: that of the last slot that did not hold the new function.\<close>

definition reported :: "world \<Rightarrow> addr \<Rightarrow> addr \<Rightarrow> addr list \<Rightarrow> u64" where
  "reported w nf old slots = last (word64 w old # filter (\<lambda>v. v \<noteq> nf) (map (word64 w) slots))"

lemma replace_all_values:
  assumes os: "os_keeps_data os" and "replace_all os self sy nf old slots w = (Inr 0, w')"
    and "\<forall>a\<in>set slots. aligned 8 a \<and> (old = 0 \<or> slot old \<inter> slot a = {})"
  shows "(\<forall>a\<in>set slots. word64 w' a = nf) \<and>
    (\<forall>c. (\<forall>a\<in>set slots. slot c \<inter> written a old = {}) \<longrightarrow> word64 w' c = word64 w c) \<and>
    (old \<noteq> 0 \<and> distinct slots \<longrightarrow> word64 w' old = reported w nf old slots)"
  using assms(2,3)
proof (induction slots arbitrary: w)
  case Nil
  then show ?case by (simp add: reported_def)
next
  case (Cons a as)
  from Cons.prems(1) have "bindE (xh_elf_replace_function os self sy a nf old) (\<lambda>r.
      if r \<noteq> 0 then retE r else replace_all os self sy nf old as) w = (Inr 0, w')"
    by (auto simp: XH_ERRNO_FORMAT_def split: if_splits)
  then obtain w1 where one: "xh_elf_replace_function os self sy a nf old w = (Inr 0, w1)"
    and rest: "replace_all os self sy nf old as w1 = (Inr 0, w')"
    by (cases rule: bindE_cases) (auto split: if_splits)
  have al: "aligned 8 a" and ap: "old = 0 \<or> slot old \<inter> slot a = {}" using Cons.prems(2) by auto
  note v = replace_function_values [OF os one ap]
  from Cons.IH [OF rest] Cons.prems(2)
  have IH: "\<forall>a\<in>set as. word64 w' a = nf"
    "\<forall>c. (\<forall>a\<in>set as. slot c \<inter> written a old = {}) \<longrightarrow> word64 w' c = word64 w1 c"
    "old \<noteq> 0 \<and> distinct as \<longrightarrow> word64 w' old = reported w1 nf old as" by simp_all
  have untouched: "slot c \<inter> written d old = {}"
    if "c \<in> set (a # as)" "aligned 8 d" "c \<noteq> d" for c d
    using that Cons.prems(2) aligned_slots_apart [of c d] by (auto simp: written_def)
  have "word64 w' a = nf"
  proof (cases "a \<in> set as")
    case False
    then have "word64 w' a = word64 w1 a"
      using untouched [of a] Cons.prems(2) IH(2) by (metis list.set_intros)
    then show ?thesis using v by simp
  qed (use IH(1) in simp)
  moreover have "word64 w' c = word64 w c" if "\<forall>d\<in>set (a # as). slot c \<inter> written d old = {}" for c
    using that IH(2) v by simp
  moreover have "word64 w' old = reported w nf old (a # as)" if "old \<noteq> 0" "distinct (a # as)"
  proof -
    have "word64 w1 c = word64 w c" if "c \<in> set as" for c
      using v untouched [of c a] al that \<open>distinct (a # as)\<close> by auto
    then have eq: "map (word64 w1) as = map (word64 w) as" by simp
    have "reported w1 nf old as = last (word64 w1 old # filter (\<lambda>v. v \<noteq> nf) (map (word64 w) as))"
      by (simp only: reported_def eq)
    then show ?thesis using IH(3) v that by (simp add: reported_def)
  qed
  ultimately show ?case using IH(1) by simp
qed

section \<open>The contracts\<close>

lemma xh_elf_hook_found:
  assumes "pathname self \<noteq> None" and "nf \<noteq> 0" and "xh_elf_find_symidx_by_name w self sy = Inr (Inr si)"
  shows "xh_elf_hook os arch self (Some sy) nf old w =
    bindE (hook_plain os arch self True sy nf old si (relplt self) (relplt_sz self)) (\<lambda>r. if r \<noteq> 0 then retE r else
    bindE (hook_plain os arch self False sy nf old si (reldyn self) (reldyn_sz self)) (\<lambda>r. if r \<noteq> 0 then retE r else
    hook_android os arch self sy nf old si)) w"
  using assms by (auto simp: xh_elf_hook_def bindE_def [of "readE _"] readE_def)

lemma table_bytes_parts:
  "plain_table_bytes self (relplt self) (relplt_sz self) \<subseteq> table_bytes self"
  "plain_table_bytes self (reldyn self) (reldyn_sz self) \<subseteq> table_bytes self"
  "relandroid self \<noteq> 0 \<Longrightarrow> {relandroid self..<relandroid self + ucast (relandroid_sz self)} \<subseteq> table_bytes self"
  by (auto simp: table_bytes_def)

lemma xh_elf_hook_replaces:
  assumes os: "os_keeps_data os" and "pathname self \<noteq> None" and "nf \<noteq> 0"
    and "xh_elf_find_symidx_by_name w self sy = Inr (Inr si)"
    and apart: "\<forall>a\<in>set (hooked_slots arch self si w). written a old \<inter> table_bytes self = {}"
    and run: "xh_elf_hook os arch self (Some sy) nf old w = (r, w')"
  shows "(\<forall>e. r = Inr e \<longrightarrow> replace_all os self sy nf old (hooked_slots arch self si w) w = (Inr e, w')) \<and>
    (\<forall>b. (\<forall>a\<in>set (hooked_slots arch self si w). b \<notin> written a old) \<longrightarrow> mbytes w' b = mbytes w b) \<and>
    r \<noteq> Inl Diverge"
proof -
  note replaces = hook_plain_replaces [OF os table_bytes_parts(1) refl]
    hook_plain_replaces [OF os table_bytes_parts(2) refl] hook_android_replaces [OF os table_bytes_parts(3) refl]
  have hook: "replaces os self sy nf old (table_bytes self) w (hooked_slots arch self si w)
    (bindE (hook_plain os arch self True sy nf old si (relplt self) (relplt_sz self)) (\<lambda>r. if r \<noteq> 0 then retE r else
     bindE (hook_plain os arch self False sy nf old si (reldyn self) (reldyn_sz self)) (\<lambda>r. if r \<noteq> 0 then retE r else
     hook_android os arch self sy nf old si)))"
    using apart unfolding hooked_slots_def by (intro replaces_then replaces) auto
  note run = run [unfolded xh_elf_hook_found [OF assms(2-4)]]
  show ?thesis using replacesD [OF hook run same_bytes_refl] by blast
qed

text \<open>
  Claim C3. \<open>xh_elf_hook\<close> with a symbol that the lookup finds, as long as the slots and \<open>*old_func\<close> do not lie inside the relocation
  tables and whatever the kernel answers: a call that returns (0 or an error) has done exactly what
  replacing the function slot after slot does, for the slots that the tables named before the call (the first
  of the PLT, all of the other two tables); a call that returns 0 leaves the new function in every one of
  them; also a call that a fault cuts short writes nothing outside these slots and \<open>*old_func\<close>; and the
  loops over the tables always end.
\<close>

theorem xh_elf_hook_refines:
  assumes "os_keeps_data os" and "pathname self \<noteq> None" and "nf \<noteq> 0"
    and "xh_elf_find_symidx_by_name w self sy = Inr (Inr si)"
    and "\<forall>a\<in>set (hooked_slots arch self si w). written a old \<inter> table_bytes self = {} \<and>
      aligned 8 a \<and> (old = 0 \<or> slot old \<inter> slot a = {})"
    and "xh_elf_hook os arch self (Some sy) nf old w = (r, w')"
  shows "(\<forall>e. r = Inr e \<longrightarrow> replace_all os self sy nf old (hooked_slots arch self si w) w = (Inr e, w')) \<and>
    (r = Inr 0 \<longrightarrow> (\<forall>a\<in>set (hooked_slots arch self si w). word64 w' a = nf)) \<and>
    (\<forall>b. (\<forall>a\<in>set (hooked_slots arch self si w). b \<notin> written a old) \<longrightarrow> mbytes w' b = mbytes w b) \<and>
    r \<noteq> Inl Diverge"
proof -
  have "\<forall>a\<in>set (hooked_slots arch self si w). written a old \<inter> table_bytes self = {}" using assms(5) by blast
  note spec = xh_elf_hook_replaces [OF assms(1-4) this assms(6)]
  have "\<forall>a\<in>set (hooked_slots arch self si w). word64 w' a = nf" if "r = Inr 0"
    using spec that assms(5) replace_all_values [OF assms(1), of self sy nf old "hooked_slots arch self si w" w w']
    by blast
  with spec show ?thesis by blast
qed

lemma replace_function_succeeds:
  assumes "mprotect_works os" and "os_lists os w0 vs"
    and stable: "\<forall>w :: world. mprot w = mprot w0 \<longrightarrow> proc_maps os w = proc_maps os w0"
    and "v \<in> set vs" "considered (pathname self) v" "vma_has v a" "bit (vma_prot v) 0" and "aligned 8 a"
    and old: "old = 0 \<or> all_writable w0 8 old \<and> slot old \<inter> slot a = {}"
  shows "succeeds {} w0 (xh_elf_replace_function os self sy a nf old)"
  unfolding succeeds_def
proof (intro allI impI, elim conjE)
  fix w :: world
  assume p: "mprot w = mprot w0"
  have "proc_maps os w = proc_maps os w0" using stable p by blast
  then have lists: "os_lists os w vs" using assms(2) p by (simp add: os_lists_def)
  have "old = 0 \<or> all_writable w 8 old \<and> slot old \<inter> slot a = {}" using old all_writable_cong [OF p] by simp
  from replace_function_runs [OF assms(1) lists assms(4-8) this, of sy nf]
  show "\<exists>w'. xh_elf_replace_function os self sy a nf old w = (Inr 0, w') \<and> mprot w' = mprot w0"
    unfolding p by (elim exE conjE) (intro exI conjI)
qed

lemma hook_works:
  assumes kernel: "mprotect_works os" "os_lists os w vs" "\<forall>w' :: world. mprot w' = mprot w \<longrightarrow> proc_maps os w' = proc_maps os w"
    and call: "pathname self \<noteq> None" "nf \<noteq> 0" "xh_elf_find_symidx_by_name w self sy = Inr (Inr si)"
    and tables: "tables_end arch self si w"
    and slots: "\<forall>a\<in>set (hooked_slots arch self si w). written a old \<inter> table_bytes self = {} \<and> aligned 8 a \<and>
      base_addr self \<le> a \<and> (old = 0 \<or> all_writable w 8 old \<and> slot old \<inter> slot a = {}) \<and>
      (\<exists>v\<in>set vs. considered (pathname self) v \<and> vma_has v a \<and> bit (vma_prot v) 0)"
  obtains w' where "xh_elf_hook os arch self (Some sy) nf old w = (Inr 0, w')"
    and "\<forall>a\<in>set (hooked_slots arch self si w). word64 w' a = nf" and "mprot w' = mprot w"
    and "old \<noteq> 0 \<and> distinct (hooked_slots arch self si w) \<longrightarrow> word64 w' old = reported w nf old (hooked_slots arch self si w)"
    and "\<forall>b. (\<forall>a\<in>set (hooked_slots arch self si w). b \<notin> written a old) \<longrightarrow> mbytes w' b = mbytes w b"
proof -
  note os = mprotect_works_data [OF kernel(1)]
  let ?A = "table_bytes self"
  have one: "succeeds {} w (xh_elf_replace_function os self sy a nf old)"
    if "a \<in> set (hooked_slots arch self si w)" for a
    using slots that by (blast intro: replace_function_succeeds [OF kernel])
  define plt where "plt = plain_slots arch self True si (relplt self) (relplt_sz self) w"
  define dyns where "dyns = plain_slots arch self False si (reldyn self) (reldyn_sz self) w"
  define android where "android = android_slots arch self si w"
  have all: "hooked_slots arch self si w = plt @ dyns @ android"
    by (simp add: hooked_slots_def plt_def dyns_def android_def)
  have fine: "\<forall>a\<in>set plt \<union> set dyns \<union> set android. base_addr self \<le> a \<and> written a old \<inter> ?A = {}"
    using slots unfolding all by auto
  note ends = tables_endD [OF tables]
  have ok: "succeeds ?A w (hook_plain os arch self True sy nf old si (relplt self) (relplt_sz self))"
    using fine one unfolding all
    by (intro hook_plain_succeeds [OF os table_bytes_parts(1) plt_def _ _ ends(1) refl]) auto
  have ok2: "succeeds ?A w (hook_plain os arch self False sy nf old si (reldyn self) (reldyn_sz self))"
    using fine one unfolding all
    by (intro hook_plain_succeeds [OF os table_bytes_parts(2) dyns_def _ _ ends(2) refl]) auto
  have ok3: "succeeds ?A w (hook_android os arch self sy nf old si)"
    using fine one unfolding all
    by (intro hook_android_succeeds [OF os table_bytes_parts(3) android_def _ _ ends(3)]) auto
  have rep: "replaces os self sy nf old ?A w plt
      (hook_plain os arch self True sy nf old si (relplt self) (relplt_sz self))"
    "replaces os self sy nf old ?A w dyns
      (hook_plain os arch self False sy nf old si (reldyn self) (reldyn_sz self))"
    using fine by (intro hook_plain_replaces [OF os table_bytes_parts(1) plt_def]
        hook_plain_replaces [OF os table_bytes_parts(2) dyns_def]; auto)+
  have "succeeds ?A w
    (bindE (hook_plain os arch self True sy nf old si (relplt self) (relplt_sz self)) (\<lambda>r. if r \<noteq> 0 then retE r else
     bindE (hook_plain os arch self False sy nf old si (reldyn self) (reldyn_sz self)) (\<lambda>r. if r \<noteq> 0 then retE r else
     hook_android os arch self sy nf old si)))"
    using fine by (intro succeeds_then [OF ok _ rep(1)] succeeds_then [OF ok2 ok3 rep(2)]) auto
  then obtain w' where run: "xh_elf_hook os arch self (Some sy) nf old w = (Inr 0, w')" and p: "mprot w' = mprot w"
    unfolding xh_elf_hook_found [OF call] by (blast dest: succeedsD)
  have "\<forall>a\<in>set (hooked_slots arch self si w). written a old \<inter> ?A = {}" using slots by blast
  note spec = xh_elf_hook_replaces [OF os call this run]
  have "\<forall>a\<in>set (hooked_slots arch self si w). aligned 8 a \<and> (old = 0 \<or> slot old \<inter> slot a = {})"
    using slots by blast
  from replace_all_values [OF os _ this, of self sy nf w w'] spec
  show thesis using run p that by blast
qed

text \<open>
  Claim C2. With a working kernel that lists the mappings truthfully, and a library whose relocation tables can be read to
  their ends and whose slots are aligned words in readable private mappings of the library, hooking a symbol
  that the lookup finds returns 0; every slot that the tables name then holds the new function, all
  protections are what they were, \<open>*old_func\<close> is the function of the last of the slots that did not hold the
  new function already, and every other byte is unchanged.
\<close>

theorem xh_elf_hook_works:
  assumes kernel: "mprotect_works os" "os_lists os w vs" "\<forall>w' :: world. mprot w' = mprot w \<longrightarrow> proc_maps os w' = proc_maps os w"
    and call: "pathname self \<noteq> None" "nf \<noteq> 0" "xh_elf_find_symidx_by_name w self sy = Inr (Inr si)"
    and tables: "tables_end arch self si w"
    and slots: "\<forall>a\<in>set (hooked_slots arch self si w). written a old \<inter> table_bytes self = {} \<and> aligned 8 a \<and>
      base_addr self \<le> a \<and> (old = 0 \<or> all_writable w 8 old \<and> slot old \<inter> slot a = {}) \<and>
      (\<exists>v\<in>set vs. considered (pathname self) v \<and> vma_has v a \<and> bit (vma_prot v) 0)"
  shows "\<exists>w'. xh_elf_hook os arch self (Some sy) nf old w = (Inr 0, w') \<and>
    (\<forall>a\<in>set (hooked_slots arch self si w). word64 w' a = nf) \<and> mprot w' = mprot w \<and>
    (old \<noteq> 0 \<and> distinct (hooked_slots arch self si w) \<longrightarrow>
       word64 w' old = reported w nf old (hooked_slots arch self si w)) \<and>
    (\<forall>b. (\<forall>a\<in>set (hooked_slots arch self si w). b \<notin> written a old) \<longrightarrow> mbytes w' b = mbytes w b)"
  by (rule hook_works [OF assms]) blast

section \<open>An example\<close>

text \<open>Hooking \<open>f\<close> in the library of \<open>example_elf\<close>, which has one slot for it.\<close>

lemmas example_world_loads = ld_word [OF example_world_bytes] readable_def prot_defs example_world_prot
  all_readable_unfold word_at_def example_words_def

lemma example_find_f: "xh_elf_find_symidx_by_name example_world example_self ''f'' = Inr (Inr 1)"
  by (simp add: xh_elf_find_symidx_by_name_def xh_elf_gnu_hash_lookup_def xh_elf_gnu_hash_lookup_def_def
      xh_elf_gnu_hash_lookup_undef_def Let_def example_hashes mod32_def bloom_at_def symbol_name_def byte_of_def
      upt_rec ld8_def example_world_bytes word_image_def example_world_loads example_self_def xh_elf_zero_def)

lemma example_plain_it: "xh_elf_plain_reloc_iterator_init (relplt example_self) (relplt_sz example_self)
    (is_use_rela example_self) = \<lparr>p_cur = 0x1280, p_end = 0x1298, p_is_use_rela = True\<rparr>"
  by (simp add: xh_elf_plain_reloc_iterator_init_def example_self_def xh_elf_zero_def)

lemma example_tables: "relplt example_self = 0x1280" "relplt_sz example_self = 24" "reldyn example_self = 0"
    "relandroid example_self = 0" "is_use_rela example_self" "bias_addr example_self = 0x1000"
    "base_addr example_self = 0x1000" "pathname example_self = Some ''libx.so''"
  by (simp_all add: example_self_def xh_elf_zero_def)

lemma example_entry:
  "rel_fields (RelInImage 0x1280) example_world = Inr (0x100000007, 0x300)"
  "rel_fields (RelInImage 0x1280) (visible example_world) = Inr (0x100000007, 0x300)"
proof -
  have w: "ld64 example_world 0x1280 = Inr 0x300" "ld64 example_world 0x1288 = Inr 0x100000007"
    by (simp_all add: example_world_loads)
  then have "ld64 (visible example_world) 0x1280 = Inr 0x300"
    "ld64 (visible example_world) 0x1288 = Inr 0x100000007"
    by (auto intro: ld64_legible [OF _ legible_visible [OF same_bytes_refl], where A = UNIV])
  with w show "rel_fields (RelInImage 0x1280) example_world = Inr (0x100000007, 0x300)"
    "rel_fields (RelInImage 0x1280) (visible example_world) = Inr (0x100000007, 0x300)"
    by (simp_all add: rel_fields_def)
qed

lemma example_named_slot: "reloc_slot X86_64 example_self True 1 (0x100000007, 0x300) = Some 0x1300"
  by (simp add: reloc_slot_def XH_ELF_R_SYM_def XH_ELF_R_TYPE_def XH_ELF_R_GENERIC_JUMP_SLOT_def example_tables)

lemma example_slots: "hooked_slots X86_64 example_self 1 example_world = [0x1300]"
  by (simp add: hooked_slots_def plain_slots_def android_slots_def example_tables example_plain_it [simplified example_tables]
      xh_elf_plain_reloc_iterator_next_def Let_def rel_size_def example_entry plain_remaining_def
      List.map_filter_simps example_named_slot named_def)

lemma example_table_bytes: "a \<in> table_bytes example_self \<longleftrightarrow> 0x1280 \<le> a \<and> a < 0x12b0"
  by (simp add: table_bytes_def plain_table_bytes_def example_tables plain_bytes_def
      example_plain_it [simplified example_tables] word_less_nat_alt)

lemma example_tables_end: "tables_end X86_64 example_self 1 example_world"
  by (simp add: tables_end_def example_tables example_plain_it [simplified example_tables] Let_def
      xh_elf_plain_reloc_iterator_next_def rel_size_def example_entry example_named_slot)

theorem xh_elf_hook_works_witness:
  "\<exists>w'. xh_elf_hook example_os X86_64 example_self (Some ''f'') 0x6000 0x3010 example_world = (Inr 0, w') \<and>
    word64 w' 0x1300 = 0x6000 \<and> word64 w' 0x3010 = 0x5000 \<and> mprot w' = mprot example_world"
proof -
  have wr: "all_writable example_world 8 0x3010"
    by (simp add: all_writable_unfold writable_def example_world_prot prot_defs)
  have "slot 0x3010 \<inter> slot 0x1300 = {}" by (rule aligned_slots_apart) (simp_all add: aligned_def)
  moreover have "written 0x1300 0x3010 \<inter> table_bytes example_self = {}"
    by (auto simp: example_table_bytes written_def slot_unfold)
  moreover have "vma_has example_vma 0x1300" "aligned 8 0x1300" "example_vma \<in> set [example_vma, example_data_vma]"
    "considered (pathname example_self) example_vma" "bit (vma_prot example_vma) 0"
    using example_considered by (simp_all add: example_tables example_vma_prots)
      (simp_all add: vma_has_def example_vma_def aligned_def)
  ultimately have slots: "\<forall>a\<in>set (hooked_slots X86_64 example_self 1 example_world).
      written a 0x3010 \<inter> table_bytes example_self = {} \<and> aligned 8 a \<and> base_addr example_self \<le> a \<and>
      ((0x3010 :: addr) = 0 \<or> all_writable example_world 8 0x3010 \<and> slot 0x3010 \<inter> slot a = {}) \<and>
      (\<exists>v\<in>set [example_vma, example_data_vma]. considered (pathname example_self) v \<and> vma_has v a \<and> bit (vma_prot v) 0)"
    using wr by (auto simp: example_slots example_tables)
  have stable: "\<forall>w' :: world. mprot w' = mprot example_world \<longrightarrow>
      proc_maps example_os w' = proc_maps example_os example_world"
    by (simp add: example_os_def)
  have "ld64 example_world 0x1300 = Inr 0x5000" by (simp add: example_world_loads)
  then have "reported example_world 0x6000 0x3010 [0x1300] = 0x5000"
    by (simp add: reported_def ld64_word64)
  then show ?thesis
    using xh_elf_hook_works [where nf = "0x6000", OF example_mprotect_works example_os_lists stable _ _ example_find_f
        example_tables_end slots] by (auto simp: example_slots example_tables)
qed

theorem xh_elf_hook_refines_witness:
  "fst (xh_elf_hook example_os X86_64 example_self (Some ''f'') 0x6000 0x3010 example_world) \<noteq> Inl Diverge \<and>
   mbytes (snd (xh_elf_hook example_os X86_64 example_self (Some ''f'') 0x6000 0x3010 example_world)) 0x1280 =
     mbytes example_world 0x1280"
proof -
  have "slot 0x3010 \<inter> slot 0x1300 = {}" by (rule aligned_slots_apart) (simp_all add: aligned_def)
  moreover have "written 0x1300 0x3010 \<inter> table_bytes example_self = {}"
    by (auto simp: example_table_bytes written_def slot_unfold)
  ultimately have slots: "\<forall>a\<in>set (hooked_slots X86_64 example_self 1 example_world).
      written a 0x3010 \<inter> table_bytes example_self = {} \<and> aligned 8 a \<and>
      ((0x3010 :: addr) = 0 \<or> slot 0x3010 \<inter> slot a = {})"
    by (simp add: example_slots) (simp add: aligned_def)
  have "0x1280 \<notin> written 0x1300 0x3010" by (simp add: written_def slot_unfold)
  then show ?thesis
    using xh_elf_hook_refines [OF example_keeps_data _ _ example_find_f slots surjective_pairing]
    by (simp add: example_slots example_tables)
qed

end
