(* ===== verification/XHook.thy ===== *)
theory XHook
  imports RefreshProps HookProps
begin

text \<open>
  The interface of the library: \<^verbatim>\<open>xhook.c\<close>, the functions for Java in \<^verbatim>\<open>xh_jni.c\<close> and the version in \<^verbatim>\<open>xh_version.c\<close>; and
  what the library is for: a registration followed by a refresh hooks the symbol in all libraries whose names match.
\<close>

section \<open>xhook.c\<close>

definition xhook_register ::
    "'rx env \<Rightarrow> string option \<Rightarrow> string option \<Rightarrow> addr \<Rightarrow> addr \<Rightarrow> ('rx, int) proc" where
  "xhook_register env pathname_regex_str symbol new_func old_func =
     on_core (xh_core_register env pathname_regex_str symbol new_func old_func)"

definition xhook_ignore :: "'rx env \<Rightarrow> string option \<Rightarrow> string option \<Rightarrow> ('rx, int) proc" where
  "xhook_ignore env pathname_regex_str symbol = on_core (xh_core_ignore env pathname_regex_str symbol)"

definition xhook_refresh :: "'rx env \<Rightarrow> int \<Rightarrow> ('rx, int) proc" where
  "xhook_refresh env async = xh_core_refresh env (async \<noteq> 0)"

definition xhook_clear :: "('rx, unit) proc" where
  "xhook_clear = on_core xh_core_clear"

definition xhook_enable_debug :: "int \<Rightarrow> ('rx, unit) proc" where
  "xhook_enable_debug flag = put_core (xh_core_enable_debug (flag \<noteq> 0))"

definition xhook_enable_sigsegv_protection :: "int \<Rightarrow> ('rx, unit) proc" where
  "xhook_enable_sigsegv_protection flag = put_core (xh_core_enable_sigsegv_protection (flag \<noteq> 0))"

section \<open>xh\_jni.c\<close>

text \<open>The native methods of \<^verbatim>\<open>com.qiyi.xhook.NativeHandler\<close>; a \<open>jboolean\<close> is a byte.\<close>

definition NativeHandler_refresh :: "'rx env \<Rightarrow> u8 \<Rightarrow> ('rx, int) proc" where
  "NativeHandler_refresh env async = xhook_refresh env (if async \<noteq> 0 then 1 else 0)"

definition NativeHandler_clear :: "('rx, unit) proc" where
  "NativeHandler_clear = xhook_clear"

definition NativeHandler_enableDebug :: "u8 \<Rightarrow> ('rx, unit) proc" where
  "NativeHandler_enableDebug flag = xhook_enable_debug (if flag \<noteq> 0 then 1 else 0)"

definition NativeHandler_enableSigSegvProtection :: "u8 \<Rightarrow> ('rx, unit) proc" where
  "NativeHandler_enableSigSegvProtection flag = xhook_enable_sigsegv_protection (if flag \<noteq> 0 then 1 else 0)"

section \<open>xh\_version.c\<close>

definition XH_VERSION_MAJOR :: nat where "XH_VERSION_MAJOR = 1"
definition XH_VERSION_MINOR :: nat where "XH_VERSION_MINOR = 1"
definition XH_VERSION_EXTRA :: nat where "XH_VERSION_EXTRA = 12"

definition xh_version :: u32 where
  "xh_version = push_bit 16 (of_nat XH_VERSION_MAJOR) OR push_bit 8 (of_nat XH_VERSION_MINOR) OR of_nat XH_VERSION_EXTRA"

text \<open>The preprocessor turns the numbers into the digits they are written with.\<close>

definition xh_version_str :: string where
  "xh_version_str = dec_of XH_VERSION_MAJOR @ ''.'' @ dec_of XH_VERSION_MINOR @ ''.'' @ dec_of XH_VERSION_EXTRA"

definition XH_VERSION_ARCH :: "arch \<Rightarrow> string" where
  "XH_VERSION_ARCH arch = (case arch of AArch64 \<Rightarrow> ''aarch64'' | X86_64 \<Rightarrow> ''x86_64'')"

definition xh_version_str_full :: "arch \<Rightarrow> string" where
  "xh_version_str_full arch = ''libxhook '' @ xh_version_str @ '' ('' @ XH_VERSION_ARCH arch @ '')''"

lemma version_agrees:
  "xh_version = 0x1010c" "xh_version_str = ''1.1.12''"
  by (simp_all add: xh_version_def xh_version_str_def XH_VERSION_MAJOR_def XH_VERSION_MINOR_def XH_VERSION_EXTRA_def
      dec_of.simps hexchar_def char_of_eq_iff)

section \<open>The slots of a process\<close>

text \<open>A mapping that the refresh takes for a library to hook: for one hook of \<open>sy\<close> with the expression \<open>rx\<close>, and the rules \<open>is\<close>.\<close>

definition asks :: "'rx env \<Rightarrow> 'rx \<Rightarrow> string \<Rightarrow> 'rx ignore_info list \<Rightarrow> vma \<Rightarrow> bool" where
  "asks env rx sy is v \<longleftrightarrow> perm_at (v_perm v) 0 = CHR ''r'' \<and> perm_at (v_perm v) 3 = CHR ''p'' \<and> v_offset v = 0 \<and>
     v_name v \<noteq> [] \<and> hd (v_name v) \<noteq> CHR ''['' \<and> regexec env rx (v_name v) \<and>
     ignored_as env is (v_name v) sy = None"

text \<open>The record of the library and the index of the symbol, if the header is right, initialisation succeeds and the symbol is found.\<close>

definition symbol_in :: "arch \<Rightarrow> string \<Rightarrow> world \<Rightarrow> vma \<Rightarrow> (xh_elf \<times> u32) option" where
  "symbol_in arch sy w v =
     (if xh_elf_check_elfheader arch w (v_start v) \<noteq> Inr 0 then None
      else case xh_elf_init w xh_elf_zero (v_start v) (Some (v_name v)) of
          Inl _ \<Rightarrow> None
        | Inr (r, self) \<Rightarrow> if r \<noteq> 0 then None
            else case xh_elf_find_symidx_by_name w self sy of Inr (Inr si) \<Rightarrow> Some (self, si) | _ \<Rightarrow> None)"

definition slots_of :: "arch \<Rightarrow> string \<Rightarrow> world \<Rightarrow> vma \<Rightarrow> addr list" where
  "slots_of arch sy w v = (case symbol_in arch sy w v of None \<Rightarrow> [] | Some (self, si) \<Rightarrow> hooked_slots arch self si w)"

text \<open>The slots of all libraries, in the order of the mappings.\<close>

definition library_slots :: "'rx env \<Rightarrow> 'rx \<Rightarrow> string \<Rightarrow> 'rx ignore_info list \<Rightarrow> vma list \<Rightarrow> world \<Rightarrow> addr list" where
  "library_slots env rx sy is vs w = concat (map (slots_of (env_arch env) sy w) (filter (asks env rx sy is) vs))"

text \<open>Reading the library can fault, which the protection catches, but goes wrong in no other way.\<close>

definition only_faults :: "string \<Rightarrow> world \<Rightarrow> vma \<Rightarrow> bool" where
  "only_faults sy w v \<longleftrightarrow>
     (case xh_elf_init w xh_elf_zero (v_start v) (Some (v_name v)) of
        Inl t \<Rightarrow> t = Segv
      | Inr (r, self) \<Rightarrow> r \<noteq> 0 \<or> (case xh_elf_find_symidx_by_name w self sy of Inl t \<Rightarrow> t = Segv | Inr _ \<Rightarrow> True))"

text \<open>The conditions of \<open>xh_elf_hook_works\<close> on the tables and slots of the library.\<close>

definition hookable :: "arch \<Rightarrow> vma list \<Rightarrow> string \<Rightarrow> addr \<Rightarrow> world \<Rightarrow> vma \<Rightarrow> bool" where
  "hookable arch vs sy old w v \<longleftrightarrow> (case symbol_in arch sy w v of None \<Rightarrow> True
     | Some (self, si) \<Rightarrow> pathname self \<noteq> None \<and> tables_end arch self si w \<and>
        (\<forall>a\<in>set (hooked_slots arch self si w). written a old \<inter> table_bytes self = {} \<and> aligned 8 a \<and> base_addr self \<le> a \<and>
          (old = 0 \<or> all_writable w 8 old \<and> slot old \<inter> slot a = {}) \<and>
          (\<exists>u\<in>set vs. considered (pathname self) u \<and> vma_has u a \<and> bit (vma_prot u) 0)))"

definition library_ok :: "arch \<Rightarrow> vma list \<Rightarrow> string \<Rightarrow> addr \<Rightarrow> world \<Rightarrow> vma \<Rightarrow> bool" where
  "library_ok arch vs sy old w v \<longleftrightarrow> only_faults sy w v \<and> hookable arch vs sy old w v"

text \<open>What hooking \<open>slots\<close> does to the memory.\<close>

definition hooks :: "addr \<Rightarrow> addr \<Rightarrow> addr list \<Rightarrow> world \<Rightarrow> world \<Rightarrow> bool" where
  "hooks nf old slots w w' \<longleftrightarrow> mprot w' = mprot w \<and> (\<forall>a\<in>set slots. word64 w' a = nf) \<and>
     (old \<noteq> 0 \<and> distinct slots \<longrightarrow> word64 w' old = reported w nf old slots) \<and>
     (\<forall>b. (\<forall>a\<in>set slots. b \<notin> written a old) \<longrightarrow> mbytes w' b = mbytes w b)"

lemma hooks_Nil [simp]: "hooks nf old [] w w' \<longleftrightarrow> w' = w"
  by (cases w; cases w') (auto simp: hooks_def reported_def)

lemma slot_written: "slot a \<subseteq> written a old" "old \<noteq> 0 \<Longrightarrow> slot old \<subseteq> written a old"
  by (auto simp: written_def)

lemma hooks_append:
  assumes 1: "hooks nf old ss w w1" and 2: "hooks nf old ts w1 w2"
    and ok: "\<forall>a\<in>set ss \<union> set ts. aligned 8 a \<and> (old = 0 \<or> slot old \<inter> slot a = {})"
  shows "hooks nf old (ss @ ts) w w2"
proof -
  have apart: "slot a \<inter> written b old = {}" if "a \<in> set ss \<union> set ts" "b \<in> set ss \<union> set ts" "a \<noteq> b" for a b
    using ok that aligned_slots_apart [of a b] by (auto simp: written_def split: if_splits)
  have ss: "word64 w2 a = nf" if "a \<in> set ss" for a
  proof (cases "a \<in> set ts")
    case False
    then have "mbytes w2 b = mbytes w1 b" if "b \<in> slot a" for b
      using that \<open>a \<in> set ss\<close> 2 apart [of a] unfolding hooks_def by blast
    then have "word64 w2 a = word64 w1 a" by (rule word64_cong)
    then show ?thesis using 1 that by (simp add: hooks_def)
  qed (use 2 in \<open>simp add: hooks_def\<close>)
  have "reported w nf old (ss @ ts) = reported w1 nf old ts" if "old \<noteq> 0" and d: "distinct (ss @ ts)"
  proof -
    have "word64 w1 b = word64 w b" if "b \<in> set ts" for b
    proof (rule word64_cong)
      fix c assume "c \<in> slot b"
      then have "\<forall>a\<in>set ss. c \<notin> written a old" using apart [of b] d that by (auto simp: disjoint_iff)
      then show "mbytes w1 c = mbytes w c" using 1 by (simp add: hooks_def)
    qed
    then have ts: "map (word64 w1) ts = map (word64 w) ts" by simp
    moreover have "word64 w1 old = reported w nf old ss" using 1 that by (simp add: hooks_def)
    ultimately show ?thesis by (simp add: reported_def ts del: map_eq_conv)
  qed
  then show ?thesis using 1 2 ss by (auto simp: hooks_def)
qed

section \<open>One library\<close>

text \<open>The images that may be met while hooks are being set, which write only in \<open>W\<close>.\<close>

definition near :: "addr set \<Rightarrow> world \<Rightarrow> world \<Rightarrow> bool" where
  "near W w w' \<longleftrightarrow> mprot w' = mprot w \<and> same_bytes (- W) w' w"

lemma near_refl [simp]: "near W w w"
  by (simp add: near_def)

lemma hooks_near:
  assumes "hooks nf old slots w w'" and "\<forall>a\<in>set slots. written a old \<subseteq> W"
  shows "near W w w'"
proof -
  have "mbytes w' b = mbytes w b" if "b \<notin> W" for b
  proof -
    have "\<forall>a\<in>set slots. b \<notin> written a old" using assms(2) that by blast
    then show ?thesis using assms(1) unfolding hooks_def by blast
  qed
  then show ?thesis using assms(1) by (simp add: hooks_def near_def same_bytes_def)
qed

lemma near_trans: "near W w w' \<Longrightarrow> near W w' w'' \<Longrightarrow> near W w w''"
  by (simp add: near_def same_bytes_def)

text \<open>Hooking one file that may be hooked does it.\<close>

definition one_hook :: "'rx \<Rightarrow> string \<Rightarrow> addr \<Rightarrow> addr \<Rightarrow> 'rx hook_info" where
  "one_hook rx sy nf old = \<lparr>hi_pathname_regex = rx, hi_symbol = sy, hi_new_func = nf, hi_old_func = old\<rparr>"

lemma hook_file_hooks:
  assumes kernel: "mprotect_works (env_os env)" "os_lists (env_os env) w vs"
      "\<forall>w' :: world. mprot w' = mprot w \<longrightarrow> proc_maps (env_os env) w' = proc_maps (env_os env) w"
    and nf: "nf \<noteq> 0" and rx: "regexec env rx (v_name v)" "ignored_as env is (v_name v) sy = None" and ok: "library_ok (env_arch env) vs sy old w v"
    and header: "xh_elf_check_elfheader (env_arch env) w (v_start v) = Inr 0"
  shows "\<exists>w'. catching True () (hook_file env [one_hook rx sy nf old] is (v_name v) (v_start v)) w = (Inr (), w') \<and>
    hooks nf old (slots_of (env_arch env) sy w v) w w'"
proof -
  let ?arch = "env_arch env" and ?init = "xh_elf_init w xh_elf_zero (v_start v) (Some (v_name v))"
  have at_file: "hook_file env [one_hook rx sy nf old] is (v_name v) (v_start v) w = (case ?init of Inl t \<Rightarrow> (Inl t, w)
      | Inr (r, self) \<Rightarrow> if r \<noteq> 0 then (Inr (), w) else bindE (xh_elf_hook (env_os env) ?arch self (Some sy) nf old) (\<lambda>_. retE ()) w)"
    using rx by (auto simp: hook_file_def bindE_def [of "readE _"] readE_def one_hook_def split: sum.splits)
  consider (none) "symbol_in ?arch sy w v = None" | (some) self si where "symbol_in ?arch sy w v = Some (self, si)"
    by (cases "symbol_in ?arch sy w v") auto
  then show ?thesis
  proof cases
    case none
    then have s: "slots_of ?arch sy w v = []" by (simp add: slots_of_def)
    have "catching True () (hook_file env [one_hook rx sy nf old] is (v_name v) (v_start v)) w = (Inr (), w)"
      using none header ok nf unfolding catching_def at_file
      by (auto simp: symbol_in_def library_ok_def only_faults_def xh_elf_hook_def bindE_def readE_def split: sum.splits if_splits)
    then show ?thesis using s by simp
  next
    case some
    then have init: "?init = Inr (0, self)" and find: "xh_elf_find_symidx_by_name w self sy = Inr (Inr si)"
      by (auto simp: symbol_in_def split: if_splits sum.splits prod.splits)
    have h: "pathname self \<noteq> None" "tables_end ?arch self si w"
      "\<forall>a\<in>set (hooked_slots ?arch self si w). written a old \<inter> table_bytes self = {} \<and> aligned 8 a \<and> base_addr self \<le> a \<and>
        (old = 0 \<or> all_writable w 8 old \<and> slot old \<inter> slot a = {}) \<and>
        (\<exists>u\<in>set vs. considered (pathname self) u \<and> vma_has u a \<and> bit (vma_prot u) 0)"
      using ok some by (simp_all add: library_ok_def hookable_def)
    have s: "slots_of ?arch sy w v = hooked_slots ?arch self si w" using some by (simp add: slots_of_def)
    show ?thesis
    proof (rule hook_works [OF kernel h(1) nf find h(2,3)])
      fix w'
      assume run: "xh_elf_hook (env_os env) ?arch self (Some sy) nf old w = (Inr 0, w')"
        and "\<forall>a\<in>set (hooked_slots ?arch self si w). word64 w' a = nf" "mprot w' = mprot w"
          "old \<noteq> 0 \<and> distinct (hooked_slots ?arch self si w) \<longrightarrow> word64 w' old = reported w nf old (hooked_slots ?arch self si w)"
          "\<forall>b. (\<forall>a\<in>set (hooked_slots ?arch self si w). b \<notin> written a old) \<longrightarrow> mbytes w' b = mbytes w b"
      then have "hooks nf old (slots_of ?arch sy w v) w w'" by (simp add: hooks_def s)
      moreover have "catching True () (hook_file env [one_hook rx sy nf old] is (v_name v) (v_start v)) w = (Inr (), w')"
        by (simp add: catching_def at_file init bindE_runs(1) [where m = "xh_elf_hook (env_os env) ?arch self (Some sy) nf old", OF run])
      ultimately show ?thesis by blast
    qed
  qed
qed

section \<open>All libraries\<close>

lemma candidate_asks:
  assumes "vma_ok v" and "CHR 0x00 \<notin> set (v_name v)"
  shows "candidate env [one_hook rx sy nf old] is (vma_line v) = Inr (if asks env rx sy is v then Some (v_name v, v_start v) else None)"
  using candidate_vma [OF assms, of env "[one_hook rx sy nf old]" "is"] by (auto simp: asks_def wanted_def one_hook_def)

text \<open>A line: nothing, or the library of the line is hooked; only its name is recorded.\<close>

lemma note_line_hooks:
  assumes kernel: "mprotect_works (env_os env)" "os_lists (env_os env) w vs"
      "\<forall>w' :: world. mprot w' = mprot w \<longrightarrow> proc_maps (env_os env) w' = proc_maps (env_os env) w"
    and nf: "nf \<noteq> 0" and v: "vma_ok v" "CHR 0x00 \<notin> set (v_name v)"
    and ok: "asks env rx sy is v \<Longrightarrow> library_ok (env_arch env) vs sy old w v \<and> new (v_name v) = None"
  shows "\<exists>new' w'. note_line env [one_hook rx sy nf old] is True Map.empty (vma_line v) new w = (Inr new', w') \<and>
    dom new' \<subseteq> dom new \<union> (if asks env rx sy is v then {v_name v} else {}) \<and>
    hooks nf old (if asks env rx sy is v then slots_of (env_arch env) sy w v else []) w w'"
proof (cases "asks env rx sy is v")
  case False
  then show ?thesis
    using candidate_asks [OF v, of env rx sy nf old "is"] by (simp add: note_line_def bindE_runs readE_def)
next
  case True
  note line = candidate_asks [OF v, of env rx sy nf old "is", unfolded if_P [OF True]]
  show ?thesis
  proof (cases "xh_elf_check_elfheader (env_arch env) w (v_start v) = Inr 0")
    case True': True
    obtain w' where "catching True () (hook_file env [one_hook rx sy nf old] is (v_name v) (v_start v)) w = (Inr (), w')"
      "hooks nf old (slots_of (env_arch env) sy w v) w w'"
      using hook_file_hooks [OF kernel nf _ _ _ True', of rx "is" sy old] True ok by (auto simp: asks_def)
    then show ?thesis
      using True line True' ok by (simp add: note_line_def note_file_def bindE_runs readE_def catching_def [of _ _ "readE _"])
  next
    case False
    then have "symbol_in (env_arch env) sy w v = None" by (simp add: symbol_in_def)
    moreover obtain r where "catching True XH_ERRNO_SEGVERR
        (readE (\<lambda>w. xh_elf_check_elfheader (env_arch env) w (v_start v))) w = (Inr r, w)" "r \<noteq> 0"
      using False by (cases "xh_elf_check_elfheader (env_arch env) w (v_start v)")
        (auto simp: catching_def readE_def xh_errno_defs dest!: xh_elf_check_elfheader_trap)
    ultimately show ?thesis
      using True line by (auto simp: note_line_def bindE_runs readE_def slots_of_def)
  qed
qed

lemma library_slots_aligned:
  assumes "library_ok arch vs sy old w v" and "a \<in> set (slots_of arch sy w v)"
  shows "aligned 8 a \<and> (old = 0 \<or> slot old \<inter> slot a = {})"
  using assms by (auto simp: library_ok_def hookable_def slots_of_def split: option.splits)

lemma note_lines_hooks:
  fixes w0 :: world
  assumes kernel: "mprotect_works (env_os env)" "os_lists (env_os env) w0 vs"
      "\<forall>w' :: world. mprot w' = mprot w0 \<longrightarrow> proc_maps (env_os env) w' = proc_maps (env_os env) w0"
    and nf: "nf \<noteq> 0"
    and stable: "\<forall>w'. near W w0 w' \<longrightarrow> (\<forall>v\<in>set (filter (asks env rx sy is) vs). library_ok (env_arch env) vs sy old w' v \<and>
      slots_of (env_arch env) sy w' v = slots_of (env_arch env) sy w0 v)"
    and W: "\<forall>v\<in>set (filter (asks env rx sy is) vs). \<forall>a\<in>set (slots_of (env_arch env) sy w0 v). written a old \<subseteq> W"
  shows "set us \<subseteq> set vs \<Longrightarrow> \<forall>v\<in>set us. vma_ok v \<and> CHR 0x00 \<notin> set (v_name v) \<Longrightarrow>
    distinct (map v_name (filter (asks env rx sy is) us)) \<Longrightarrow> v_name ` set (filter (asks env rx sy is) us) \<inter> dom new = {} \<Longrightarrow> near W w0 w \<Longrightarrow>
    \<exists>new' w'. note_lines env [one_hook rx sy nf old] is True Map.empty (map vma_line us) new w = (Inr new', w') \<and>
      hooks nf old (concat (map (slots_of (env_arch env) sy w0) (filter (asks env rx sy is) us))) w w'"
proof (induction us arbitrary: new w)
  case (Cons v us)
  let ?S = "slots_of (env_arch env) sy w0" and ?asks = "filter (asks env rx sy is)"
  have p: "mprot w = mprot w0" using Cons.prems(5) by (simp add: near_def)
  have maps: "proc_maps (env_os env) w = proc_maps (env_os env) w0" using kernel(3) p by blast
  have k: "mprotect_works (env_os env)" "os_lists (env_os env) w vs"
    "\<forall>w' :: world. mprot w' = mprot w \<longrightarrow> proc_maps (env_os env) w' = proc_maps (env_os env) w"
    using kernel unfolding os_lists_def p maps by blast+
  have ok: "library_ok (env_arch env) vs sy old w v \<and> new (v_name v) = None" "slots_of (env_arch env) sy w v = ?S v"
    if "asks env rx sy is v"
  proof -
    have "v \<in> set (?asks vs)" using Cons.prems(1) that by simp
    then show "library_ok (env_arch env) vs sy old w v \<and> new (v_name v) = None" "slots_of (env_arch env) sy w v = ?S v"
      using stable [rule_format, OF Cons.prems(5)] Cons.prems(4) that by (simp_all add: domIff)
  qed
  from Cons.prems(2) have v: "vma_ok v" "CHR 0x00 \<notin> set (v_name v)" by auto
  obtain new1 w1 where 1: "note_line env [one_hook rx sy nf old] is True Map.empty (vma_line v) new w = (Inr new1, w1)"
    "dom new1 \<subseteq> dom new \<union> (if asks env rx sy is v then {v_name v} else {})"
    "hooks nf old (if asks env rx sy is v then ?S v else []) w w1"
    using note_line_hooks [of env w vs nf v rx sy "is" old new, OF k nf v ok(1)] ok(2) by (cases "asks env rx sy is v") auto
  have n1: "near W w0 w1"
    using hooks_near [OF 1(3)] W Cons.prems(1,5) by (cases "asks env rx sy is v") (auto intro: near_trans)
  have "N \<inter> D' = {}" if "N \<inter> D = {}" "asks env rx sy is v \<Longrightarrow> n \<notin> N" "D' \<subseteq> D \<union> (if asks env rx sy is v then {n} else {})" for N D D' and n :: string
    using that by (cases "asks env rx sy is v") auto
  from this [OF _ _ 1(2)] have fresh: "v_name ` set (?asks us) \<inter> dom new1 = {}"
    using Cons.prems(3,4) by (cases "asks env rx sy is v") simp_all
  obtain new2 w2 where 2: "note_lines env [one_hook rx sy nf old] is True Map.empty (map vma_line us) new1 w1 = (Inr new2, w2)"
    "hooks nf old (concat (map ?S (?asks us))) w1 w2"
    using Cons.IH [OF _ _ _ fresh n1] Cons.prems(1-3) by (cases "asks env rx sy is v") auto
  have "aligned 8 a \<and> (old = 0 \<or> slot old \<inter> slot a = {})" if "a \<in> set (?S u)" "u \<in> set (v # us)" "asks env rx sy is u" for a u
    using library_slots_aligned [of "env_arch env" vs sy old w0 u a] stable [rule_format, OF near_refl] that Cons.prems(1) by auto
  then have "hooks nf old (concat (map ?S (?asks (v # us)))) w w2"
    using hooks_append [OF 1(3) 2(2)] by (cases "asks env rx sy is v") auto
  then show ?case using 1(1) 2(1) by (simp add: bindE_runs)
qed simp

section \<open>Registration and refresh\<close>

text \<open>What the first refresh needs: nothing has been refreshed, and the protection is on.\<close>

definition unused :: "'rx core \<Rightarrow> bool" where
  "unused c \<longleftrightarrow> \<not> xh_core_inited c \<and> xh_core_map_info c = Leaf \<and> xh_core_sigsegv_enable c \<and> \<not> xh_core_sigsegv_flag c"

lemma register_first:
  assumes "regcomp env regex = Some rx" and "\<forall>n. alloc_ok env n" and "nf \<noteq> 0"
  obtains c where "xh_core_register env (Some regex) (Some sy) nf old (core_initial act) = (Inr 0, c)"
    and "core_ok c [one_hook rx sy nf old] []" and "unused c"
proof -
  let ?hi = "one_hook rx sy nf old" and ?c = "(core_initial act)\<lparr>regexes := 1, heap_calls := 2, heap_blocks := 2\<rparr>"
  obtain q where "append_new 0 ?hi TAILQ_HEAD_INITIALIZER = Inr q" "holds 2 q ([] @ [?hi])"
    using holds_append [OF holds_empty, of 0 2 ?hi] by auto
  then show ?thesis
    using assms by (intro that [of "?c\<lparr>xh_core_hook_info := q\<rparr>"])
      (simp_all add: xh_core_register_def bindE_def readE_def heap_run append_hook_def storeE_def core_initial_def one_hook_def
        core_ok_def queues_ok_def holds_empty valid_Leaf proper_paths_def unused_def numeral_2_eq_2)
qed

text \<open>Registering rules one after the other.\<close>

fun ignore_all :: "'rx env \<Rightarrow> (string \<times> string option) list \<Rightarrow> ('rx, int list) proc" where
  "ignore_all env [] = retE []"
| "ignore_all env ((regex, symbol) # rules) =
     bindE (xhook_ignore env (Some regex) symbol) (\<lambda>r. bindE (ignore_all env rules) (\<lambda>rs. retE (r # rs)))"

definition rules_of :: "'rx env \<Rightarrow> (string \<times> string option) list \<Rightarrow> 'rx ignore_info list" where
  "rules_of env rules = map (\<lambda>(regex, symbol). \<lparr>ii_pathname_regex = the (regcomp env regex), ii_symbol = symbol\<rparr>) rules"

lemma ignore_unused: "xh_core_ignore env regex symbol c = (Inr r, c') \<Longrightarrow> unused c' = unused c"
  by (auto simp: xh_core_ignore_def append_ignore_def unused_def bindE_def readE_def storeE_def heap_run split: option.splits if_splits
      sum.splits prod.splits)

lemma ignore_all_run:
  assumes "\<forall>n. alloc_ok env n"
  shows "core_ok c hs is \<Longrightarrow> unused c \<Longrightarrow> \<forall>(regex, symbol)\<in>set rules. regcomp env regex \<noteq> None \<Longrightarrow>
    \<exists>c'. ignore_all env rules (c, w) = (Inr (map (\<lambda>_. 0) rules), (c', w)) \<and> core_ok c' hs (is @ rules_of env rules) \<and> unused c'"
proof (induction rules arbitrary: c "is")
  case (Cons rule rules)
  obtain regex symbol rx where rule: "rule = (regex, symbol)" "regcomp env regex = Some rx"
    using Cons.prems(3) by (cases rule) auto
  have new: "new_ignore env c (Some regex) symbol = Some \<lparr>ii_pathname_regex = rx, ii_symbol = symbol\<rparr>"
    using Cons.prems(2) assms rule(2) by (simp add: unused_def)
  obtain c1 where c1: "xh_core_ignore env (Some regex) symbol c = (Inr 0, c1)"
    "core_ok c1 hs (is @ [\<lparr>ii_pathname_regex = rx, ii_symbol = symbol\<rparr>])"
    using ignore_cases [OF Cons.prems(1), of env "Some regex" symbol] unfolding new by auto
  have "unused c1" using ignore_unused [OF c1(1)] Cons.prems(2) by simp
  then obtain c2 where "ignore_all env rules (c1, w) = (Inr (map (\<lambda>_. 0) rules), (c2, w))"
    "core_ok c2 hs ((is @ [\<lparr>ii_pathname_regex = rx, ii_symbol = symbol\<rparr>]) @ rules_of env rules)" "unused c2"
    using Cons.IH [OF c1(2)] Cons.prems(3) by auto
  then show ?case
    using c1(1) rule by (simp add: xhook_ignore_def on_core_def bindE_def rules_of_def)
qed (simp add: rules_of_def)

lemma refresh_first:
  assumes "core_ok c hs is" and "unused c" and env: "sigemptyset_ok env" "sigaction_ok env" "\<forall>n. alloc_ok env n"
    and run: "abstract_refresh env hs is True Map.empty w = (Inr new, w')"
  shows "\<exists>c'. xh_core_refresh env False (c, w) = (Inr 0, (c', w')) \<and> core_ok c' hs is"
proof -
  let ?c = "c\<lparr>xh_core_inited := True, xh_core_sigsegv_act_old := sigsegv_action c, sigsegv_action := XhHandler, xh_core_init_ok := True\<rparr>"
  have i: "xh_core_init_once env c = ?c"
    using assms(2) env by (simp add: unused_def xh_core_init_once_def xh_core_add_sigsegv_handler_def)
  have "core_ok ?c hs is" "guarded ?c" using assms(1,2) by (simp_all add: unused_def core_ok_def queues_ok_def guarded_def)
  moreover have "bases Leaf = Map.empty" by (auto simp: bases_def entry_def)
  ultimately obtain c' where "xh_core_refresh_impl env (?c, w) = (Inr (), (c', w'))" "core_ok c' hs is"
    using refresh_impl_cases [of ?c hs "is" env w] assms(2) env(3) run by (auto simp: unused_def split: prod.splits sum.splits)
  then show ?thesis
    by (simp add: xh_core_refresh_def bindE_def put_core_def sysE_def get_core_def readE_def i)
qed

text \<open>
  When a hook of \<open>sy\<close> can be set in the libraries that match \<open>rx\<close>, with the rules \<open>is\<close>: the kernel works and lists the mappings \<open>vs\<close>
  truthfully, the allocations and the system calls succeed, no two libraries have the same name, and reading the
  libraries stays possible, with the same slots, while slots are being written.
\<close>

definition can_hook :: "'rx env \<Rightarrow> 'rx \<Rightarrow> string \<Rightarrow> addr \<Rightarrow> 'rx ignore_info list \<Rightarrow> vma list \<Rightarrow> world \<Rightarrow> bool" where
  "can_hook env rx sy old is vs w \<longleftrightarrow>
     mprotect_works (env_os env) \<and> os_lists (env_os env) w vs \<and>
     (\<forall>w' :: world. mprot w' = mprot w \<longrightarrow> proc_maps (env_os env) w' = proc_maps (env_os env) w) \<and>
     (\<forall>n. alloc_ok env n) \<and> sigemptyset_ok env \<and> sigaction_ok env \<and>
     (\<forall>v\<in>set vs. CHR 0x00 \<notin> set (v_name v)) \<and> distinct (map v_name (filter (asks env rx sy is) vs)) \<and>
     (\<forall>w'. near (\<Union>a\<in>set (library_slots env rx sy is vs w). written a old) w w' \<longrightarrow>
        (\<forall>v\<in>set (filter (asks env rx sy is) vs). library_ok (env_arch env) vs sy old w' v \<and>
           slots_of (env_arch env) sy w' v = slots_of (env_arch env) sy w v))"

lemma register_refresh_hooks:
  assumes "can_hook env rx sy old (rules_of env rules) vs w" and nf: "nf \<noteq> 0"
    and comp: "regcomp env regex = Some rx" "\<forall>(regex, symbol)\<in>set rules. regcomp env regex \<noteq> None"
  obtains c1 c2 c3 w' where "xhook_register env (Some regex) (Some sy) nf old (core_initial act, w) = (Inr 0, (c1, w))"
    and "ignore_all env rules (c1, w) = (Inr (map (\<lambda>_. 0) rules), (c2, w))"
    and "xhook_refresh env 0 (c2, w) = (Inr 0, (c3, w'))" and "core_ok c3 [one_hook rx sy nf old] (rules_of env rules)"
    and "hooks nf old (library_slots env rx sy (rules_of env rules) vs w) w w'"
proof -
  let ?is = "rules_of env rules" and ?hi = "one_hook rx sy nf old"
  have kernel: "mprotect_works (env_os env)" "os_lists (env_os env) w vs"
      "\<forall>w' :: world. mprot w' = mprot w \<longrightarrow> proc_maps (env_os env) w' = proc_maps (env_os env) w"
    and env: "\<forall>n. alloc_ok env n" "sigemptyset_ok env" "sigaction_ok env"
    and names: "\<forall>v\<in>set vs. CHR 0x00 \<notin> set (v_name v)" "distinct (map v_name (filter (asks env rx sy ?is) vs))"
    and stable: "\<forall>w'. near (\<Union>a\<in>set (library_slots env rx sy ?is vs w). written a old) w w' \<longrightarrow>
      (\<forall>v\<in>set (filter (asks env rx sy ?is) vs). library_ok (env_arch env) vs sy old w' v \<and>
        slots_of (env_arch env) sy w' v = slots_of (env_arch env) sy w v)"
    using assms(1) unfolding can_hook_def by blast+
  obtain c1 where c1: "xh_core_register env (Some regex) (Some sy) nf old (core_initial act) = (Inr 0, c1)"
    "core_ok c1 [?hi] []" "unused c1"
    by (rule register_first [OF comp(1) env(1) nf])
  obtain c2 where c2: "ignore_all env rules (c1, w) = (Inr (map (\<lambda>_. 0) rules), (c2, w))" "core_ok c2 [?hi] ?is" "unused c2"
    using ignore_all_run [OF env(1) c1(2,3) comp(2)] by auto
  have vmas: "\<forall>v\<in>set vs. vma_ok v" using kernel(2) by (simp add: os_lists_def vmas_ok_def)
  obtain new w' where lines: "note_lines env [?hi] ?is True Map.empty (map vma_line vs) Map.empty w = (Inr new, w')"
    and hooked: "hooks nf old (library_slots env rx sy ?is vs w) w w'"
    using note_lines_hooks [OF kernel nf stable, of vs Map.empty w] names vmas
    by (fastforce simp: library_slots_def)
  have "abstract_refresh env [?hi] ?is True Map.empty w = (Inr new, w')"
    using kernel(2) lines by (simp add: abstract_refresh_def bindE_runs readE_def os_lists_def fgets_lines_vmas [OF vmas])
  then obtain c3 where "xh_core_refresh env False (c2, w) = (Inr 0, (c3, w'))" "core_ok c3 [?hi] ?is"
    using refresh_first [OF c2(2,3) env(2,3,1)] by blast
  then show thesis
    using c1(1) c2(1) hooked by (intro that) (auto simp: xhook_register_def on_core_def xhook_refresh_def)
qed

text \<open>
  Claim C1. In a process in which nothing has been registered yet, \<open>xhook_register\<close>, any number of calls of \<open>xhook_ignore\<close> and
  \<open>xhook_refresh(0)\<close> do together what the library is for. Under the conditions of \<open>can_hook\<close>, with expressions that compile, all calls
  return 0; afterwards, in every library whose name matches, that no rule exempts and that has the symbol, every slot of the symbol holds the
  new function, and libraries that are malformed, that fault or that do not have the symbol are passed over; \<open>*old_func\<close> is the last
  function found in a slot; protections and all other bytes, in particular those of exempted libraries, are as before, and hook and rules stay registered.
\<close>

theorem xhook_hooks_process:
  assumes "can_hook env rx sy old (rules_of env rules) vs w" and "nf \<noteq> 0"
    and "regcomp env regex = Some rx" and "\<forall>(regex, symbol)\<in>set rules. regcomp env regex \<noteq> None"
  shows "\<exists>c1 c2 c3 w'. xhook_register env (Some regex) (Some sy) nf old (core_initial act, w) = (Inr 0, (c1, w)) \<and>
    ignore_all env rules (c1, w) = (Inr (map (\<lambda>_. 0) rules), (c2, w)) \<and>
    xhook_refresh env 0 (c2, w) = (Inr 0, (c3, w')) \<and> core_ok c3 [one_hook rx sy nf old] (rules_of env rules) \<and>
    mprot w' = mprot w \<and> (\<forall>a\<in>set (library_slots env rx sy (rules_of env rules) vs w). word64 w' a = nf) \<and>
    (old \<noteq> 0 \<and> distinct (library_slots env rx sy (rules_of env rules) vs w) \<longrightarrow>
       word64 w' old = reported w nf old (library_slots env rx sy (rules_of env rules) vs w)) \<and>
    (\<forall>b. (\<forall>a\<in>set (library_slots env rx sy (rules_of env rules) vs w). b \<notin> written a old) \<longrightarrow> mbytes w' b = mbytes w b)"
  by (rule register_refresh_hooks [OF assms]) (unfold hooks_def, blast)

section \<open>An example\<close>

text \<open>
  The library of \<open>example_elf\<close>, which has one slot, now for \<^verbatim>\<open>JNI_CreateJavaVM\<close>; the pointer to the old function is at
  \<open>0x3010\<close>.
\<close>

abbreviation jvm :: string where "jvm \<equiv> ''JNI_CreateJavaVM''"

definition jvm_words :: "(addr \<times> u64) list" where
  "jvm_words = (0x1238, 0x108) # (0x1308, 0x616572435f494e4a) # (0x1310, 0x4d566176614a6574) # example_words"

definition jvm_world :: world where
  "jvm_world = example_world\<lparr>mbytes := word_image jvm_words\<rparr>"

lemma jvm_bytes: "mbytes jvm_world = word_image jvm_words"
  by (simp add: jvm_world_def)

lemma jvm_prot: "mprot jvm_world = mprot example_world"
  by (simp add: jvm_world_def)

lemmas jvm_loads = ld_word [OF jvm_bytes] readable_def prot_defs jvm_prot example_world_prot
  all_readable_unfold word_at_def jvm_words_def example_words_def

lemma jvm_hash: "xh_elf_gnu_hash jvm = 0x6d16e59e"
  by (simp add: xh_elf_gnu_hash_def byte_of_def)

lemma jvm_lists: "os_lists example_os jvm_world [example_vma, example_data_vma]"
  using example_os_lists by (simp add: os_lists_def example_os_def jvm_prot)

definition xhook_env :: "unit env" where
  "xhook_env = example_env\<lparr>env_os := example_os\<rparr>"

abbreviation libx :: string where "libx \<equiv> ''/l/libx.so''"
abbreviation libx_self :: xh_elf where "libx_self \<equiv> example_self\<lparr>pathname := Some libx\<rparr>"

lemma near_ld_le:
  assumes "near W w w'" and "\<And>k. k < n \<Longrightarrow> a + of_nat k \<notin> W"
  shows "ld_le w' n a = ld_le w n a"
  using assms(2)
proof (induction n arbitrary: a)
  case (Suc n)
  have "ld8 w' a = ld8 w a"
    using assms(1) Suc.prems [of 0] by (simp add: near_def same_bytes_def ld8_def readable_def)
  moreover have "ld_le w' n (a + 1) = ld_le w n (a + 1)"
    using Suc.prems [of "Suc _"] by (intro Suc.IH) (simp add: algebra_simps)
  ultimately show ?case by simp
qed simp

lemma example_apart:
  assumes "a < 0x12f8 \<or> 0x1308 \<le> a \<and> a < 0x3000" and "k < 8"
  shows "a + of_nat k \<notin> written 0x1300 0x3010"
proof -
  have "unat (a + of_nat k) = unat a + k"
    using assms by (auto simp: unat_word_ariths unat_of_nat word_less_nat_alt word_le_nat_alt)
  then show ?thesis
    using assms by (auto simp: written_def slot_def word_less_nat_alt word_le_nat_alt unat_word_ariths unat_of_nat
        dest!: arg_cong [where f = unat])
qed

lemma near_example:
  assumes "near (written 0x1300 0x3010) jvm_world w'" and "a < 0x12f8 \<or> 0x1308 \<le> a \<and> a < 0x3000"
  shows "ld8 w' a = ld8 jvm_world a" "ld16 w' a = ld16 jvm_world a" "ld32 w' a = ld32 jvm_world a"
    "ld64 w' a = ld64 jvm_world a"
proof -
  have le: "ld_le w' n a = ld_le jvm_world n a" if "n \<le> 8" for n
    using example_apart [OF assms(2)] that by (intro near_ld_le [OF assms(1)]) simp
  show "ld8 w' a = ld8 jvm_world a"
    using assms(1) example_apart [OF assms(2), of 0] by (simp add: near_def same_bytes_def ld8_def readable_def)
  show "ld16 w' a = ld16 jvm_world a" "ld32 w' a = ld32 jvm_world a" "ld64 w' a = ld64 jvm_world a"
    using le by (simp_all add: ld16_def ld32_def ld64_def)
qed

lemma libx_file:
  assumes near: "near (written 0x1300 0x3010) jvm_world w'"
  shows libx_header: "xh_elf_check_elfheader X86_64 w' 0x1000 = Inr 0"
    and libx_init: "xh_elf_init w' xh_elf_zero 0x1000 (Some libx) = Inr (0, libx_self)"
    and libx_f: "xh_elf_find_symidx_by_name w' libx_self jvm = Inr (Inr 1)"
proof -
  note loads = near_example [OF near] jvm_loads
  show "xh_elf_check_elfheader X86_64 w' 0x1000 = Inr 0"
    by (simp add: xh_elf_check_elfheader_def layout_defs loads EM_def)
  show "xh_elf_init w' xh_elf_zero 0x1000 (Some libx) = Inr (0, libx_self)"
    by (simp add: xh_elf_init_def example_self_def xh_elf_zero_def Let_def layout_defs
      xh_elf_get_first_segment_by_type_offset_def xh_elf_get_first_segment_by_type_def
      entries_def upt_rec loads PT_LOAD_def PT_DYNAMIC_def dyn_step_def dt_defs
      dyn_ptr_def dyn_num_def dyn_hash_def dyn_gnu_hash_def check_relandroid_def xh_elf_check_def)
  show "xh_elf_find_symidx_by_name w' libx_self jvm = Inr (Inr 1)"
    by (simp add: xh_elf_find_symidx_by_name_def xh_elf_gnu_hash_lookup_def xh_elf_gnu_hash_lookup_def_def
      xh_elf_gnu_hash_lookup_undef_def Let_def jvm_hash mod32_def bloom_at_def symbol_name_def byte_of_def
      upt_rec ld8_def [of jvm_world] jvm_bytes word_image_def loads example_self_def xh_elf_zero_def)
qed

lemma libx_tables: "relplt libx_self = 0x1280" "relplt_sz libx_self = 24" "reldyn libx_self = 0"
    "relandroid libx_self = 0" "is_use_rela libx_self" "base_addr libx_self = 0x1000" "bias_addr libx_self = 0x1000"
  by (simp_all add: example_tables)

lemma libx_entry:
  assumes near: "near (written 0x1300 0x3010) jvm_world w'"
  shows "rel_fields (RelInImage 0x1280) w' = Inr (0x100000007, 0x300)"
    "rel_fields (RelInImage 0x1280) (visible w') = Inr (0x100000007, 0x300)"
proof -
  have w: "ld64 w' 0x1280 = Inr 0x300" "ld64 w' 0x1288 = Inr 0x100000007"
    by (simp_all add: near_example [OF near] jvm_loads)
  then have "ld64 (visible w') 0x1280 = Inr 0x300" "ld64 (visible w') 0x1288 = Inr 0x100000007"
    by (auto intro: ld64_legible [OF _ legible_visible [OF same_bytes_refl], where A = UNIV])
  with w show "rel_fields (RelInImage 0x1280) w' = Inr (0x100000007, 0x300)"
    "rel_fields (RelInImage 0x1280) (visible w') = Inr (0x100000007, 0x300)"
    by (simp_all add: rel_fields_def)
qed

lemma libx_named_slot: "reloc_slot X86_64 libx_self True 1 (0x100000007, 0x300) = Some 0x1300"
  by (simp add: reloc_slot_def XH_ELF_R_SYM_def XH_ELF_R_TYPE_def XH_ELF_R_GENERIC_JUMP_SLOT_def example_tables)

lemma libx_slots:
  assumes "near (written 0x1300 0x3010) jvm_world w'"
  shows "hooked_slots X86_64 libx_self 1 w' = [0x1300]" "tables_end X86_64 libx_self 1 w'"
  by (simp_all add: hooked_slots_def plain_slots_def android_slots_def tables_end_def example_tables
      example_plain_it [simplified example_tables] xh_elf_plain_reloc_iterator_next_def Let_def rel_size_def
      libx_entry [OF assms] plain_remaining_def List.map_filter_simps libx_named_slot named_def)

lemma libx_library:
  assumes near: "near (written 0x1300 0x3010) jvm_world w'"
  shows "library_ok X86_64 [example_vma, example_data_vma] jvm 0x3010 w' example_vma \<and>
    slots_of X86_64 jvm w' example_vma = [0x1300]"
proof -
  have v: "v_start example_vma = 0x1000" "v_name example_vma = libx" by (simp_all add: example_vma_def)
  have sym: "symbol_in X86_64 jvm w' example_vma = Some (libx_self, 1)"
    by (simp add: symbol_in_def v libx_file [OF near])
  have "all_writable w' 8 0x3010"
    using near by (simp add: all_writable_unfold writable_def near_def jvm_prot example_world_prot prot_defs)
  moreover have "slot 0x3010 \<inter> slot 0x1300 = {}" by (rule aligned_slots_apart) (simp_all add: aligned_def)
  moreover have "table_bytes libx_self = table_bytes example_self" by (simp add: table_bytes_def plain_table_bytes_def)
  then have "written 0x1300 0x3010 \<inter> table_bytes libx_self = {}"
    by (auto simp: example_table_bytes written_def slot_unfold)
  moreover have "considered (Some libx) example_vma"
    by (simp add: considered_def example_vma_line strstr.simps) (simp add: example_vma_def perm_at_def)
  moreover have "vma_has example_vma 0x1300" "aligned 8 (0x1300 :: addr)"
    by (simp_all add: vma_has_def example_vma_def aligned_def)
  moreover have "bit (vma_prot example_vma) 0" by (simp add: example_vma_prots)
  ultimately show ?thesis
    by (simp add: library_ok_def only_faults_def hookable_def sym slots_of_def libx_slots [OF near] v libx_file [OF near] libx_tables)
qed

text \<open>A rule that exempts all libraries from hooks of another symbol.\<close>

definition exempt :: "unit ignore_info" where
  "exempt = \<lparr>ii_pathname_regex = (), ii_symbol = Some ''g''\<rparr>"

lemma exempt_other: "set is \<subseteq> {exempt} \<Longrightarrow> ignored_as xhook_env is name jvm = None"
  unfolding ignored_as_def by (induction "is") (auto simp: ignore_verdict_def exempt_def)

lemma jvm_libs: "set is \<subseteq> {exempt} \<Longrightarrow> filter (asks xhook_env () jvm is) [example_vma, example_data_vma] = [example_vma]"
  using exempt_other [of "is"]
  by (simp add: asks_def) (simp add: xhook_env_def example_env_def example_vma_def example_data_vma_def perm_at_def)

lemma xhook_env_simps: "env_os xhook_env = example_os" "env_arch xhook_env = X86_64" "regcomp xhook_env regex = Some ()"
    "alloc_ok xhook_env n" "sigemptyset_ok xhook_env" "sigaction_ok xhook_env"
  by (simp_all add: xhook_env_def example_env_def)

lemma jvm_slots:
  assumes "set is \<subseteq> {exempt}"
  shows "library_slots xhook_env () jvm is [example_vma, example_data_vma] jvm_world = [0x1300]"
  unfolding library_slots_def jvm_libs [OF assms] xhook_env_simps by (simp add: libx_library)

lemma jvm_can_hook:
  assumes "set is \<subseteq> {exempt}"
  shows "can_hook xhook_env () jvm 0x3010 is [example_vma, example_data_vma] jvm_world"
proof -
  have maps: "\<forall>w' :: world. mprot w' = mprot jvm_world \<longrightarrow> proc_maps example_os w' = proc_maps example_os jvm_world"
    by (simp add: example_os_def)
  have names: "\<forall>v\<in>set [example_vma, example_data_vma]. CHR 0x00 \<notin> set (v_name v)"
    by (simp add: example_vma_def example_data_vma_def)
  have stable: "\<forall>w'. near (\<Union>a\<in>set [0x1300]. written a 0x3010) jvm_world w' \<longrightarrow>
      (\<forall>v\<in>set [example_vma]. library_ok X86_64 [example_vma, example_data_vma] jvm 0x3010 w' v \<and>
        slots_of X86_64 jvm w' v = slots_of X86_64 jvm jvm_world v)"
    by (simp add: libx_library)
  show ?thesis
    unfolding can_hook_def jvm_libs [OF assms] jvm_slots [OF assms] xhook_env_simps
    by (intro conjI maps names stable example_mprotect_works jvm_lists) (auto simp: xhook_env_simps)
qed

lemma jvm_reported: "reported jvm_world nf 0x3010 [0x1300] = (if nf = 0x5000 then word64 jvm_world 0x3010 else 0x5000)"
  by (simp add: reported_def ld64_word64 jvm_loads)

lemma xhook_hooks_process_witness:
  "\<exists>c1 c2 c3 w'. xhook_register xhook_env (Some ''so$'') (Some jvm) 0x6000 0x3010 (core_initial (OtherAction 0), jvm_world) =
      (Inr 0, (c1, jvm_world)) \<and>
    ignore_all xhook_env [(''.*'', Some ''g'')] (c1, jvm_world) = (Inr [0], (c2, jvm_world)) \<and>
    xhook_refresh xhook_env 0 (c2, jvm_world) = (Inr 0, (c3, w')) \<and>
    word64 w' 0x1300 = 0x6000 \<and> word64 w' 0x3010 = 0x5000 \<and> mprot w' = mprot jvm_world"
proof -
  have rules: "rules_of xhook_env [(''.*'', Some ''g'')] = [exempt]"
    by (simp add: rules_of_def xhook_env_simps exempt_def)
  show ?thesis
    using xhook_hooks_process [where env = xhook_env and rules = "[(''.*'', Some ''g'')]" and nf = "0x6000" and regex = "''so$''" and act = "OtherAction 0",
        unfolded rules, OF jvm_can_hook]
    by (auto simp: jvm_slots jvm_reported xhook_env_simps)
qed

end
