(* ===== verification/CxxHelper.thy ===== *)
theory CxxHelper
  imports Memory Effects
begin

text \<open>
  \<^verbatim>\<open>src/cpp/base/cxx_helper.h\<close>: typed access to a member at an offset, and the search for the offset of a value. The
  types used are \<open>u2\<close>, \<open>u4\<close> and \<open>ptr_t\<close>, of 2, 4 and 8 bytes.
\<close>

section \<open>Stores of any width\<close>

definition put :: "world \<Rightarrow> nat \<Rightarrow> addr \<Rightarrow> u64 \<Rightarrow> world" where
  "put w n a v = w\<lparr>mbytes := put_le (mbytes w) n a v\<rparr>"

definition st_le :: "world \<Rightarrow> nat \<Rightarrow> addr \<Rightarrow> u64 \<Rightarrow> world res" where
  "st_le w n a v = (if all_writable w n a then Inr (put w n a v) else Inl Segv)"

lemma put_mprot [simp]: "mprot (put w n a v) = mprot w"
  by (simp add: put_def)

lemma put_access [simp]:
  "all_writable (put w n a v) k b = all_writable w k b" "all_readable (put w n a v) k b = all_readable w k b"
  by (rule all_writable_cong all_readable_cong; simp)+

text \<open>\<open>n\<close> bytes at \<open>a\<close> and \<open>k\<close> bytes at \<open>b\<close> have none in common.\<close>

definition apart :: "addr \<Rightarrow> nat \<Rightarrow> addr \<Rightarrow> nat \<Rightarrow> bool" where
  "apart a n b k \<longleftrightarrow> (\<forall>i<n. \<forall>j<k. a + of_nat i \<noteq> b + of_nat j)"

lemma apart_sym: "apart a n b k = apart b k a n"
  unfolding apart_def by metis

lemma ld_le_put_other: "apart b k a n \<Longrightarrow> ld_le (put w n a v) k b = ld_le w k b"
  by (rule ld_le_cong) (simp add: apart_def ld8_def readable_def put_def put_le_other)

lemma ld_le_put_same: "all_readable w n a \<Longrightarrow> n \<le> 8 \<Longrightarrow> ld_le (put w n a v) n a = Inr (take_bit (8 * n) v)"
  by (simp add: put_def ld_le_put_le)

lemma mbytes_put_other: "(\<And>i. i < n \<Longrightarrow> b \<noteq> a + of_nat i) \<Longrightarrow> mbytes (put w n a v) b = mbytes w b"
  by (simp add: put_def put_le_other)

text \<open>Two fields of one object, given by their offsets, are apart when the object does not wrap around.\<close>

lemma apart_fields:
  assumes "i + n \<le> j \<or> j + k \<le> i" and "i + n \<le> 2 ^ 64" "j + k \<le> 2 ^ 64"
  shows "apart (a + of_nat i) n (a + of_nat j) k"
  unfolding apart_def
proof (intro allI impI)
  fix x y assume "x < n" "y < k"
  then have "i + x \<noteq> j + y" "i + x < 2 ^ 64" "j + y < 2 ^ 64" using assms by linarith+
  then have "a + of_nat (i + x) \<noteq> a + of_nat (j + y)" by (intro add_of_nat_neq)
  then show "a + of_nat i + of_nat x \<noteq> a + of_nat j + of_nat y" by (simp add: add.assoc)
qed

section \<open>Members\<close>

definition OffsetOf :: "addr \<Rightarrow> u64 \<Rightarrow> addr" where
  "OffsetOf p offset = p + offset"

definition MemberOf_u4 :: "world \<Rightarrow> addr \<Rightarrow> u64 \<Rightarrow> u32 res" where
  "MemberOf_u4 w p offset = ld32 w (OffsetOf p offset)"

definition MemberOf_ptr :: "world \<Rightarrow> addr \<Rightarrow> u64 \<Rightarrow> addr res" where
  "MemberOf_ptr w p offset = ld64 w (OffsetOf p offset)"

definition AssignOffset_u2 :: "world \<Rightarrow> addr \<Rightarrow> u64 \<Rightarrow> u16 \<Rightarrow> world res" where
  "AssignOffset_u2 w p offset m = st_le w 2 (OffsetOf p offset) (ucast m)"

definition AssignOffset_u4 :: "world \<Rightarrow> addr \<Rightarrow> u64 \<Rightarrow> u32 \<Rightarrow> world res" where
  "AssignOffset_u4 w p offset m = st_le w 4 (OffsetOf p offset) (ucast m)"

definition AssignOffset_ptr :: "world \<Rightarrow> addr \<Rightarrow> u64 \<Rightarrow> addr \<Rightarrow> world res" where
  "AssignOffset_ptr w p offset m = st_le w 8 (OffsetOf p offset) m"

text \<open>The difference of two addresses as signed numbers; it is undefined when it does not fit.\<close>

definition DistanceOf :: "addr \<Rightarrow> addr \<Rightarrow> u64 res" where
  "DistanceOf a b =
     (let d = sint b - sint a in if - (2 ^ 63) < d \<and> d < 2 ^ 63 then Inr (word_of_int \<bar>d\<bar>) else Inl Undef)"

text \<open>\<open>GetOffsetByValue<T>\<close>, which tries the multiples of \<open>sizeof(T)\<close>; the loop runs over 24 offsets.\<close>

fun offset_loop :: "(u64 \<Rightarrow> 'a res) \<Rightarrow> 'a \<Rightarrow> u64 list \<Rightarrow> u64 res" where
  "offset_loop member expected_value [] = Inr 0"
| "offset_loop member expected_value (offset # offsets) =
     seqE (member offset) (\<lambda>v. if v = expected_value then Inr offset else offset_loop member expected_value offsets)"

definition offsets_of :: "u64 \<Rightarrow> u64 \<Rightarrow> nat \<Rightarrow> u64 list" where
  "offsets_of start sz n = map (\<lambda>k. start + sz * of_nat k) [0..<n]"

definition GetOffsetByValue_u4 :: "world \<Rightarrow> addr \<Rightarrow> u32 \<Rightarrow> u64 res" where
  "GetOffsetByValue_u4 w obj v = offset_loop (MemberOf_u4 w obj) v (offsets_of 0 4 24)"

definition GetOffsetByValue_ptr :: "world \<Rightarrow> addr \<Rightarrow> addr \<Rightarrow> u64 res" where
  "GetOffsetByValue_ptr w obj v = offset_loop (MemberOf_ptr w obj) v (offsets_of 0 8 24)"

section \<open>What the search finds\<close>

lemma offset_loop_find:
  assumes "\<And>x. x \<in> set xs \<Longrightarrow> \<exists>v. member x = Inr v"
  shows "offset_loop member e xs = Inr (case find (\<lambda>x. member x = Inr e) xs of None \<Rightarrow> 0 | Some x \<Rightarrow> x)"
  using assms
proof (induction xs)
  case (Cons x xs)
  then obtain v where "member x = Inr v" by fastforce
  then show ?case using Cons by auto
qed simp

end
