(* ===== verification/ProcessMap.thy ===== *)
theory ProcessMap
  imports Maps Protect
begin

text \<open>
  \<^verbatim>\<open>src/cpp/elf/process_map.cc\<close>: the loop \<open>ForeachMemoryRange\<close> over \<^verbatim>\<open>/proc/self/maps\<close> and the searches built on it.
  The variables that \<open>sscanf\<close> stores to live through the whole loop and its result is not looked at, so a line
  without a name leaves the name of the line before.
\<close>

section \<open>Lines\<close>

definition PATH_MAX :: nat where "PATH_MAX = 4096"

text \<open>\<open>fgets(buf, n, f)\<close> and the lines of successive calls.\<close>

definition fgets_buf :: "nat \<Rightarrow> string \<Rightarrow> string \<times> string" where
  "fgets_buf n s =
     (let head = takeWhile (\<lambda>c. c \<noteq> CHR 0x0A) s; k = min (n - 1) (Suc (length head)) in (take k s, drop k s))"

fun maps_lines :: "nat \<Rightarrow> string \<Rightarrow> string list" where
  "maps_lines 0 s = []"
| "maps_lines (Suc fuel) s =
     (if s = [] then [] else let (line, rest) = fgets_buf PATH_MAX s in line # maps_lines fuel rest)"

text \<open>\<^verbatim>\<open>%s\<close>.\<close>

definition scan_word :: "string \<Rightarrow> (string \<times> string) option" where
  "scan_word s =
     (let s = skip_ws s; v = takeWhile (\<lambda>c. \<not> isspace c) s in if v = [] then None else Some (v, drop (length v) s))"

text \<open>The variables of the loop that a callback gets.\<close>

record map_vars =
  mv_begin :: u64
  mv_end :: u64
  mv_perm :: string
  mv_mapname :: string

text \<open>
  \<^verbatim>\<open>sscanf(buf, "%lx-%lx %s %lx %s %ld %s", ...)\<close> stores the fields it reads until one does not match. \<open>perm\<close> and
  \<open>dev\<close> have room for 11 characters; a longer word overruns them.
\<close>

definition scan_device :: "string \<Rightarrow> string option res" where
  "scan_device s =
     (case scan_hex s of None \<Rightarrow> Inr None | Some (foo, s) \<Rightarrow>
      case scan_word s of None \<Rightarrow> Inr None | Some (dev, s) \<Rightarrow>
      if 12 \<le> length dev then Inl Undef else Inr (scan_dec s))"

definition scan_map_line :: "string \<Rightarrow> map_vars \<Rightarrow> map_vars res" where
  "scan_map_line buf mv =
     (case scan_hex buf of None \<Rightarrow> Inr mv | Some (b, s) \<Rightarrow>
      let mv = mv\<lparr>mv_begin := b\<rparr> in
      case scan_lit (CHR ''-'') s of None \<Rightarrow> Inr mv | Some s \<Rightarrow>
      case scan_hex s of None \<Rightarrow> Inr mv | Some (e, s) \<Rightarrow>
      let mv = mv\<lparr>mv_end := e\<rparr> in
      case scan_word s of None \<Rightarrow> Inr mv | Some (perm, s) \<Rightarrow>
      if 12 \<le> length perm then Inl Undef else
      let mv = mv\<lparr>mv_perm := perm\<rparr> in
      seqE (scan_device s) (\<lambda>rest.
      case rest of None \<Rightarrow> Inr mv | Some s \<Rightarrow>
      case scan_word s of None \<Rightarrow> Inr mv | Some (mapname, s) \<Rightarrow> Inr (mv\<lparr>mv_mapname := mapname\<rparr>)))"

section \<open>The loop\<close>

text \<open>The callback gets the state of its captures and tells whether to go on.\<close>

fun foreach_line :: "(map_vars \<Rightarrow> 's \<Rightarrow> bool \<times> 's) \<Rightarrow> string list \<Rightarrow> map_vars \<Rightarrow> 's \<Rightarrow> 's res" where
  "foreach_line callback [] mv s = Inr s"
| "foreach_line callback (buf # bufs) mv s =
     seqE (scan_map_line buf mv) (\<lambda>mv.
       let (more, s) = callback mv s in if more then foreach_line callback bufs mv s else Inr s)"

text \<open>\<open>begin\<close> and \<open>end\<close> are not initialised: \<open>b\<close> and \<open>e\<close> are what they hold.\<close>

definition ForeachMemoryRange ::
    "u64 \<Rightarrow> u64 \<Rightarrow> string option \<Rightarrow> (map_vars \<Rightarrow> 's \<Rightarrow> bool \<times> 's) \<Rightarrow> 's \<Rightarrow> 's res" where
  "ForeachMemoryRange b e maps callback s =
     (case maps of None \<Rightarrow> Inr s
      | Some txt \<Rightarrow> foreach_line callback (maps_lines (length txt) txt)
          \<lparr>mv_begin = b, mv_end = e, mv_perm = [], mv_mapname = []\<rparr> s)"

record memory_range =
  mr_path :: "string option"
  mr_base :: u64
  mr_end :: u64

definition MemoryRange :: memory_range where
  "MemoryRange = \<lparr>mr_path = None, mr_base = 0, mr_end = 0\<rparr>"

definition IsValid :: "memory_range \<Rightarrow> bool" where
  "IsValid r \<longleftrightarrow> mr_path r \<noteq> None \<and> mr_base r < mr_end r"

definition IsInRange :: "memory_range \<Rightarrow> u64 \<Rightarrow> bool" where
  "IsInRange r address \<longleftrightarrow> IsValid r \<and> mr_base r \<le> address \<and> mr_end r \<ge> address"

definition file_callback :: "string \<Rightarrow> map_vars \<Rightarrow> memory_range \<Rightarrow> bool \<times> memory_range" where
  "file_callback name mv r =
     (if strstr (mv_mapname mv) name
      then let r = (if mr_path r = None then r\<lparr>mr_path := Some (mv_mapname mv)\<rparr> else r);
               r = (if mr_base r > mv_begin mv then r\<lparr>mr_base := mv_begin mv\<rparr> else r);
               r = (if mr_end r < mv_end mv then r\<lparr>mr_end := mv_end mv\<rparr> else r)
           in (True, r)
      else (True, r))"

definition FindFileMemoryRange :: "u64 \<Rightarrow> u64 \<Rightarrow> string option \<Rightarrow> string \<Rightarrow> memory_range res" where
  "FindFileMemoryRange b e maps name =
     ForeachMemoryRange b e maps (file_callback name) (MemoryRange\<lparr>mr_base := - 1\<rparr>)"

definition execute_callback :: "string \<Rightarrow> map_vars \<Rightarrow> memory_range \<Rightarrow> bool \<times> memory_range" where
  "execute_callback name mv r =
     (if take 18 (mv_mapname mv) = ''/system/fake-libs/'' then (True, r)
      else if strstr (mv_mapname mv) name \<and> strstr (mv_perm mv) ''x'' \<and> strstr (mv_perm mv) ''r''
      then (False, r\<lparr>mr_path := Some (mv_mapname mv), mr_base := mv_begin mv, mr_end := mv_end mv\<rparr>)
      else (True, r))"

definition FindExecuteMemoryRange :: "u64 \<Rightarrow> u64 \<Rightarrow> string option \<Rightarrow> string \<Rightarrow> memory_range res" where
  "FindExecuteMemoryRange b e maps name = ForeachMemoryRange b e maps (execute_callback name) MemoryRange"

definition IsFileInMemory :: "u64 \<Rightarrow> u64 \<Rightarrow> string option \<Rightarrow> string \<Rightarrow> bool res" where
  "IsFileInMemory b e maps name =
     ForeachMemoryRange b e maps (\<lambda>mv found. if strstr (mv_mapname mv) name then (False, True) else (True, found)) False"

section \<open>Reading what the kernel writes\<close>

lemma fgets_buf_line:
  "CHR 0x0A \<notin> set head \<Longrightarrow> length head < PATH_MAX - 1 \<Longrightarrow>
    fgets_buf PATH_MAX ((head @ [CHR 0x0A]) @ rest) = (head @ [CHR 0x0A], rest)"
proof -
  assume "CHR 0x0A \<notin> set head" and len: "length head < PATH_MAX - 1"
  then have "takeWhile (\<lambda>c. c \<noteq> CHR 0x0A) ((head @ [CHR 0x0A]) @ rest) = head"
    by (simp only: append_assoc append_Cons) (rule takeWhile_all_append(1), auto)
  then show ?thesis using len by (simp add: fgets_buf_def Let_def)
qed

lemma maps_lines_vmas:
  assumes "\<forall>v\<in>set vs. vma_ok v" and "length vs \<le> fuel"
  shows "maps_lines fuel (concat (map vma_line vs)) = map vma_line vs"
  using assms
proof (induction vs arbitrary: fuel)
  case Nil
  then show ?case by (cases fuel) simp_all
next
  case (Cons v vs)
  then obtain f where f: "fuel = Suc f" "length vs \<le> f" by (cases fuel) auto
  have v: "vma_ok v" using Cons.prems by simp
  obtain head where line: "vma_line v = head @ [CHR 0x0A]" and nl: "CHR 0x0A \<notin> set head"
    using vma_line_head [OF v] by blast
  have "length head < PATH_MAX - 1" using v by (simp add: vma_ok_def line PATH_MAX_def)
  from fgets_buf_line [OF nl this] show ?case
    using Cons f by (simp add: line)
qed

lemma scan_word_plain:
  assumes "p \<noteq> []" "\<forall>c\<in>set p. \<not> isspace c" "\<forall>c cs. rest = c # cs \<longrightarrow> isspace c"
  shows "scan_word (replicate k (CHR '' '') @ p @ rest) = Some (p, rest)"
proof -
  have sp: "isspace (CHR '' '')" by (simp add: isspace_def)
  have "skip_ws (replicate k (CHR '' '') @ p @ rest) = p @ rest"
    using assms(1,2) sp by (cases p) (auto simp: skip_ws_def dropWhile_append3)
  moreover have "takeWhile (\<lambda>c. \<not> isspace c) (p @ rest) = p"
    using takeWhile_all_append(1) [of p "\<lambda>c. \<not> isspace c" rest] assms(2,3) by auto
  ultimately show ?thesis using assms(1) by (simp add: scan_word_def)
qed

text \<open>The name that stands in the line, up to the first white space in it.\<close>

definition first_word :: "string \<Rightarrow> string" where
  "first_word s = takeWhile (\<lambda>c. \<not> isspace c) s"

definition device :: "vma \<Rightarrow> string" where
  "device v = padded 2 (hex_of (v_major v)) @ '':'' @ padded 2 (hex_of (v_minor v))"

lemma device_plain: "device v \<noteq> []" "\<forall>c\<in>set (device v). \<not> isspace c"
  using padded_xdigits(1) xdigit_plain(1) by (fastforce simp: device_def isspace_def)+

lemma vma_line_device:
  "vma_line v = padded 8 (hex_of (unat (v_start v))) @ ''-'' @ padded 8 (hex_of (unat (v_end v)))
     @ '' '' @ v_perm v @ '' '' @ padded 8 (hex_of (unat (v_offset v)))
     @ '' '' @ device v @ '' '' @ dec_of (v_inode v) @ replicate (v_pad v) (CHR '' '') @ v_name v @ [CHR 0x0A]"
  by (simp add: vma_line_def device_def)

lemma scan_word_space:
  "p \<noteq> [] \<Longrightarrow> \<forall>c\<in>set p. \<not> isspace c \<Longrightarrow> scan_word (CHR '' '' # p @ CHR '' '' # rest) = Some (p, CHR '' '' # rest)"
  using scan_word_plain [of p "CHR '' '' # rest" 1] by (simp add: isspace_def)

lemma scan_word_name:
  assumes "\<forall>c cs. name = c # cs \<longrightarrow> \<not> isspace c" and "CHR 0x0A \<notin> set name"
  shows "scan_word (replicate k (CHR '' '') @ name @ [CHR 0x0A]) =
    (if name = [] then None
     else Some (first_word name, dropWhile (\<lambda>c. \<not> isspace c) name @ [CHR 0x0A]))"
proof (cases name)
  case Nil
  have "isspace (CHR '' '')" "isspace (CHR 0x0A)" by (simp_all add: isspace_def)
  then have "skip_ws (replicate k (CHR '' '') @ [CHR 0x0A]) = []"
    by (simp add: skip_ws_def dropWhile_append3)
  then show ?thesis using Nil by (simp add: scan_word_def)
next
  case (Cons c cs)
  have nl: "isspace (CHR 0x0A)" by (simp add: isspace_def)
  let ?rest = "dropWhile (\<lambda>c. \<not> isspace c) name @ [CHR 0x0A]"
  have "first_word name \<noteq> []" "\<forall>c\<in>set (first_word name). \<not> isspace c"
    using assms(1) Cons by (auto simp: first_word_def dest: set_takeWhileD)
  moreover have "isspace d" if "?rest = d # ds" for d ds
    using that nl hd_dropWhile [of "\<lambda>c. \<not> isspace c" name]
    by (cases "dropWhile (\<lambda>c. \<not> isspace c) name") auto
  moreover have "name @ [CHR 0x0A] = first_word name @ ?rest" by (simp add: first_word_def)
  ultimately show ?thesis
    using scan_word_plain [of "first_word name" ?rest k] Cons by (metis list.distinct(1))
qed

text \<open>The variables after a line: the name stays when the mapping has none.\<close>

definition seen :: "vma \<Rightarrow> map_vars \<Rightarrow> map_vars" where
  "seen v mv = \<lparr>mv_begin = v_start v, mv_end = v_end v, mv_perm = v_perm v,
     mv_mapname = (if v_name v = [] then mv_mapname mv else first_word (v_name v))\<rparr>"

lemma scan_map_vma_line:
  assumes "vma_ok v" and "length (device v) < 12"
  shows "scan_map_line (vma_line v) mv = Inr (seen v mv)"
proof -
  have perm: "length (v_perm v) = 4" "v_perm v \<noteq> []" "\<forall>c\<in>set (v_perm v). \<not> isspace c"
    using assms(1) by (auto simp: vma_ok_def)
  obtain k where k: "v_pad v = Suc k" using assms(1) by (cases "v_pad v") (auto simp: vma_ok_def)
  have "\<forall>c cs. replicate (v_pad v) (CHR '' '') @ v_name v @ [CHR 0x0A] = c # cs \<longrightarrow> \<not> isdigit c"
    by (auto simp: k isdigit_def)
  note inode = scan_dec_dec_of [OF this]
  have name: "scan_word (replicate (v_pad v) (CHR '' '') @ v_name v @ [CHR 0x0A]) =
    (if v_name v = [] then None
     else Some (first_word (v_name v), dropWhile (\<lambda>c. \<not> isspace c) (v_name v) @ [CHR 0x0A]))"
    using assms(1) by (intro scan_word_name) (auto simp: vma_ok_def)
  show ?thesis
    using perm assms(2) name
    by (simp add: scan_map_line_def vma_line_device scan_hex_word scan_lit_def scan_word_space scan_device_def
        scan_hex_space device_plain inode seen_def Let_def)
qed

section \<open>The searches on a list of mappings\<close>

text \<open>The kernel's list of mappings with devices that fit, and the variables after each of its lines.\<close>

definition maps_ok :: "vma list \<Rightarrow> bool" where
  "maps_ok vs \<longleftrightarrow> (\<forall>v\<in>set vs. vma_ok v \<and> length (device v) < 12)"

fun sightings :: "vma list \<Rightarrow> map_vars \<Rightarrow> map_vars list" where
  "sightings [] mv = []"
| "sightings (v # vs) mv = seen v mv # sightings vs (seen v mv)"

fun visit :: "(map_vars \<Rightarrow> 's \<Rightarrow> bool \<times> 's) \<Rightarrow> map_vars list \<Rightarrow> 's \<Rightarrow> 's" where
  "visit callback [] s = s"
| "visit callback (mv # mvs) s = (let (more, s) = callback mv s in if more then visit callback mvs s else s)"

lemma foreach_line_visit:
  "maps_ok vs \<Longrightarrow> foreach_line callback (map vma_line vs) mv s = Inr (visit callback (sightings vs mv) s)"
  by (induction vs arbitrary: mv s) (auto simp: maps_ok_def scan_map_vma_line split: prod.splits)

lemma ForeachMemoryRange_visit:
  assumes "maps_ok vs" and "maps = Some (concat (map vma_line vs))"
  shows "ForeachMemoryRange b e maps callback s =
    Inr (visit callback (sightings vs \<lparr>mv_begin = b, mv_end = e, mv_perm = [], mv_mapname = []\<rparr>) s)"
proof -
  have "length vs \<le> length (concat (map vma_line vs))"
    by (induction vs) (auto simp: vma_line_def)
  then show ?thesis
    using maps_lines_vmas [of vs] foreach_line_visit [OF assms(1)] assms
    by (auto simp: ForeachMemoryRange_def maps_ok_def)
qed

text \<open>What the search for an executable mapping looks for; the first such line ends it.\<close>

definition execute_hit :: "string \<Rightarrow> map_vars \<Rightarrow> bool" where
  "execute_hit name mv \<longleftrightarrow> take 18 (mv_mapname mv) \<noteq> ''/system/fake-libs/'' \<and>
     strstr (mv_mapname mv) name \<and> strstr (mv_perm mv) ''x'' \<and> strstr (mv_perm mv) ''r''"

lemma visit_execute:
  "visit (execute_callback name) mvs r = (case find (execute_hit name) mvs of None \<Rightarrow> r
   | Some mv \<Rightarrow> r\<lparr>mr_path := Some (mv_mapname mv), mr_base := mv_begin mv, mr_end := mv_end mv\<rparr>)"
  by (induction mvs) (auto simp: execute_callback_def execute_hit_def)

lemma visit_in_memory:
  "visit (\<lambda>mv found. if strstr (mv_mapname mv) name then (False, True) else (True, found)) mvs s
     \<longleftrightarrow> s \<or> (\<exists>mv\<in>set mvs. strstr (mv_mapname mv) name)"
  by (induction mvs) auto

text \<open>
  The initial values of \<open>begin\<close> and \<open>end\<close> do not matter once a line has been read; when every mapping has a name without
  white space, each line is seen as it is.
\<close>

definition seen_as_is :: "vma \<Rightarrow> map_vars" where
  "seen_as_is v = \<lparr>mv_begin = v_start v, mv_end = v_end v, mv_perm = v_perm v, mv_mapname = v_name v\<rparr>"

lemma sightings_named:
  "\<forall>v\<in>set vs. v_name v \<noteq> [] \<and> (\<forall>c\<in>set (v_name v). \<not> isspace c) \<Longrightarrow> sightings vs mv = map seen_as_is vs"
  by (induction vs arbitrary: mv) (auto simp: seen_def seen_as_is_def first_word_def)

text \<open>The union of the ranges of the mappings of a file.\<close>

definition file_hits :: "string \<Rightarrow> map_vars list \<Rightarrow> map_vars list" where
  "file_hits name mvs = filter (\<lambda>mv. strstr (mv_mapname mv) name) mvs"

lemma visit_file:
  "visit (file_callback name) mvs r =
     \<lparr>mr_path = (case mr_path r of Some p \<Rightarrow> Some p
        | None \<Rightarrow> (case file_hits name mvs of [] \<Rightarrow> None | mv # _ \<Rightarrow> Some (mv_mapname mv))),
      mr_base = foldl min (mr_base r) (map mv_begin (file_hits name mvs)),
      mr_end = foldl max (mr_end r) (map mv_end (file_hits name mvs))\<rparr>"
  by (induction mvs arbitrary: r) (auto simp: file_callback_def file_hits_def Let_def min_def max_def split: option.split list.split)

end
