(* ===== verification/ElfImage.thy ===== *)
theory ElfImage
  imports ElfHash LookupSpec
begin

text \<open>
  The second ELF parser, \<^verbatim>\<open>src/cpp/elf/elf_image.cc\<close>, which reads the section headers of a library file mapped
  into memory: \<open>ElfParser::Parse\<close>, the three symbol lookups, \<open>FindSymbolOffset\<close>, and the classes \<open>ElfReader\<close>
  and \<open>ElfImage\<close> around them.
\<close>

section \<open>Layout\<close>

text \<open>Field offsets of \<open>Elf64_Ehdr\<close>, \<open>Elf64_Shdr\<close> (64 bytes) and \<open>Elf64_Sym\<close> (24 bytes).\<close>

definition e_shoff :: "world \<Rightarrow> addr \<Rightarrow> u64 res" where "e_shoff w eh = ld64 w (eh + 40)"
definition e_shnum :: "world \<Rightarrow> addr \<Rightarrow> u16 res" where "e_shnum w eh = ld16 w (eh + 60)"
definition e_shstrndx :: "world \<Rightarrow> addr \<Rightarrow> u16 res" where "e_shstrndx w eh = ld16 w (eh + 62)"
definition sh_name :: "world \<Rightarrow> addr \<Rightarrow> u32 res" where "sh_name w shdr = ld32 w shdr"
definition sh_type :: "world \<Rightarrow> addr \<Rightarrow> u32 res" where "sh_type w shdr = ld32 w (shdr + 4)"
definition sh_addr :: "world \<Rightarrow> addr \<Rightarrow> u64 res" where "sh_addr w shdr = ld64 w (shdr + 16)"
definition sh_offset :: "world \<Rightarrow> addr \<Rightarrow> u64 res" where "sh_offset w shdr = ld64 w (shdr + 24)"
definition sh_size :: "world \<Rightarrow> addr \<Rightarrow> u64 res" where "sh_size w shdr = ld64 w (shdr + 32)"
definition st_name :: "world \<Rightarrow> addr \<Rightarrow> u32 res" where "st_name w s = ld32 w s"
definition st_info :: "world \<Rightarrow> addr \<Rightarrow> u8 res" where "st_info w s = ld8 w (s + 4)"
definition st_value :: "world \<Rightarrow> addr \<Rightarrow> u64 res" where "st_value w s = ld64 w (s + 8)"

lemmas section_layout_defs =
  e_shoff_def e_shnum_def e_shstrndx_def sh_name_def sh_type_def sh_addr_def sh_offset_def sh_size_def
lemmas symbol_layout_defs = st_name_def st_info_def st_value_def

definition SHT_PROGBITS :: u32 where "SHT_PROGBITS = 1"
definition SHT_SYMTAB :: u32 where "SHT_SYMTAB = 2"
definition SHT_STRTAB :: u32 where "SHT_STRTAB = 3"
definition SHT_HASH :: u32 where "SHT_HASH = 5"
definition SHT_DYNSYM :: u32 where "SHT_DYNSYM = 11"
definition SHT_GNU_HASH :: u32 where "SHT_GNU_HASH = 0x6ffffff6"

lemmas sht_defs = SHT_PROGBITS_def SHT_SYMTAB_def SHT_STRTAB_def SHT_HASH_def SHT_DYNSYM_def SHT_GNU_HASH_def

definition INT_MAX :: u64 where "INT_MAX = 0x7fffffff"

section \<open>The parser\<close>

text \<open>\<open>ElfParser\<close>, with the final underscore of its members left out and a prefix; pointers are addresses.\<close>

record elf_parser =
  ep_ehdr :: addr
  ep_phdr :: addr
  ep_shdr :: addr
  ep_load_bias :: u64
  ep_got :: addr
  ep_got_plt :: addr
  ep_rel_dyn :: addr
  ep_rel_plt :: addr
  ep_rela_dyn :: addr
  ep_rela_plt :: addr
  ep_shstrtab :: addr
  ep_strtab :: addr
  ep_dynstr :: addr
  ep_symtab :: addr
  ep_symcnt :: u64
  ep_dynsym :: addr
  ep_dyncnt :: u64
  ep_nbucket :: u32
  ep_nchain :: u32
  ep_bucket :: addr
  ep_chain :: addr
  ep_gnu_nbucket :: u32
  ep_gnu_symndx :: u32
  ep_gnu_maskwords_bm :: u32
  ep_gnu_shift2 :: u32
  ep_gnu_bloom_filter :: addr
  ep_gnu_bucket :: addr
  ep_gnu_chain :: addr

text \<open>
  The constructor initialises six members only; the others keep what the memory of the object held, \<open>raw\<close>.
\<close>

definition ElfParser :: "elf_parser \<Rightarrow> elf_parser" where
  "ElfParser raw = raw\<lparr>ep_nbucket := 0, ep_nchain := 0, ep_bucket := 0, ep_chain := 0,
     ep_gnu_nbucket := 0, ep_gnu_symndx := 0\<rparr>"

section \<open>Lookups\<close>

fun LinearLookup :: "world \<Rightarrow> string \<Rightarrow> addr \<Rightarrow> nat \<Rightarrow> addr \<Rightarrow> addr option res" where
  "LinearLookup w name tab 0 str = Inr None"
| "LinearLookup w name tab (Suc symcnt) str =
     (let sym = tab + 24 * of_nat symcnt in
      seqE (st_info w sym) (\<lambda>info.
      if info AND (1 OR 2) \<noteq> 0
      then seqE (st_name w sym) (\<lambda>n.
        seqE (strcmp_eq w name (str + ucast n)) (\<lambda>eq.
        if eq then Inr (Some sym) else LinearLookup w name tab symcnt str))
      else LinearLookup w name tab symcnt str))"

definition dyn_name_eq :: "world \<Rightarrow> elf_parser \<Rightarrow> string \<Rightarrow> addr \<Rightarrow> bool res" where
  "dyn_name_eq w p name s = seqE (st_name w s) (\<lambda>n. strcmp_eq w name (ep_dynstr p + ucast n))"

fun elf_lookup_loop :: "nat \<Rightarrow> world \<Rightarrow> elf_parser \<Rightarrow> string \<Rightarrow> u32 \<Rightarrow> addr option res" where
  "elf_lookup_loop 0 w p name n = Inl Diverge"
| "elf_lookup_loop (Suc fuel) w p name n =
     (if n = 0 then Inr None
      else let sym = ep_dynsym p + 24 * ucast n in
        seqE (dyn_name_eq w p name sym) (\<lambda>eq.
        if eq then Inr (Some sym)
        else seqE (ld32 w (ep_chain p + 4 * ucast n)) (\<lambda>n. elf_lookup_loop fuel w p name n)))"

definition ElfLookup :: "world \<Rightarrow> elf_parser \<Rightarrow> string \<Rightarrow> addr option res" where
  "ElfLookup w p name =
     seqE (mod32 (ElfHash name) (ep_nbucket p)) (\<lambda>b.
     seqE (ld32 w (ep_bucket p + 4 * ucast b)) (\<lambda>n. elf_lookup_loop index_fuel w p name n))"

text \<open>The index of this loop is a \<open>uint_fast32_t\<close>, which has 64 bits here.\<close>

definition wide_fuel :: nat where "wide_fuel = 2 ^ 64"

fun gnu_chain_loop :: "nat \<Rightarrow> world \<Rightarrow> elf_parser \<Rightarrow> string \<Rightarrow> u32 \<Rightarrow> u64 \<Rightarrow> addr option res" where
  "gnu_chain_loop 0 w p name hashval i = Inl Diverge"
| "gnu_chain_loop (Suc fuel) w p name hashval i =
     (let sym = ep_dynsym p + 24 * i in
      seqE (ld32 w (ep_gnu_chain p + 4 * i)) (\<lambda>c.
      seqE (if drop_bit 1 (c XOR hashval) = 0 then dyn_name_eq w p name sym else Inr False) (\<lambda>eq.
      if eq then Inr (Some sym)
      else if c AND 1 = 0 then gnu_chain_loop fuel w p name hashval (i + 1)
      else Inr None)))"

text \<open>\<open>gnu_bloom_filter_\<close> is a \<^verbatim>\<open>u4 *\<close>: one entry has 32 bits, although the filter has words of 64 bits.\<close>

definition GnuLookup :: "world \<Rightarrow> elf_parser \<Rightarrow> string \<Rightarrow> addr option res" where
  "GnuLookup w p name =
     (let hashval = GnuHash name in
      if 32 \<le> ep_gnu_shift2 p then Inl Undef else
      let hashval2 = drop_bit (unat (ep_gnu_shift2 p)) hashval in
      seqE (ld32 w (ep_gnu_bloom_filter p + 4 * ucast (hashval div 64 AND ep_gnu_maskwords_bm p))) (\<lambda>v.
      let bloom_word = ucast v :: u64 in
      if 1 AND drop_bit (unat (hashval mod 64)) bloom_word AND drop_bit (unat (hashval2 mod 64)) bloom_word \<noteq> 0
      then seqE (mod32 hashval (ep_gnu_nbucket p)) (\<lambda>b.
        seqE (ld32 w (ep_gnu_bucket p + 4 * ucast b)) (\<lambda>sym_index.
        if sym_index \<noteq> 0 then gnu_chain_loop wide_fuel w p name hashval (ucast sym_index) else Inr None))
      else Inr None))"

definition FindSymbolOffset :: "world \<Rightarrow> elf_parser \<Rightarrow> string \<Rightarrow> u64 res" where
  "FindSymbolOffset w p name =
     seqE (if 0 < ep_gnu_nbucket p then GnuLookup w p name else Inr None) (\<lambda>found.
     seqE (if found = None \<and> 0 < ep_nbucket p then ElfLookup w p name else Inr found) (\<lambda>found.
     seqE (if found = None \<and> ep_symtab p \<noteq> 0
           then LinearLookup w name (ep_symtab p) (unat (ep_symcnt p)) (ep_strtab p) else Inr found) (\<lambda>found.
     case found of None \<Rightarrow> Inr 0 | Some s \<Rightarrow> seqE (st_value w s) (\<lambda>v. Inr (v + ep_load_bias p)))))"

section \<open>Parsing\<close>

definition section_is :: "world \<Rightarrow> elf_parser \<Rightarrow> addr \<Rightarrow> string \<Rightarrow> bool res" where
  "section_is w p sh s = seqE (sh_name w sh) (\<lambda>n. strcmp_eq w s (ep_shstrtab p + ucast n))"

text \<open>The cases of the \<^verbatim>\<open>switch\<close>.\<close>

definition parse_strtab :: "world \<Rightarrow> addr \<Rightarrow> elf_parser \<Rightarrow> elf_parser res" where
  "parse_strtab w sh p =
     seqE (sh_offset w sh) (\<lambda>off.
     let table = ep_ehdr p + off in
     if ep_dynstr p = 0 then Inr (p\<lparr>ep_dynstr := table\<rparr>)
     else seqE (section_is w p sh ''.strtab'') (\<lambda>eq. Inr (if eq then p\<lparr>ep_strtab := table\<rparr> else p)))"

definition parse_progbits :: "world \<Rightarrow> addr \<Rightarrow> elf_parser \<Rightarrow> elf_parser res" where
  "parse_progbits w sh p =
     (if ep_load_bias p = INT_MAX
      then seqE (sh_offset w sh) (\<lambda>off. seqE (sh_addr w sh) (\<lambda>a. Inr (p\<lparr>ep_load_bias := off - a\<rparr>)))
      else seqE (section_is w p sh ''.got'') (\<lambda>eq.
        if eq then Inr (p\<lparr>ep_got := sh\<rparr>)
        else seqE (section_is w p sh ''.got.plt'') (\<lambda>eq. Inr (if eq then p\<lparr>ep_got_plt := sh\<rparr> else p))))"

definition parse_hash :: "world \<Rightarrow> addr \<Rightarrow> elf_parser \<Rightarrow> elf_parser res" where
  "parse_hash w sh p =
     seqE (sh_offset w sh) (\<lambda>off.
     let d_un = ep_ehdr p + off in
     seqE (ld32 w d_un) (\<lambda>nbucket.
     seqE (ld32 w (d_un + 4)) (\<lambda>nchain.
     Inr (p\<lparr>ep_nbucket := nbucket, ep_nchain := nchain, ep_bucket := d_un + 8,
            ep_chain := d_un + 8 + 4 * ucast nbucket\<rparr>))))"

definition parse_gnu_hash :: "world \<Rightarrow> addr \<Rightarrow> elf_parser \<Rightarrow> elf_parser res" where
  "parse_gnu_hash w sh p =
     seqE (sh_offset w sh) (\<lambda>off.
     let d_buf = ep_ehdr p + off in
     seqE (ld32 w d_buf) (\<lambda>nbucket.
     seqE (ld32 w (d_buf + 4)) (\<lambda>symndx.
     seqE (ld32 w (d_buf + 8)) (\<lambda>maskwords.
     seqE (ld8 w (ep_ehdr p + 4)) (\<lambda>cls.
     seqE (ld32 w (d_buf + 12)) (\<lambda>shift2.
     let maskwords = (if cls = 2 then maskwords * 2 else maskwords);
         gnu_bucket = d_buf + 16 + 4 * ucast maskwords in
     Inr (p\<lparr>ep_gnu_nbucket := nbucket, ep_gnu_symndx := symndx, ep_gnu_shift2 := shift2,
            ep_gnu_bloom_filter := d_buf + 16, ep_gnu_bucket := gnu_bucket,
            ep_gnu_chain := gnu_bucket + 4 * ucast nbucket - 4 * ucast symndx,
            ep_gnu_maskwords_bm := maskwords - 1\<rparr>)))))))"

definition parse_default :: "world \<Rightarrow> addr \<Rightarrow> elf_parser \<Rightarrow> elf_parser res" where
  "parse_default w sh p =
     seqE (section_is w p sh ''.rel.dyn'') (\<lambda>eq. if eq then Inr (p\<lparr>ep_rel_dyn := sh\<rparr>) else
     seqE (section_is w p sh ''.rel.plt'') (\<lambda>eq. if eq then Inr (p\<lparr>ep_rel_plt := sh\<rparr>) else
     seqE (section_is w p sh ''.rela.dyn'') (\<lambda>eq. if eq then Inr (p\<lparr>ep_rela_dyn := sh\<rparr>) else
     seqE (section_is w p sh ''.rela.plt'') (\<lambda>eq. Inr (if eq then p\<lparr>ep_rela_plt := sh\<rparr> else p)))))"

definition parse_section :: "world \<Rightarrow> addr \<Rightarrow> elf_parser \<Rightarrow> elf_parser res" where
  "parse_section w sh p = seqE (sh_type w sh) (\<lambda>ty.
     if ty = SHT_SYMTAB then seqE (sh_offset w sh) (\<lambda>off. seqE (sh_size w sh) (\<lambda>size.
       Inr (p\<lparr>ep_symtab := ep_ehdr p + off, ep_symcnt := size div 24\<rparr>)))
     else if ty = SHT_DYNSYM then seqE (sh_offset w sh) (\<lambda>off. seqE (sh_size w sh) (\<lambda>size.
       Inr (p\<lparr>ep_dynsym := ep_ehdr p + off, ep_dyncnt := size div 24\<rparr>)))
     else if ty = SHT_STRTAB then parse_strtab w sh p
     else if ty = SHT_PROGBITS then parse_progbits w sh p
     else if ty = SHT_HASH then parse_hash w sh p
     else if ty = SHT_GNU_HASH then parse_gnu_hash w sh p
     else parse_default w sh p)"

fun parse_sections :: "world \<Rightarrow> addr list \<Rightarrow> elf_parser \<Rightarrow> elf_parser res" where
  "parse_sections w [] p = Inr p"
| "parse_sections w (sh # shs) p = seqE (parse_section w sh p) (parse_sections w shs)"

definition Parse :: "world \<Rightarrow> elf_parser \<Rightarrow> addr \<Rightarrow> (bool \<times> elf_parser) res" where
  "Parse w p base =
     seqE (e_phoff w base) (\<lambda>phoff.
     seqE (e_shoff w base) (\<lambda>shoff.
     let p = p\<lparr>ep_load_bias := INT_MAX, ep_ehdr := base, ep_phdr := base + phoff, ep_shdr := base + shoff\<rparr> in
     seqE (e_shnum w base) (\<lambda>shnum.
     if shnum = 0 then Inr (False, p)
     else seqE (e_shstrndx w base) (\<lambda>shstrndx.
       seqE (sh_offset w (ep_shdr p + 64 * ucast shstrndx)) (\<lambda>off.
       seqE (parse_sections w (entries (ep_shdr p) 64 (unat shnum))
           (p\<lparr>ep_shstrtab := base + off, ep_dynstr := 0\<rparr>)) (\<lambda>p.
       Inr (True, p)))))))"

end
