(* ===== verification/ElfImageSpec.thy ===== *)
theory ElfImageSpec
  imports ElfImage
begin

text \<open>
  What \<open>ElfParser::Parse\<close> promises: it leaves a parser that describes the file (\<open>file_described\<close>).
\<close>

section \<open>Parsing\<close>

text \<open>A section as its header describes it.\<close>

record elf_section =
  se_type :: u32
  se_name :: string
  se_addr :: u64
  se_offset :: u64
  se_size :: u64

text \<open>
  The header at \<open>h\<close> is that of \<open>s\<close>; the words that head a hash table can be read, a string table is not at 0.
\<close>

definition section_at :: "world \<Rightarrow> addr \<Rightarrow> addr \<Rightarrow> addr \<Rightarrow> elf_section \<Rightarrow> bool" where
  "section_at w base shstr h s \<longleftrightarrow>
     sh_type w h = Inr (se_type s) \<and> (\<exists>n. sh_name w h = Inr n \<and> cstr_at w (shstr + ucast n) (se_name s)) \<and>
     sh_addr w h = Inr (se_addr s) \<and> sh_offset w h = Inr (se_offset s) \<and> sh_size w h = Inr (se_size s) \<and>
     (se_type s = SHT_STRTAB \<longrightarrow> base + se_offset s \<noteq> 0) \<and>
     (se_type s = SHT_HASH \<longrightarrow> (\<exists>nb nc. ld32 w (base + se_offset s) = Inr nb \<and> ld32 w (base + se_offset s + 4) = Inr nc)) \<and>
     (se_type s = SHT_GNU_HASH \<longrightarrow> (\<exists>a b c d. ld32 w (base + se_offset s) = Inr a \<and>
        ld32 w (base + se_offset s + 4) = Inr b \<and> ld32 w (base + se_offset s + 8) = Inr c \<and>
        ld32 w (base + se_offset s + 12) = Inr d))"

definition last_section :: "u32 \<Rightarrow> elf_section list \<Rightarrow> elf_section option" where
  "last_section ty ss = find (\<lambda>s. se_type s = ty) (rev ss)"

lemma last_section_simps [simp]:
  "last_section ty [] = None"
  "last_section ty (ss @ [s]) = (if se_type s = ty then Some s else last_section ty ss)"
  by (simp_all add: last_section_def)

definition string_tables :: "elf_section list \<Rightarrow> elf_section list" where
  "string_tables ss = filter (\<lambda>s. se_type s = SHT_STRTAB) ss"

definition bias_of :: "elf_section list \<Rightarrow> u64" where
  "bias_of ss = (case find (\<lambda>s. se_type s = SHT_PROGBITS \<and> se_offset s - se_addr s \<noteq> INT_MAX) ss of
     None \<Rightarrow> INT_MAX | Some s \<Rightarrow> se_offset s - se_addr s)"

text \<open>
  The parser after the sections \<open>ss\<close> of the file at \<open>base\<close>, when it was \<open>p0\<close> before: the last section of a kind counts,
  but the first string table is \<open>dynstr\<close> and the first \<open>PROGBITS\<close> section gives the bias.
\<close>

definition tables_described :: "addr \<Rightarrow> elf_parser \<Rightarrow> elf_section list \<Rightarrow> elf_parser \<Rightarrow> bool" where
  "tables_described base p0 ss p \<longleftrightarrow>
     (ep_symtab p, ep_symcnt p) = (case last_section SHT_SYMTAB ss of
        None \<Rightarrow> (ep_symtab p0, ep_symcnt p0) | Some s \<Rightarrow> (base + se_offset s, se_size s div 24)) \<and>
     (ep_dynsym p, ep_dyncnt p) = (case last_section SHT_DYNSYM ss of
        None \<Rightarrow> (ep_dynsym p0, ep_dyncnt p0) | Some s \<Rightarrow> (base + se_offset s, se_size s div 24)) \<and>
     ep_dynstr p = (case string_tables ss of [] \<Rightarrow> 0 | s # _ \<Rightarrow> base + se_offset s) \<and>
     ep_strtab p = (case find (\<lambda>s. se_name s = ''.strtab'') (rev (tl (string_tables ss))) of
        None \<Rightarrow> ep_strtab p0 | Some s \<Rightarrow> base + se_offset s) \<and>
     ep_load_bias p = bias_of ss"

definition hash_described :: "world \<Rightarrow> addr \<Rightarrow> elf_parser \<Rightarrow> elf_section list \<Rightarrow> elf_parser \<Rightarrow> bool" where
  "hash_described w base p0 ss p \<longleftrightarrow> (case last_section SHT_HASH ss of
     None \<Rightarrow> ep_nbucket p = ep_nbucket p0 \<and> ep_bucket p = ep_bucket p0 \<and> ep_chain p = ep_chain p0
   | Some s \<Rightarrow> ld32 w (base + se_offset s) = Inr (ep_nbucket p) \<and>
       ep_bucket p = base + se_offset s + 8 \<and> ep_chain p = ep_bucket p + 4 * ucast (ep_nbucket p))"

definition gnu_described :: "world \<Rightarrow> addr \<Rightarrow> u8 \<Rightarrow> elf_parser \<Rightarrow> elf_section list \<Rightarrow> elf_parser \<Rightarrow> bool" where
  "gnu_described w base cls p0 ss p \<longleftrightarrow> (case last_section SHT_GNU_HASH ss of
     None \<Rightarrow> ep_gnu_nbucket p = ep_gnu_nbucket p0
   | Some s \<Rightarrow> ld32 w (base + se_offset s) = Inr (ep_gnu_nbucket p) \<and>
       ld32 w (base + se_offset s + 12) = Inr (ep_gnu_shift2 p) \<and>
       (\<exists>symndx maskwords. ld32 w (base + se_offset s + 4) = Inr symndx \<and> ld32 w (base + se_offset s + 8) = Inr maskwords \<and>
          ep_gnu_maskwords_bm p = (if cls = 2 then 2 * maskwords else maskwords) - 1 \<and>
          ep_gnu_bloom_filter p = base + se_offset s + 16 \<and>
          ep_gnu_bucket p = ep_gnu_bloom_filter p + 4 * ucast (ep_gnu_maskwords_bm p + 1) \<and>
          ep_gnu_chain p = ep_gnu_bucket p + 4 * ucast (ep_gnu_nbucket p) - 4 * ucast symndx))"

definition file_described ::
    "world \<Rightarrow> addr \<Rightarrow> u8 \<Rightarrow> elf_parser \<Rightarrow> elf_section list \<Rightarrow> elf_parser \<Rightarrow> bool" where
  "file_described w base cls p0 ss p \<longleftrightarrow> ep_ehdr p = base \<and>
     tables_described base p0 ss p \<and> hash_described w base p0 ss p \<and> gnu_described w base cls p0 ss p"

lemma section_is_at:
  assumes "section_at w base (ep_shstrtab p) h s" and "CHR 0x00 \<notin> set n"
  shows "section_is w p h n = Inr (n = se_name s)"
  using assms strcmp_eq_cstr_at by (auto simp: section_at_def section_is_def)

lemma bias_of_snoc:
  "bias_of (ss @ [s]) = (if bias_of ss = INT_MAX \<and> se_type s = SHT_PROGBITS then se_offset s - se_addr s else bias_of ss)"
proof (cases "find (\<lambda>s. se_type s = SHT_PROGBITS \<and> se_offset s - se_addr s \<noteq> INT_MAX) ss")
  case (Some t)
  then have "se_offset t - se_addr t \<noteq> INT_MAX" by (auto simp: find_Some_iff)
  with Some show ?thesis by (simp add: bias_of_def find_append)
qed (simp add: bias_of_def find_append)

lemma string_tables_snoc:
  "string_tables (ss @ [s]) = string_tables ss @ (if se_type s = SHT_STRTAB then [s] else [])"
  by (simp add: string_tables_def)

lemma string_tables_Nil: "(case string_tables ss of [] \<Rightarrow> 0 | s # _ \<Rightarrow> base + se_offset s) = 0 \<longleftrightarrow> string_tables ss = []"
  if "\<forall>s\<in>set ss. se_type s = SHT_STRTAB \<longrightarrow> base + se_offset s \<noteq> 0"
proof (cases "string_tables ss")
  case (Cons s ts)
  then have "s \<in> set (string_tables ss)" by simp
  then have "base + se_offset s \<noteq> 0" using that by (auto simp: string_tables_def)
  with Cons show ?thesis by simp
qed simp

text \<open>One section.\<close>

lemma parse_section_describes:
  assumes at: "section_at w base (ep_shstrtab p) h s" and cls: "ld8 w (base + 4) = Inr cls"
    and old: "file_described w base cls p0 ss p"
    and tabs: "\<forall>s\<in>set ss. se_type s = SHT_STRTAB \<longrightarrow> base + se_offset s \<noteq> 0"
  shows "\<exists>p'. parse_section w h p = Inr p' \<and> file_described w base cls p0 (ss @ [s]) p' \<and> ep_shstrtab p' = ep_shstrtab p"
proof -
  note named = section_is_at [OF at]
  have base: "ep_ehdr p = base" and bias: "ep_load_bias p = bias_of ss"
    and dynstr: "ep_dynstr p = 0 \<longleftrightarrow> string_tables ss = []"
    using old string_tables_Nil [OF tabs] by (simp_all add: file_described_def tables_described_def)
  have reads: "sh_type w h = Inr (se_type s)" "sh_addr w h = Inr (se_addr s)"
    "sh_offset w h = Inr (se_offset s)" "sh_size w h = Inr (se_size s)"
    using at by (simp_all add: section_at_def)
  consider (symtab) "se_type s = SHT_SYMTAB" | (dynsym) "se_type s = SHT_DYNSYM" | (strtab) "se_type s = SHT_STRTAB"
    | (progbits) "se_type s = SHT_PROGBITS" | (hash) "se_type s = SHT_HASH" | (gnu) "se_type s = SHT_GNU_HASH"
    | (other) "se_type s \<notin> {SHT_SYMTAB, SHT_DYNSYM, SHT_STRTAB, SHT_PROGBITS, SHT_HASH, SHT_GNU_HASH}"
    by auto
  then show ?thesis
  proof cases
    case strtab
    then show ?thesis using old
      by (auto simp: parse_section_def parse_strtab_def reads named base dynstr file_described_def tables_described_def
          hash_described_def gnu_described_def sht_defs string_tables_snoc bias_of_snoc Let_def split: list.splits cong: option.case_cong)
  next
    case progbits
    then show ?thesis using old
      by (auto simp: parse_section_def parse_progbits_def reads named bias file_described_def tables_described_def
          hash_described_def gnu_described_def sht_defs string_tables_snoc bias_of_snoc cong: option.case_cong)
  next
    case hash
    then obtain nb nc where "ld32 w (base + se_offset s) = Inr nb" "ld32 w (base + se_offset s + 4) = Inr nc"
      using at by (auto simp: section_at_def)
    with hash show ?thesis using old
      by (simp add: parse_section_def parse_hash_def reads base file_described_def tables_described_def
          hash_described_def gnu_described_def sht_defs string_tables_snoc bias_of_snoc Let_def cong: option.case_cong)
  next
    case gnu
    then obtain a b c d where "ld32 w (base + se_offset s) = Inr a" "ld32 w (base + se_offset s + 4) = Inr b"
      "ld32 w (base + se_offset s + 8) = Inr c" "ld32 w (base + se_offset s + 12) = Inr d"
      using at by (auto simp: section_at_def)
    with gnu show ?thesis using old
      by (simp add: parse_section_def parse_gnu_hash_def reads base cls file_described_def tables_described_def
          hash_described_def gnu_described_def sht_defs string_tables_snoc bias_of_snoc Let_def cong: option.case_cong)
  next
    case other
    then show ?thesis using old
      by (auto simp: parse_section_def parse_default_def reads named file_described_def tables_described_def
          hash_described_def gnu_described_def string_tables_snoc bias_of_snoc cong: option.case_cong)
  qed (use old in \<open>simp_all add: parse_section_def reads base file_described_def tables_described_def
          hash_described_def gnu_described_def sht_defs string_tables_snoc bias_of_snoc cong: option.case_cong\<close>)
qed

lemma parse_sections_append: "parse_sections w (xs @ ys) p = seqE (parse_sections w xs p) (parse_sections w ys)"
  by (induction xs arbitrary: p) (auto simp: seqE_def split: sum.splits)

lemma parse_sections_describes:
  assumes "list_all2 (section_at w base (ep_shstrtab p0)) hs ss" and "ld8 w (base + 4) = Inr cls"
    and "ep_ehdr p0 = base" "ep_dynstr p0 = 0" "ep_load_bias p0 = INT_MAX"
  shows "\<exists>p. parse_sections w hs p0 = Inr p \<and> file_described w base cls p0 ss p \<and> ep_shstrtab p = ep_shstrtab p0"
  using assms(1)
proof (induction ss arbitrary: hs rule: rev_induct)
  case Nil
  then show ?case
    using assms(3-) by (simp add: file_described_def tables_described_def hash_described_def gnu_described_def
        string_tables_def bias_of_def)
next
  case (snoc s ss)
  then obtain hs' h where hs: "hs = hs' @ [h]" "list_all2 (section_at w base (ep_shstrtab p0)) hs' ss"
    "section_at w base (ep_shstrtab p0) h s"
    by (auto simp: list_all2_append2 list_all2_Cons2)
  obtain p where p: "parse_sections w hs' p0 = Inr p" "file_described w base cls p0 ss p" "ep_shstrtab p = ep_shstrtab p0"
    using snoc.IH [OF hs(2)] by blast
  have "\<forall>s\<in>set ss. se_type s = SHT_STRTAB \<longrightarrow> base + se_offset s \<noteq> 0"
    using hs(2) by (auto simp: list_all2_conv_all_nth in_set_conv_nth section_at_def)
  then obtain p' where "parse_section w h p = Inr p'" "file_described w base cls p0 (ss @ [s]) p'"
    "ep_shstrtab p' = ep_shstrtab p0"
    using parse_section_describes [OF _ assms(2) p(2), of h s] hs(3) p(3) by auto
  then show ?case using hs(1) p(1) by (simp add: parse_sections_append)
qed

text \<open>The file at \<open>base\<close> has the sections \<open>ss\<close>, class \<open>cls\<close> and a table of section names.\<close>

definition elf_file_at :: "world \<Rightarrow> addr \<Rightarrow> u8 \<Rightarrow> elf_section list \<Rightarrow> bool" where
  "elf_file_at w base cls ss \<longleftrightarrow> ss \<noteq> [] \<and> ld8 w (base + 4) = Inr cls \<and>
     (\<exists>phoff shoff shnum ndx names. e_phoff w base = Inr phoff \<and> e_shoff w base = Inr shoff \<and>
        e_shnum w base = Inr shnum \<and> unat shnum = length ss \<and> e_shstrndx w base = Inr ndx \<and>
        sh_offset w (base + shoff + 64 * ucast ndx) = Inr names \<and>
        list_all2 (section_at w base (base + names)) (entries (base + shoff) 64 (length ss)) ss)"

text \<open>
  Claim C26. Parsing a well-formed file succeeds and leaves a parser that describes it: symbol tables and hash tables
  are those of the last section of their kind, \<open>dynstr\<close> is the first string table and \<open>strtab\<close> the last other one called
  \<open>.strtab\<close>, the bias is the distance between offset and address of the first \<open>PROGBITS\<close> section, and whatever has
  no section keeps the value it had before.
\<close>

theorem Parse_describes:
  assumes "elf_file_at w base cls ss"
  shows "\<exists>p. Parse w p0 base = Inr (True, p) \<and> file_described w base cls p0 ss p"
proof -
  obtain phoff shoff shnum ndx names where h: "e_phoff w base = Inr phoff" "e_shoff w base = Inr shoff"
      "e_shnum w base = Inr shnum" "e_shstrndx w base = Inr ndx" "sh_offset w (base + shoff + 64 * ucast ndx) = Inr names"
    and n: "unat shnum = length ss" and cls: "ld8 w (base + 4) = Inr cls"
    and at: "list_all2 (section_at w base (base + names)) (entries (base + shoff) 64 (length ss)) ss"
    and ne: "ss \<noteq> []"
    using assms by (auto simp: elf_file_at_def)
  let ?p = "p0\<lparr>ep_load_bias := INT_MAX, ep_ehdr := base, ep_phdr := base + phoff, ep_shdr := base + shoff,
      ep_shstrtab := base + names, ep_dynstr := 0\<rparr>"
  obtain p where p: "parse_sections w (entries (base + shoff) 64 (length ss)) ?p = Inr p"
    "file_described w base cls ?p ss p"
    using parse_sections_describes [of w base ?p "entries (base + shoff) 64 (length ss)" ss cls] at cls by auto
  have "file_described w base cls p0 ss p"
    using p(2) by (simp add: file_described_def tables_described_def hash_described_def gnu_described_def
        cong: option.case_cong)
  moreover have "shnum \<noteq> 0" using n ne by auto
  then have "Parse w p0 base = Inr (True, p)"
    using p(1) n by (simp add: Parse_def h Let_def)
  ultimately show ?thesis by blast
qed

end
