(* ===== verification/ElfImageLookup.thy ===== *)
theory ElfImageLookup
  imports ElfImageSpec
begin

text \<open>
  The lookups of the section-header parser: over well-formed tables \<open>FindSymbolOffset\<close> returns the value of a symbol of
  the name; but the Bloom filter test of \<open>GnuLookup\<close> loses half of the names, and members that no section sets are
  used although nothing has initialised them.
\<close>

section \<open>The System V lookup\<close>

text \<open>The dynamic tables as the record of \<^verbatim>\<open>xh_elf.c\<close> would hold them: both parsers then look names up alike.\<close>

definition dyn_view :: "elf_parser \<Rightarrow> xh_elf" where
  "dyn_view p = xh_elf_zero\<lparr>symtab := ep_dynsym p, strtab := ep_dynstr p, bucket := ep_bucket p,
     bucket_cnt := ep_nbucket p, chain := ep_chain p\<rparr>"

lemma dyn_view_sel [simp]:
  "symtab (dyn_view p) = ep_dynsym p" "strtab (dyn_view p) = ep_dynstr p" "bucket (dyn_view p) = ep_bucket p"
  "bucket_cnt (dyn_view p) = ep_nbucket p" "chain (dyn_view p) = ep_chain p"
  by (simp_all add: dyn_view_def)

definition symbol_ptr :: "elf_parser \<Rightarrow> int + u32 \<Rightarrow> addr option" where
  "symbol_ptr p r = (case r of Inl _ \<Rightarrow> None | Inr i \<Rightarrow> Some (ep_dynsym p + 24 * ucast i))"

lemma dyn_name_eq_view:
  "dyn_name_eq w p name (ep_dynsym p + 24 * ucast i) = seqE (symbol_name w (dyn_view p) i) (strcmp_eq w name)"
  by (cases "ld32 w (ep_dynsym p + 24 * ucast i)") (simp_all add: dyn_name_eq_def st_name_def symbol_name_def)

lemma elf_lookup_loop_eq:
  "elf_lookup_loop fuel w p name i =
     seqE (hash_lookup_loop fuel w (dyn_view p) name i) (\<lambda>r. Inr (symbol_ptr p r))"
proof (induction fuel arbitrary: i)
  case (Suc fuel)
  show ?case
  proof (cases "symbol_name w (dyn_view p) i")
    case (Inr q)
    then show ?thesis
      by (cases "strcmp_eq w name q"; cases "ld32 w (ep_chain p + 4 * ucast i)")
        (auto simp: dyn_name_eq_view chain_at_def symbol_ptr_def Suc.IH)
  qed (simp add: dyn_name_eq_view symbol_ptr_def)
qed simp

lemma ElfLookup_eq: "ElfLookup w p name = seqE (xh_elf_hash_lookup w (dyn_view p) name) (\<lambda>r. Inr (symbol_ptr p r))"
proof (cases "mod32 (xh_elf_hash name) (ep_nbucket p)")
  case (Inr b)
  then show ?thesis
    by (cases "ld32 w (ep_bucket p + 4 * ucast b)")
      (simp_all add: ElfLookup_def xh_elf_hash_lookup_def ElfHash_eq bucket_at_def elf_lookup_loop_eq)
qed (simp add: ElfLookup_def xh_elf_hash_lookup_def ElfHash_eq)

section \<open>The linear lookup\<close>

text \<open>The symbols of the table: whether it is a function or an object, its name, its value.\<close>

definition linear_ok :: "world \<Rightarrow> addr \<Rightarrow> addr \<Rightarrow> (bool \<times> string \<times> u64) list \<Rightarrow> bool" where
  "linear_ok w tab str lins \<longleftrightarrow> (\<forall>i<length lins. case lins ! i of (fo, name, v) \<Rightarrow>
     let s = tab + 24 * of_nat i in
     (\<exists>info n. st_info w s = Inr info \<and> (info AND 3 \<noteq> 0 \<longleftrightarrow> fo) \<and>
        st_name w s = Inr n \<and> cstr_at w (str + ucast n) name \<and> st_value w s = Inr v))"

definition sought :: "string \<Rightarrow> bool \<times> string \<times> u64 \<Rightarrow> bool" where
  "sought name s \<longleftrightarrow> (case s of (fo, n, v) \<Rightarrow> fo \<and> name = n)"

lemma LinearLookup_last:
  assumes "linear_ok w tab str lins" and "CHR 0x00 \<notin> set name" and "k \<le> length lins"
  shows "LinearLookup w name tab k str =
    Inr (map_option (\<lambda>i. tab + 24 * of_nat i) (find (\<lambda>i. sought name (lins ! i)) (rev [0..<k])))"
  using assms(3)
proof (induction k)
  case (Suc k)
  obtain fo n v where k: "lins ! k = (fo, n, v)" by (metis prod_cases3)
  then obtain info m where "st_info w (tab + 24 * of_nat k) = Inr info" "info AND 3 \<noteq> 0 \<longleftrightarrow> fo"
    "st_name w (tab + 24 * of_nat k) = Inr m" "cstr_at w (str + ucast m) n"
    using assms(1) [unfolded linear_ok_def, rule_format, of k] Suc.prems by (auto simp: Let_def)
  then show ?case
    using Suc strcmp_eq_cstr_at [OF _ assms(2)] by (auto simp: Let_def sought_def k)
qed simp

section \<open>The GNU lookup\<close>

text \<open>
  A GNU table that stays inside the symbol table: \<open>run w p i n\<close> says that the chain from \<open>i\<close> ends \<open>n\<close> symbols on.
\<close>

definition gnu_run :: "world \<Rightarrow> elf_parser \<Rightarrow> nat \<Rightarrow> nat \<Rightarrow> bool" where
  "gnu_run w p i n \<longleftrightarrow> (\<forall>k\<le>n. \<exists>c. ld32 w (ep_gnu_chain p + 4 * of_nat (i + k)) = Inr c \<and> (k = n \<longrightarrow> c AND 1 \<noteq> 0))"

definition gnu_bounded :: "world \<Rightarrow> elf_parser \<Rightarrow> nat \<Rightarrow> bool" where
  "gnu_bounded w p count \<longleftrightarrow> ep_gnu_shift2 p < 32 \<and>
     (\<forall>k. \<exists>v. ld32 w (ep_gnu_bloom_filter p + 4 * ucast (k AND ep_gnu_maskwords_bm p)) = Inr v) \<and>
     (\<forall>b<ep_gnu_nbucket p. \<exists>i. ld32 w (ep_gnu_bucket p + 4 * ucast b) = Inr i \<and>
        (i \<noteq> 0 \<longrightarrow> (\<exists>n. unat i + n < count \<and> gnu_run w p (unat i) n)))"

lemma gnu_run_tail: "gnu_run w p i (Suc n) \<Longrightarrow> gnu_run w p (Suc i) n"
proof -
  assume run: "gnu_run w p i (Suc n)"
  have "\<exists>c. ld32 w (ep_gnu_chain p + 4 * of_nat (Suc i + k)) = Inr c \<and> (k = n \<longrightarrow> c AND 1 \<noteq> 0)" if "k \<le> n" for k
    using run [unfolded gnu_run_def, rule_format, of "Suc k"] that by (simp del: of_nat_Suc)
  then show ?thesis by (simp add: gnu_run_def)
qed

text \<open>The names and the values of the dynamic symbols.\<close>

definition dyn_ok :: "world \<Rightarrow> elf_parser \<Rightarrow> (string \<times> u64) list \<Rightarrow> bool" where
  "dyn_ok w p dyns \<longleftrightarrow> names_ok w (dyn_view p) (map fst dyns) \<and>
     (\<forall>i<length dyns. st_value w (ep_dynsym p + 24 * of_nat i) = Inr (snd (dyns ! i)))"

lemma dyn_name_eq_index:
  assumes "dyn_ok w p dyns" "CHR 0x00 \<notin> set name" "i < length dyns"
  shows "dyn_name_eq w p name (ep_dynsym p + 24 * of_nat i) = Inr (name = fst (dyns ! i))"
proof -
  have names: "names_ok w (dyn_view p) (map fst dyns)" and i: "i < length (map fst dyns)"
    using assms by (simp_all add: dyn_ok_def)
  have "ucast (of_nat i :: u32) = (of_nat i :: u64)"
    using unat_index [OF names i] by (metis of_nat_unat)
  then show ?thesis
    using name_test [OF names i assms(2)] dyn_name_eq_view [of w p name "of_nat i"] assms(3)
    by (metis nth_map seqE_simps(2))
qed

text \<open>A symbol that a lookup by table may return: a dynamic symbol of that name, other than the first, which is null.\<close>

definition dyn_hit :: "elf_parser \<Rightarrow> (string \<times> u64) list \<Rightarrow> string \<Rightarrow> addr \<Rightarrow> bool" where
  "dyn_hit p dyns name s \<longleftrightarrow> (\<exists>i. 0 < i \<and> i < length dyns \<and> s = ep_dynsym p + 24 * of_nat i \<and> fst (dyns ! i) = name)"

lemma gnu_chain_sound:
  assumes "dyn_ok w p dyns" "CHR 0x00 \<notin> set name"
  shows "gnu_run w p i n \<Longrightarrow> i + n < length dyns \<Longrightarrow> 0 < i \<Longrightarrow> n < fuel \<Longrightarrow>
    \<exists>r. gnu_chain_loop fuel w p name h (of_nat i) = Inr r \<and> (\<forall>s. r = Some s \<longrightarrow> dyn_hit p dyns name s)"
proof (induction n arbitrary: i fuel)
  case 0
  then obtain c f where "fuel = Suc f" "ld32 w (ep_gnu_chain p + 4 * of_nat i) = Inr c" "c AND 1 \<noteq> 0"
    by (cases fuel) (auto simp: gnu_run_def)
  then show ?case
    using dyn_name_eq_index [OF assms, of i] 0 by (auto simp: Let_def dyn_hit_def)
next
  case (Suc n)
  then obtain c f where f: "fuel = Suc f" "n < f" and c: "ld32 w (ep_gnu_chain p + 4 * of_nat i) = Inr c"
    by (cases fuel) (auto simp: gnu_run_def)
  obtain r where r: "gnu_chain_loop f w p name h (of_nat (Suc i)) = Inr r" "\<forall>s. r = Some s \<longrightarrow> dyn_hit p dyns name s"
    using Suc.IH [OF gnu_run_tail [OF Suc.prems(1)]] Suc.prems f(2) by auto
  have "of_nat i + 1 = (of_nat (Suc i) :: u64)" by simp
  then show ?case
    using dyn_name_eq_index [OF assms, of i] Suc.prems r c f(1)
    by (auto simp: Let_def dyn_hit_def simp del: of_nat_Suc)
qed

lemma GnuLookup_sound:
  assumes ok: "dyn_ok w p dyns" "CHR 0x00 \<notin> set name" and b: "gnu_bounded w p (length dyns)" "ep_gnu_nbucket p \<noteq> 0"
  shows "\<exists>r. GnuLookup w p name = Inr r \<and> (\<forall>s. r = Some s \<longrightarrow> dyn_hit p dyns name s)"
proof -
  let ?h = "GnuHash name" let ?b = "?h mod ep_gnu_nbucket p"
  obtain v where v: "ld32 w (ep_gnu_bloom_filter p + 4 * ucast (?h div 64 AND ep_gnu_maskwords_bm p)) = Inr v"
    using b(1) unfolding gnu_bounded_def by blast
  obtain i where i: "ld32 w (ep_gnu_bucket p + 4 * ucast ?b) = Inr i"
    "i \<noteq> 0 \<longrightarrow> (\<exists>n. unat i + n < length dyns \<and> gnu_run w p (unat i) n)"
    using b(1) [unfolded gnu_bounded_def] mod_less_word [OF b(2), of ?h] by blast
  have len: "length dyns \<le> 2 ^ 32" using ok(1) by (simp add: dyn_ok_def names_ok_def)
  have "\<exists>r. (if i \<noteq> 0 then gnu_chain_loop wide_fuel w p name ?h (ucast i) else Inr None) = Inr r \<and>
      (\<forall>s. r = Some s \<longrightarrow> dyn_hit p dyns name s)"
  proof (cases "i = 0")
    case False
    then obtain n where n: "unat i + n < length dyns" "gnu_run w p (unat i) n" using i(2) by blast
    have "0 < unat i" using False by (simp add: unat_gt_0)
    moreover have "n < wide_fuel" using n(1) len by (simp add: wide_fuel_def)
    ultimately show ?thesis using gnu_chain_sound [OF ok n(2,1)] False by simp
  qed simp
  moreover have "\<not> 32 \<le> ep_gnu_shift2 p" using b(1) by (simp add: gnu_bounded_def not_le)
  ultimately show ?thesis
    using v i(1) b(2) by (auto simp: GnuLookup_def Let_def mod32_def)
qed

section \<open>Looking up an offset\<close>

text \<open>
  Tables for the dynamic symbols \<open>dyns\<close> and the symbols \<open>lins\<close> of \<open>.symtab\<close>: a System V table is there, a GNU table
  stays in bounds, and without \<open>.symtab\<close> its pointer is null.
\<close>

definition image_ok :: "world \<Rightarrow> elf_parser \<Rightarrow> (string \<times> u64) list \<Rightarrow> (bool \<times> string \<times> u64) list \<Rightarrow> bool" where
  "image_ok w p dyns lins \<longleftrightarrow> sysv_ok w (dyn_view p) (map fst dyns) \<and> dyn_ok w p dyns \<and>
     (ep_gnu_nbucket p \<noteq> 0 \<longrightarrow> gnu_bounded w p (length dyns)) \<and>
     (if ep_symtab p = 0 then lins = []
      else linear_ok w (ep_symtab p) (ep_strtab p) lins \<and> unat (ep_symcnt p) = length lins)"

lemma ElfLookup_finds:
  assumes "image_ok w p dyns lins" and "CHR 0x00 \<notin> set name"
  shows "\<exists>r. ElfLookup w p name = Inr r \<and> (\<forall>s. r = Some s \<longrightarrow> dyn_hit p dyns name s) \<and>
    (r = None \<longrightarrow> (\<forall>s. \<not> dyn_hit p dyns name s))"
proof -
  have sysv: "sysv_ok w (dyn_view p) (map fst dyns)" using assms(1) by (simp add: image_ok_def)
  obtain r where r: "xh_elf_hash_lookup w (dyn_view p) name = Inr r"
    "finds (map fst dyns) {0<..<length dyns} name r"
    using hash_lookup_finds [OF sysv assms(2)] by auto
  have wide: "ucast i = (of_nat (unat i) :: u64)" for i :: u32 by simp
  show ?thesis
  proof (cases r)
    case (Inl e)
    then show ?thesis using r by (auto simp: ElfLookup_eq finds_def symbol_ptr_def dyn_hit_def)
  next
    case (Inr i)
    then have "dyn_hit p dyns name (ep_dynsym p + 24 * ucast i)"
      using r(2) wide [of i] by (fastforce simp: finds_def dyn_hit_def)
    then show ?thesis using r(1) Inr by (simp add: ElfLookup_eq symbol_ptr_def)
  qed
qed

text \<open>The values of the symbols of a name that the parser may find; the last function or object of \<open>.symtab\<close>.\<close>

definition dyn_values :: "(string \<times> u64) list \<Rightarrow> string \<Rightarrow> u64 set" where
  "dyn_values dyns name = {v. (name, v) \<in> set (tl dyns)}"

definition linear_value :: "(bool \<times> string \<times> u64) list \<Rightarrow> string \<Rightarrow> u64 option" where
  "linear_value lins name = map_option (snd \<circ> snd) (find (sought name) (rev lins))"

lemma dyn_hit_value:
  assumes "dyn_ok w p dyns" "dyn_hit p dyns name s"
  shows "\<exists>v\<in>dyn_values dyns name. st_value w s = Inr v"
proof -
  obtain i where i: "0 < i" "i < length dyns" "s = ep_dynsym p + 24 * of_nat i" "fst (dyns ! i) = name"
    using assms(2) by (auto simp: dyn_hit_def)
  then have "(name, snd (dyns ! i)) \<in> set (tl dyns)"
    by (metis One_nat_def Suc_pred length_tl less_diff_conv nth_mem nth_tl plus_1_eq_Suc prod.collapse add.commute)
  then show ?thesis using assms(1) i by (auto simp: dyn_ok_def dyn_values_def)
qed

lemma dyn_values_hit:
  assumes "v \<in> dyn_values dyns name"
  shows "\<exists>s. dyn_hit p dyns name s"
proof -
  obtain i where "i < length (tl dyns)" "tl dyns ! i = (name, v)"
    using assms by (auto simp: dyn_values_def in_set_conv_nth)
  then have "dyn_hit p dyns name (ep_dynsym p + 24 * of_nat (Suc i))"
    unfolding dyn_hit_def by (intro exI [of _ "Suc i"]) (simp add: nth_tl)
  then show ?thesis by blast
qed

lemma find_rev_upt: "find (\<lambda>i. P (xs ! i)) (rev [0..<length xs]) = None \<and> find P (rev xs) = None \<or>
    (\<exists>i<length xs. find (\<lambda>i. P (xs ! i)) (rev [0..<length xs]) = Some i \<and> find P (rev xs) = Some (xs ! i))"
proof -
  have "map ((!) xs) (rev [0..<length xs]) = rev xs" by (simp add: rev_map [symmetric] map_nth)
  moreover have "find P (map f ks) = map_option f (find (\<lambda>i. P (f i)) ks)" for f :: "nat \<Rightarrow> 'a" and ks
    by (induction ks) auto
  ultimately have eq: "find P (rev xs) = map_option ((!) xs) (find (\<lambda>i. P (xs ! i)) (rev [0..<length xs]))" by metis
  show ?thesis
  proof (cases "find (\<lambda>i. P (xs ! i)) (rev [0..<length xs])")
    case (Some i)
    then have "i \<in> set (rev [0..<length xs])" by (metis find_Some_iff nth_mem)
    with Some eq show ?thesis by simp
  qed (use eq in simp)
qed

lemma LinearLookup_value:
  assumes "linear_ok w tab str lins" and "CHR 0x00 \<notin> set name"
  shows "(LinearLookup w name tab (length lins) str = Inr None \<and> linear_value lins name = None) \<or>
    (\<exists>s v. LinearLookup w name tab (length lins) str = Inr (Some s) \<and> linear_value lins name = Some v \<and> st_value w s = Inr v)"
  using find_rev_upt [of "sought name" lins]
proof (elim disjE exE conjE)
  fix i assume i: "i < length lins" "find (\<lambda>i. sought name (lins ! i)) (rev [0..<length lins]) = Some i"
    "find (sought name) (rev lins) = Some (lins ! i)"
  then have "st_value w (tab + 24 * of_nat i) = Inr (snd (snd (lins ! i)))"
    using assms(1) [unfolded linear_ok_def, rule_format, of i] by (auto simp: Let_def split: prod.splits)
  then show ?thesis using i LinearLookup_last [OF assms, of "length lins"] by (simp add: linear_value_def)
qed (use LinearLookup_last [OF assms, of "length lins"] in \<open>simp add: linear_value_def\<close>)

lemma FindSymbolOffset_finds:
  assumes "image_ok w p dyns lins" and "CHR 0x00 \<notin> set name"
  shows "if dyn_values dyns name \<noteq> {} then \<exists>v\<in>dyn_values dyns name. FindSymbolOffset w p name = Inr (v + ep_load_bias p)
    else FindSymbolOffset w p name =
      Inr (case linear_value lins name of None \<Rightarrow> 0 | Some v \<Rightarrow> v + ep_load_bias p)"
proof -
  have dyn: "dyn_ok w p dyns" and nb: "ep_nbucket p \<noteq> 0"
    using assms(1) by (auto simp: image_ok_def sysv_ok_def)
  obtain g where g: "(if 0 < ep_gnu_nbucket p then GnuLookup w p name else Inr None) = Inr g"
    "\<forall>s. g = Some s \<longrightarrow> dyn_hit p dyns name s"
    using GnuLookup_sound [OF dyn assms(2)] assms(1) by (cases "ep_gnu_nbucket p = 0") (auto simp: image_ok_def word_gt_0)
  obtain e where e: "ElfLookup w p name = Inr e" "\<forall>s. e = Some s \<longrightarrow> dyn_hit p dyns name s"
    "e = None \<longrightarrow> (\<forall>s. \<not> dyn_hit p dyns name s)"
    using ElfLookup_finds [OF assms] by blast
  define f where "f = (if g = None then e else g)"
  have f: "\<forall>s. f = Some s \<longrightarrow> dyn_hit p dyns name s" "f = None \<longrightarrow> (\<forall>s. \<not> dyn_hit p dyns name s)"
    using g(2) e by (auto simp: f_def)
  have found: "FindSymbolOffset w p name =
     seqE (if f = None \<and> ep_symtab p \<noteq> 0
           then LinearLookup w name (ep_symtab p) (unat (ep_symcnt p)) (ep_strtab p) else Inr f) (\<lambda>found.
     case found of None \<Rightarrow> Inr 0 | Some s \<Rightarrow> seqE (st_value w s) (\<lambda>v. Inr (v + ep_load_bias p)))"
    unfolding FindSymbolOffset_def g(1) using nb by (cases g) (simp_all add: e(1) f_def word_gt_0)
  show ?thesis
  proof (cases f)
    case None
    then have none: "dyn_values dyns name = {}" using f(2) dyn_values_hit [of _ dyns name p] by blast
    show ?thesis
    proof (cases "ep_symtab p = 0")
      case True
      then show ?thesis using assms(1) None none by (simp add: found image_ok_def linear_value_def)
    next
      case False
      then show ?thesis
        using LinearLookup_value [OF _ assms(2), of w "ep_symtab p" "ep_strtab p" lins] assms(1) None none
        by (auto simp: found image_ok_def)
    qed
  next
    case (Some s)
    then show ?thesis using f(1) dyn_hit_value [OF dyn] by (fastforce simp: found)
  qed
qed

text \<open>
  Claim C25. Over well-formed tables \<open>FindSymbolOffset\<close> never faults and always ends: for a dynamic symbol it returns
  the value of one of that name plus the bias, even when the GNU table misses it; otherwise the value plus the bias of
  the last function or object of that name in \<open>.symtab\<close>; and 0 when neither table has the name.
\<close>

theorem FindSymbolOffset_correct:
  assumes "image_ok w p dyns lins" and "CHR 0x00 \<notin> set name"
  shows "if dyn_values dyns name \<noteq> {} then \<exists>v\<in>dyn_values dyns name. FindSymbolOffset w p name = Inr (v + ep_load_bias p)
    else FindSymbolOffset w p name =
      Inr (case linear_value lins name of None \<Rightarrow> 0 | Some v \<Rightarrow> v + ep_load_bias p)"
  by (rule FindSymbolOffset_finds [OF assms])

text \<open>
  Claim C37. The Bloom filter of the GNU table has 64-bit words, but the parser reads 32-bit ones: a name whose hash is 32 or
  more modulo 64 is never found through the GNU table, whatever the file holds.
\<close>

theorem GnuLookup_misses:
  assumes "32 \<le> GnuHash name mod 64"
  shows "GnuLookup w p name \<noteq> Inr (Some s)"
proof -
  have "drop_bit (unat (GnuHash name mod 64)) (ucast (v :: u32) :: u64) = 0" for v
  proof (rule bit_eqI)
    fix n
    have "32 \<le> unat (GnuHash name mod 64)" using assms by (simp add: word_le_nat_alt)
    then show "bit (drop_bit (unat (GnuHash name mod 64)) (ucast v :: u64)) n = bit (0 :: u64) n"
      by (auto simp: bit_simps dest: bit_imp_le_length)
  qed
  then show ?thesis
    by (auto simp: GnuLookup_def Let_def seqE_Inr_iff)
qed

end
