(* ===== verification/ElfTool.thy ===== *)
theory ElfTool
  imports ProcessMap ElfImageLookup
begin

text \<open>
  Opening a library file and looking symbols up in the process: \<open>ElfReader\<close> and \<open>ElfImage\<close> of
  \<^verbatim>\<open>src/cpp/elf/elf_image.h\<close>, \<open>DlOpen\<close> and \<open>DlSym\<close> of \<^verbatim>\<open>src/cpp/elf/elf_tool.cpp\<close>. What the C library and the kernel do is
  a parameter.
\<close>

section \<open>Files\<close>

text \<open>
  \<open>fopen\<close> and \<open>fileno\<close> (the stream is its number), \<open>fstat\<close> (the size), \<open>mmap\<close> of a file, \<open>munmap\<close>, \<open>read\<close> into memory,
  and the text of \<^verbatim>\<open>/proc/self/maps\<close>. \<open>None\<close> is failure.
\<close>

record file_os =
  os_maps :: "world \<Rightarrow> string option"
  os_fopen :: "string \<Rightarrow> nat option"
  os_fstat :: "nat \<Rightarrow> u64 option"
  os_mmap :: "world \<Rightarrow> u64 \<Rightarrow> nat \<Rightarrow> addr option \<times> world"
  os_munmap :: "world \<Rightarrow> addr \<Rightarrow> u64 \<Rightarrow> world"
  os_read :: "world \<Rightarrow> nat \<Rightarrow> addr \<Rightarrow> u64 \<Rightarrow> world"

record process =
  image_of :: world
  open_files :: "nat list"

definition MAP_FAILED :: addr where "MAP_FAILED = - 1"

section \<open>ElfReader\<close>

record elf_reader =
  er_base :: addr
  er_len :: u64
  er_fp :: "nat option"
  er_parser :: elf_parser

definition ElfReader :: "elf_parser \<Rightarrow> elf_reader" where
  "ElfReader raw = \<lparr>er_base = 0, er_len = 0, er_fp = None, er_parser = ElfParser raw\<rparr>"

definition ElfReader_Open :: "file_os \<Rightarrow> string \<Rightarrow> elf_reader \<Rightarrow> process \<Rightarrow> bool \<times> elf_reader \<times> process" where
  "ElfReader_Open os path r s =
     (case os_fopen os path of None \<Rightarrow> (False, r, s)
      | Some f \<Rightarrow>
        let s = s\<lparr>open_files := f # open_files s\<rparr> in
        case os_fstat os f of None \<Rightarrow> (False, r, s)
        | Some st_size \<Rightarrow>
          let r = r\<lparr>er_len := st_size\<rparr>; (b, w) = os_mmap os (image_of s) (er_len r) f;
              s = s\<lparr>image_of := w\<rparr>
          in case b of None \<Rightarrow> (False, r\<lparr>er_base := MAP_FAILED\<rparr>, s)
             | Some b \<Rightarrow> (True, r\<lparr>er_base := b\<rparr>, s\<lparr>image_of := os_read os w f b (er_len r)\<rparr>))"

definition ElfReader_delete :: "file_os \<Rightarrow> elf_reader \<Rightarrow> process \<Rightarrow> process" where
  "ElfReader_delete os r s =
     (let s = (case er_fp r of None \<Rightarrow> s | Some f \<Rightarrow> s\<lparr>open_files := remove1 f (open_files s)\<rparr>)
      in if er_base r \<noteq> 0 \<and> er_base r \<noteq> MAP_FAILED
         then s\<lparr>image_of := os_munmap os (image_of s) (er_base r) (er_len r)\<rparr> else s)"

section \<open>ElfImage\<close>

record elf_image =
  ei_reader :: elf_reader
  ei_base :: addr

definition ElfImage :: "elf_parser \<Rightarrow> elf_image" where
  "ElfImage raw = \<lparr>ei_reader = ElfReader raw, ei_base = 0\<rparr>"

definition ElfImage_Open ::
    "file_os \<Rightarrow> string \<Rightarrow> addr \<Rightarrow> elf_image \<Rightarrow> process \<Rightarrow> (bool \<times> elf_image \<times> process) res" where
  "ElfImage_Open os path base img s =
     (let img = img\<lparr>ei_base := base\<rparr>; (ok, r, s) = ElfReader_Open os path (ei_reader img) s;
          img = img\<lparr>ei_reader := r\<rparr>
      in if \<not> ok then Inr (False, img, s)
         else seqE (Parse (image_of s) (er_parser r) (er_base r)) (\<lambda>(ok, p).
           Inr (ok, img\<lparr>ei_reader := r\<lparr>er_parser := p\<rparr>\<rparr>, s)))"

definition FindSymbol :: "world \<Rightarrow> elf_image \<Rightarrow> string \<Rightarrow> addr res" where
  "FindSymbol w img name =
     seqE (FindSymbolOffset w (er_parser (ei_reader img)) name) (\<lambda>offset.
     Inr (if offset > 0 then ei_base img + offset else 0))"

section \<open>DlOpen and DlSym\<close>

text \<open>
  A handle is the image, \<open>None\<close> for the null pointer. \<open>raw\<close> and \<open>junk\<close> are the contents of the memory that \<open>new\<close> returns and
  of the variables that the search leaves uninitialised.
\<close>

definition DlOpen ::
    "file_os \<Rightarrow> elf_parser \<Rightarrow> u64 \<times> u64 \<Rightarrow> string \<Rightarrow> process \<Rightarrow> (elf_image option \<times> process) res" where
  "DlOpen os raw junk name s =
     seqE (FindExecuteMemoryRange (fst junk) (snd junk) (os_maps os (image_of s)) name) (\<lambda>range.
     if \<not> IsValid range then Inr (None, s)
     else case mr_path range of None \<Rightarrow> Inl Undef | Some path \<Rightarrow>
       seqE (ElfImage_Open os path (mr_base range) (ElfImage raw) s) (\<lambda>(ok, img, s).
       if \<not> ok then Inr (None, ElfReader_delete os (ei_reader img) s) else Inr (Some img, s)))"

definition DlSym :: "world \<Rightarrow> elf_image option \<Rightarrow> string \<Rightarrow> addr res" where
  "DlSym w handle name = (case handle of None \<Rightarrow> Inl Undef | Some img \<Rightarrow> FindSymbol w img name)"

section \<open>What they promise\<close>

text \<open>Mappings whose names have no white space in them, as the files of the system have.\<close>

definition named_maps :: "vma list \<Rightarrow> bool" where
  "named_maps vs \<longleftrightarrow> maps_ok vs \<and> (\<forall>v\<in>set vs. v_name v \<noteq> [] \<and> (\<forall>c\<in>set (v_name v). \<not> isspace c))"

definition code_of :: "string \<Rightarrow> vma \<Rightarrow> bool" where
  "code_of name v \<longleftrightarrow> take 18 (v_name v) \<noteq> ''/system/fake-libs/'' \<and> strstr (v_name v) name \<and>
     strstr (v_perm v) ''x'' \<and> strstr (v_perm v) ''r''"

lemma find_execute:
  assumes "named_maps vs"
  shows "FindExecuteMemoryRange b e (Some (concat (map vma_line vs))) name =
    Inr (case find (code_of name) vs of None \<Rightarrow> MemoryRange
      | Some v \<Rightarrow> \<lparr>mr_path = Some (v_name v), mr_base = v_start v, mr_end = v_end v\<rparr>)"
proof -
  have "find (execute_hit name) (map seen_as_is vs) = map_option seen_as_is (find (code_of name) vs)"
    by (induction vs) (auto simp: execute_hit_def code_of_def seen_as_is_def)
  then show ?thesis
    using assms sightings_named [of vs]
    by (auto simp: named_maps_def FindExecuteMemoryRange_def ForeachMemoryRange_visit visit_execute seen_as_is_def
        MemoryRange_def split: option.split)
qed

text \<open>
  When every mapping has a name, the search for the code of a library finds the first readable and executable
  mapping whose name contains the name sought, outside \<^verbatim>\<open>/system/fake-libs/\<close>, with its exact bounds; the
  range it returns is valid if and only if there is such a mapping and it is not empty.
\<close>

theorem FindExecuteMemoryRange_correct:
  assumes "named_maps vs"
  shows "\<exists>r. FindExecuteMemoryRange b e (Some (concat (map vma_line vs))) name = Inr r \<and>
    r = (case find (code_of name) vs of None \<Rightarrow> MemoryRange
      | Some v \<Rightarrow> \<lparr>mr_path = Some (v_name v), mr_base = v_start v, mr_end = v_end v\<rparr>) \<and>
    (IsValid r \<longleftrightarrow> (\<exists>v. find (code_of name) vs = Some v \<and> v_start v < v_end v))"
  using find_execute [OF assms] by (auto simp: IsValid_def MemoryRange_def split: option.split)

text \<open>The position in its file of the byte that the mapping has at an address.\<close>

definition file_pos :: "vma \<Rightarrow> addr \<Rightarrow> u64" where
  "file_pos v a = v_offset v + (a - v_start v)"

lemma ElfReader_Open_works:
  assumes "os_fopen os path = Some f" "os_fstat os f = Some n" "os_mmap os (image_of s) n f = (Some b, w)"
  shows "ElfReader_Open os path r s =
    (True, r\<lparr>er_len := n, er_base := b\<rparr>, \<lparr>image_of = os_read os w f b n, open_files = f # open_files s\<rparr>)"
  using assms by (simp add: ElfReader_Open_def)

text \<open>
  Claim C24. With the library mapped, its file readable and its tables well-formed, \<open>DlOpen\<close> returns a handle, and \<open>DlSym\<close> of a
  dynamic symbol returns the start of the code mapping plus the value and the bias of a symbol of that name. That is the
  address of the symbol if and only if the code mapping starts at offset 0 of the file.
\<close>

theorem DlSym_correct:
  assumes maps: "named_maps vs" "os_maps os (image_of s) = Some (concat (map vma_line vs))"
    and v: "find (code_of lib) vs = Some v" "v_start v < v_end v"
    and opened: "os_fopen os (v_name v) = Some f" "os_fstat os f = Some n" "os_mmap os (image_of s) n f = (Some b, w)"
    and parsed: "Parse (os_read os w f b n) (ElfParser raw) b = Inr (True, p)"
    and tables: "image_ok (os_read os w f b n) p dyns lins"
    and name: "CHR 0x00 \<notin> set name" "dyn_values dyns name \<noteq> {}"
  shows "\<exists>img s' x. DlOpen os raw junk lib s = Inr (Some img, s') \<and> x \<in> dyn_values dyns name \<and>
    (let a = v_start v + (x + ep_load_bias p) in
     DlSym (image_of s') (Some img) name = Inr (if x + ep_load_bias p = 0 then 0 else a) \<and>
     (file_pos v a = x + ep_load_bias p \<longleftrightarrow> v_offset v = 0))"
proof -
  let ?w = "os_read os w f b n"
  let ?s = "\<lparr>image_of = ?w, open_files = f # open_files s\<rparr>"
  let ?img = "\<lparr>ei_reader = \<lparr>er_base = b, er_len = n, er_fp = None, er_parser = p\<rparr>, ei_base = v_start v\<rparr>"
  have open_ok: "ElfImage_Open os (v_name v) (v_start v) (ElfImage raw) s = Inr (True, ?img, ?s)"
    by (simp add: ElfImage_Open_def ElfReader_Open_works [OF opened] ElfImage_def ElfReader_def parsed Let_def)
  have "DlOpen os raw junk lib s = Inr (Some ?img, ?s)"
    using v(2) by (simp add: DlOpen_def maps(2) find_execute [OF maps(1)] v(1) IsValid_def open_ok)
  moreover obtain x where x: "x \<in> dyn_values dyns name" "FindSymbolOffset ?w p name = Inr (x + ep_load_bias p)"
    using FindSymbolOffset_finds [OF tables name(1)] name(2) by auto
  moreover have "DlSym ?w (Some ?img) name = Inr (if x + ep_load_bias p = 0 then 0 else v_start v + (x + ep_load_bias p))"
    by (simp add: DlSym_def FindSymbol_def x(2) word_gt_0)
  ultimately show ?thesis by (auto simp: Let_def file_pos_def)
qed

text \<open>
  \<open>ElfReader::Open\<close> opens a stream that nothing ever closes, since it does not store it in \<open>fp_\<close>: whether opening
  the image succeeds or not, after the image is deleted the stream is still open.
\<close>

theorem ElfImage_leaks_stream:
  assumes "os_fopen os path = Some f" and "ElfImage_Open os path base (ElfImage raw) s = Inr (ok, img, s')"
  shows "open_files (ElfReader_delete os (ei_reader img) s') = f # open_files s"
  using assms
  by (auto simp: ElfImage_Open_def ElfImage_def ElfReader_def ElfReader_Open_def ElfReader_delete_def Let_def
      split: option.splits prod.splits if_splits)

end
