(* ===== verification/ArtState.thy ===== *)
theory ArtState
  imports CxxHelper ElfTool
begin

text \<open>
  The state of the ART part of the library, over all its files, and what it calls: the runtime behind the function pointers,
  the JNI and the C library are parameters. Runs over it read and write the memory of the process, and open libraries.
\<close>

section \<open>API levels\<close>

definition ANDROID_LOLLIPOP :: int where "ANDROID_LOLLIPOP = 21"
definition ANDROID_M :: int where "ANDROID_M = 23"
definition ANDROID_N :: int where "ANDROID_N = 24"
definition ANDROID_O :: int where "ANDROID_O = 26"
definition ANDROID_O_MR1 :: int where "ANDROID_O_MR1 = 27"
definition ANDROID_P :: int where "ANDROID_P = 28"

lemmas android_defs = ANDROID_LOLLIPOP_def ANDROID_M_def ANDROID_N_def ANDROID_O_def ANDROID_O_MR1_def ANDROID_P_def

section \<open>Access flags\<close>

definition kAccPublic :: u32 where "kAccPublic = 0x1"
definition kAccPrivate :: u32 where "kAccPrivate = 0x2"
definition kAccProtected :: u32 where "kAccProtected = 0x4"
definition kAccStatic :: u32 where "kAccStatic = 0x8"
definition kAccSynchronized :: u32 where "kAccSynchronized = 0x20"
definition kAccNative :: u32 where "kAccNative = 0x100"
definition kAccAbstract :: u32 where "kAccAbstract = 0x400"
definition kAccConstructor :: u32 where "kAccConstructor = 0x10000"
definition kAccFastNative :: u32 where "kAccFastNative = 0x80000"
definition kAccSkipAccessChecks :: u32 where "kAccSkipAccessChecks = 0x80000"
definition kAccCriticalNative_P :: u32 where "kAccCriticalNative_P = 0x200000"
definition kAccCompileDontBother_N :: u32 where "kAccCompileDontBother_N = 0x1000000"
definition kAccCompileDontBother_O_MR1 :: u32 where "kAccCompileDontBother_O_MR1 = 0x2000000"
definition kAccPreviouslyWarm_O_MR1 :: u32 where "kAccPreviouslyWarm_O_MR1 = 0x800000"
definition kAccDirectFlags :: u32 where "kAccDirectFlags = kAccStatic OR kAccPrivate OR kAccConstructor"

lemmas acc_defs =
  kAccPublic_def kAccPrivate_def kAccProtected_def kAccStatic_def kAccSynchronized_def kAccNative_def
  kAccAbstract_def kAccConstructor_def kAccFastNative_def kAccSkipAccessChecks_def
  kAccCriticalNative_P_def kAccCompileDontBother_N_def kAccCompileDontBother_O_MR1_def
  kAccPreviouslyWarm_O_MR1_def kAccDirectFlags_def

section \<open>State\<close>

text \<open>\<open>ArtSymbolList\<close>, \<open>ArtBridgeList\<close> and \<open>RuntimeObject\<close>; a null pointer is 0.\<close>

record art_symbols =
  suspend_vm :: addr
  resume_vm :: addr
  force_process_profiles :: addr
  method_copy_from :: addr
  object_clone :: addr
  object_clone_with_class :: addr
  object_clone_with_size :: addr

record art_bridges =
  interpreter_to_compiled_code :: addr
  quick_to_jni_bridge :: addr
  quick_to_interpreter :: addr

record runtime_object =
  ro_vm :: addr
  ro_runtime :: addr
  ro_heap :: addr
  ro_thread_list :: addr
  ro_class_linker :: addr
  ro_intern_table :: addr

text \<open>\<open>ArtMethodSummary\<close>, \<open>ArtMethodOffsets\<close> and \<open>ArtMethodKey\<close>.\<close>

record art_summary =
  sum_method_size :: u64
  sum_access_flags_offset :: u64
  sum_entrypoint_filed_size :: u64
  sum_jni_code_offset :: u64

record art_offsets =
  method_size_ofs :: u64
  jni_code_ofs :: u64
  quick_code_ofs :: u64
  access_flags_ofs :: u64
  dex_code_item_ofs :: u64
  dex_method_index_ofs :: u64
  method_index_ofs :: u64
  interpreter_code_ofs :: u64
  hotness_count_ofs :: u64

record art_key =
  key_decl_class :: addr
  key_access_flags :: u32
  key_dex_code_item_offset :: u32
  key_quick_code :: addr
  key_interpreter_code :: addr
  key_jni_code :: addr
  key_original_method :: addr

text \<open>
  The static variables. \<open>hooked_method_map\<close> holds the keys themselves, which nothing shares; \<open>vm_calls\<close> is the history of
  calls of runtime functions that take no argument. \<open>app_method\<close> is the \<open>method\<close> of \<^verbatim>\<open>app_on_create.cpp\<close>, and
  \<open>get_jnienv_symbol\<close> the variable of \<^verbatim>\<open>jni_helper.cpp\<close>.
\<close>

record art =
  proc :: process
  symbol_inited :: bool
  symbol_list :: art_symbols
  bridge_inited :: bool
  bridge_list :: art_bridges
  runtime_obj :: runtime_object
  api_level :: int
  art_prepared :: bool
  method_offset :: art_offsets
  hooked_method_map :: "addr \<Rightarrow> art_key option"
  vm_calls :: "addr list"
  app_method :: addr
  get_jnienv_symbol :: addr

text \<open>
  What the code calls: the C library for files, the contents of fresh objects and uninitialised variables, the property
  \<^verbatim>\<open>ro.build.version.sdk\<close>, the JNI, \<open>malloc\<close>, and the functions of the runtime by their address. \<open>call_jnienv\<close> is what
  \<open>AndroidRuntime::getJNIEnv\<close> at an address returns, null included. The JNI behind an environment: \<open>java_vm\<close> is what the
  variable \<open>vm\<close> holds after \<open>GetJavaVM(&vm)\<close>, whose result is not tested (anything when the call fails), \<open>jni_method\<close> the method ids,
  \<open>native_peer\<close> the field of the current thread object, \<open>None\<close> when the lookup of the field raises an exception, and \<open>tls\<close> the thread-local storage.
\<close>

record art_env =
  art_os :: file_os
  fresh_parser :: "process \<Rightarrow> elf_parser"
  junk_range :: "process \<Rightarrow> u64 \<times> u64"
  sdk_int :: int
  java_vm :: addr
  jni_method :: "string \<Rightarrow> string \<Rightarrow> addr"
  call_jnienv :: "addr \<Rightarrow> addr"
  native_peer :: "addr option"
  tls :: addr
  art_malloc :: "world \<Rightarrow> u64 \<Rightarrow> addr \<times> world"
  call_void :: "addr \<Rightarrow> world \<Rightarrow> world"
  call_copy_from :: "addr \<Rightarrow> addr \<Rightarrow> addr \<Rightarrow> u64 \<Rightarrow> world \<Rightarrow> world"
  call_clone :: "addr \<Rightarrow> addr list \<Rightarrow> world \<Rightarrow> addr \<times> world"

type_synonym 'a art_eff = "(art, 'a) eff"

definition mem :: "art \<Rightarrow> world" where "mem s = image_of (proc s)"
definition set_mem :: "world \<Rightarrow> art \<Rightarrow> art" where "set_mem w s = s\<lparr>proc := (proc s)\<lparr>image_of := w\<rparr>\<rparr>"

definition loadE :: "(world \<Rightarrow> 'a res) \<Rightarrow> 'a art_eff" where
  "loadE f = readE (\<lambda>s. f (mem s))"

definition writeE :: "(world \<Rightarrow> world res) \<Rightarrow> unit art_eff" where
  "writeE f = storeE (\<lambda>s. seqE (f (mem s)) (\<lambda>w. Inr (set_mem w s)))"

definition getE :: "(art \<Rightarrow> 'a) \<Rightarrow> 'a art_eff" where
  "getE f = readE (\<lambda>s. Inr (f s))"

definition modE :: "(art \<Rightarrow> art) \<Rightarrow> unit art_eff" where
  "modE f = sysE (\<lambda>s. ((), f s))"

definition vmcallE :: "art_env \<Rightarrow> addr \<Rightarrow> unit art_eff" where
  "vmcallE env f = modE (\<lambda>s. (set_mem (call_void env f (mem s)) s)\<lparr>vm_calls := vm_calls s @ [f]\<rparr>)"

definition dlopenE :: "art_env \<Rightarrow> string \<Rightarrow> elf_image option art_eff" where
  "dlopenE env name s =
     (case DlOpen (art_os env) (fresh_parser env (proc s)) (junk_range env (proc s)) name (proc s) of
        Inl t \<Rightarrow> (Inl t, s) | Inr (h, p) \<Rightarrow> (Inr h, s\<lparr>proc := p\<rparr>))"

definition dlsymE :: "elf_image option \<Rightarrow> string \<Rightarrow> addr art_eff" where
  "dlsymE h name = loadE (\<lambda>w. DlSym w h name)"

end
