(* ===== verification/JniEnv.thy ===== *)
theory JniEnv
  imports ArtState
begin

text \<open>
  \<^verbatim>\<open>src/cpp/base/jni_helper.cpp\<close> and \<open>GetCurrentThread\<close> of \<^verbatim>\<open>src/cpp/art/thread.cpp\<close>: how the code gets at the JNI
  environment and at the thread object of the runtime.
\<close>

section \<open>The environment\<close>

abbreviation jnienv_name :: string where
  "jnienv_name \<equiv> ''_ZN7android14AndroidRuntime9getJNIEnvEv''"

text \<open>The function is looked up in \<^verbatim>\<open>libandroid_runtime.so\<close> until it has been found; the handle is not tested.\<close>

definition GetJniEnv :: "art_env \<Rightarrow> addr art_eff" where
  "GetJniEnv env =
     bindE (getE get_jnienv_symbol) (\<lambda>symbol.
     bindE (if symbol = 0 then
         bindE (dlopenE env ''libandroid_runtime.so'') (\<lambda>libandroid_runtime.
         bindE (dlsymE libandroid_runtime jnienv_name) (\<lambda>symbol.
         modE (\<lambda>s. s\<lparr>get_jnienv_symbol := symbol\<rparr>)))
       else retE ()) (\<lambda>_.
     bindE (getE get_jnienv_symbol) (\<lambda>symbol.
     if symbol \<noteq> 0 then retE (call_jnienv env symbol) else retE 0)))"

text \<open>A call through an environment reads its table of functions: a null environment faults.\<close>

definition through_env :: "addr \<Rightarrow> unit art_eff" where
  "through_env jni = (if jni = 0 then readE (\<lambda>_. Inl Segv) else retE ())"

text \<open>Whether an exception was pending, and whether one is afterwards.\<close>

definition JNIExceptionClear :: "bool \<Rightarrow> bool \<times> bool" where
  "JNIExceptionClear pending = (if pending then (True, False) else (False, pending))"

section \<open>The current thread\<close>

text \<open>The native peer of the thread object, or, after an exception, slot 7 of the thread-local storage.\<close>

definition GetCurrentThread :: "art_env \<Rightarrow> addr art_eff" where
  "GetCurrentThread env =
     bindE (GetJniEnv env) (\<lambda>jni.
     bindE (through_env jni) (\<lambda>_.
     if \<not> fst (JNIExceptionClear (native_peer env = None)) then retE (the (native_peer env))
     else loadE (\<lambda>w. ld64 w (tls env + 8 * 7))))"

section \<open>What they do\<close>

lemma GetJniEnv_cached:
  "get_jnienv_symbol s \<noteq> 0 \<Longrightarrow> GetJniEnv env s = (Inr (call_jnienv env (get_jnienv_symbol s)), s)"
  by (simp add: GetJniEnv_def bindE_def getE_def readE_def)

text \<open>A symbol that has been found is not looked up again.\<close>

lemma GetJniEnv_twice:
  assumes "GetJniEnv env s = (Inr jni, s')" and "get_jnienv_symbol s' \<noteq> 0"
  shows "GetJniEnv env s' = (Inr jni, s')"
proof -
  have "jni = call_jnienv env (get_jnienv_symbol s')"
    using assms by (auto simp: GetJniEnv_def bindE_def getE_def readE_def modE_def sysE_def split: if_splits prod.splits sum.splits)
  then show ?thesis using GetJniEnv_cached [OF assms(2)] by simp
qed

text \<open>The handle is not tested: without the library the lookup goes through a null pointer.\<close>

lemma GetJniEnv_without_library:
  assumes "get_jnienv_symbol s = 0"
    and "DlOpen (art_os env) (fresh_parser env (proc s)) (junk_range env (proc s)) ''libandroid_runtime.so'' (proc s) = Inr (None, p)"
  shows "GetJniEnv env s = (Inl Undef, s\<lparr>proc := p\<rparr>)"
  using assms by (simp add: GetJniEnv_def bindE_def getE_def readE_def dlopenE_def dlsymE_def loadE_def DlSym_def)

text \<open>Without the symbol the environment is null, and every use of it faults.\<close>

lemma GetJniEnv_without_symbol:
  assumes "get_jnienv_symbol s = 0"
    and "DlOpen (art_os env) (fresh_parser env (proc s)) (junk_range env (proc s)) ''libandroid_runtime.so'' (proc s) = Inr (h, p)"
    and "DlSym (image_of p) h jnienv_name = Inr 0"
  shows "GetJniEnv env s = (Inr 0, s\<lparr>proc := p\<rparr>)" and "fst (GetCurrentThread env s) = Inl Segv"
proof -
  show "GetJniEnv env s = (Inr 0, s\<lparr>proc := p\<rparr>)"
    using assms by (cases s) (simp add: GetJniEnv_def bindE_def getE_def readE_def modE_def sysE_def retE_def dlopenE_def dlsymE_def
        loadE_def mem_def)
  then show "fst (GetCurrentThread env s) = Inl Segv"
    by (simp add: GetCurrentThread_def bindE_def through_env_def readE_def)
qed

text \<open>With an environment the thread is the native peer, or what is in the slot, and nothing is written.\<close>

lemma GetCurrentThread_cached:
  assumes "get_jnienv_symbol s \<noteq> 0" and "call_jnienv env (get_jnienv_symbol s) \<noteq> 0"
  shows "GetCurrentThread env s = (case native_peer env of Some p \<Rightarrow> Inr p | None \<Rightarrow> ld64 (mem s) (tls env + 56), s)"
  using assms by (cases "native_peer env")
    (simp_all add: GetCurrentThread_def bindE_def GetJniEnv_cached through_env_def JNIExceptionClear_def loadE_def readE_def retE_def)

end
