(* ===== verification/ArtSymbol.thy ===== *)
theory ArtSymbol
  imports JniEnv
begin

text \<open>
  \<^verbatim>\<open>src/cpp/art/ARTSymbol.cpp\<close>, \<^verbatim>\<open>native_load.cpp\<close> and \<^verbatim>\<open>scoped_thread_state_change.cc\<close>: the symbols of the runtime that
  the library uses, the search for the JNI trampoline, the layout of an \<open>ArtMethod\<close>, and the suspension of the VM.
\<close>

section \<open>Symbols\<close>

definition method_copy_from_name :: "int \<Rightarrow> string" where
  "method_copy_from_name level =
     (if level > ANDROID_O then ''_ZN3art9ArtMethod8CopyFromEPS0_NS_11PointerSizeE''
      else if level > ANDROID_N then ''_ZN3art9ArtMethod8CopyFromEPS0_m''
      else ''_ZN3art9ArtMethod8CopyFromEPKS0_m'')"

definition symbolE :: "elf_image option \<Rightarrow> string \<Rightarrow> (addr \<Rightarrow> art_symbols \<Rightarrow> art_symbols) \<Rightarrow> unit art_eff" where
  "symbolE h name store = bindE (dlsymE h name) (\<lambda>a. modE (\<lambda>s. s\<lparr>symbol_list := store a (symbol_list s)\<rparr>))"

definition GetSymbol :: "art_env \<Rightarrow> art_symbols art_eff" where
  "GetSymbol env =
     bindE (getE symbol_inited) (\<lambda>inited.
     if inited then getE symbol_list else
     bindE (dlopenE env ''libart.so'') (\<lambda>libart.
     bindE (symbolE libart ''_ZN3art3Dbg9SuspendVMEv'' (\<lambda>a l. l\<lparr>suspend_vm := a\<rparr>)) (\<lambda>_.
     bindE (symbolE libart ''_ZN3art3Dbg8ResumeVMEv'' (\<lambda>a l. l\<lparr>resume_vm := a\<rparr>)) (\<lambda>_.
     bindE (symbolE libart ''_ZN3art12ProfileSaver20ForceProcessProfilesEv'' (\<lambda>a l. l\<lparr>force_process_profiles := a\<rparr>)) (\<lambda>_.
     bindE (symbolE libart (method_copy_from_name (sdk_int env)) (\<lambda>a l. l\<lparr>method_copy_from := a\<rparr>)) (\<lambda>_.
     bindE (symbolE libart ''_ZN3art6mirror6Object5CloneEPNS_6ThreadE'' (\<lambda>a l. l\<lparr>object_clone := a\<rparr>)) (\<lambda>_.
     bindE (getE symbol_list) (\<lambda>l.
     bindE (if object_clone l = 0 then
         bindE (symbolE libart ''_ZN3art6mirror6Object5CloneEPNS_6ThreadEPNS0_5ClassE''
             (\<lambda>a l. l\<lparr>object_clone_with_class := a\<rparr>)) (\<lambda>_.
           symbolE libart ''_ZN3art6mirror6Object5CloneEPNS_6ThreadEm'' (\<lambda>a l. l\<lparr>object_clone_with_size := a\<rparr>))
       else retE ()) (\<lambda>_.
     bindE (modE (\<lambda>s. s\<lparr>symbol_inited := True\<rparr>)) (\<lambda>_.
     getE symbol_list))))))))))"

section \<open>The search for the JNI trampoline\<close>

definition POINTER_SIZE :: u64 where "POINTER_SIZE = 8"

text \<open>The offsets in \<open>Runtime\<close> when the VM is at \<open>offset\<close>: heap, thread list, class linker, intern table.\<close>

definition class_linker_offset :: "int \<Rightarrow> u64 \<Rightarrow> u64" where
  "class_linker_offset level offset =
     (let o1 = offset - POINTER_SIZE * 3 - 2 * POINTER_SIZE
      in if level \<ge> ANDROID_O_MR1 then o1 - POINTER_SIZE else o1)"

definition intern_table_offset :: "int \<Rightarrow> u64 \<Rightarrow> u64" where
  "intern_table_offset level offset = class_linker_offset level offset - POINTER_SIZE"

definition thread_list_offset :: "int \<Rightarrow> u64 \<Rightarrow> u64" where
  "thread_list_offset level offset = intern_table_offset level offset - POINTER_SIZE"

definition heap_offset :: "int \<Rightarrow> u64 \<Rightarrow> u64" where
  "heap_offset level offset =
     (let o1 = thread_list_offset level offset - 4 * POINTER_SIZE;
          o2 = (if level \<ge> ANDROID_M then o1 - 3 * POINTER_SIZE else o1)
      in if level \<ge> ANDROID_N then o2 - POINTER_SIZE else o2)"

text \<open>The first offset at which \<open>p\<close> holds the pointer \<open>v\<close>, and what the body of the loop then does.\<close>

fun search_ptr :: "world \<Rightarrow> addr \<Rightarrow> addr \<Rightarrow> u64 list \<Rightarrow> u64 option res" where
  "search_ptr w p v [] = Inr None"
| "search_ptr w p v (offset # offsets) =
     seqE (MemberOf_ptr w p offset) (\<lambda>x. if x = v then Inr (Some offset) else search_ptr w p v offsets)"

definition find_runtime :: "int \<Rightarrow> world \<Rightarrow> addr \<Rightarrow> addr \<Rightarrow> (addr \<times> addr \<times> addr \<times> addr) res" where
  "find_runtime level w runtime vm =
     seqE (search_ptr w runtime vm (offsets_of 384 POINTER_SIZE 100)) (\<lambda>hit.
     case hit of None \<Rightarrow> Inr (0, 0, 0, 0)
     | Some offset \<Rightarrow>
       seqE (MemberOf_ptr w runtime (heap_offset level offset)) (\<lambda>heap.
       seqE (MemberOf_ptr w runtime (thread_list_offset level offset)) (\<lambda>thread_list.
       seqE (MemberOf_ptr w runtime (class_linker_offset level offset)) (\<lambda>class_linker.
       seqE (MemberOf_ptr w runtime (intern_table_offset level offset)) (\<lambda>intern_table.
       Inr (heap, thread_list, class_linker, intern_table))))))"

definition find_trampoline :: "int \<Rightarrow> world \<Rightarrow> addr \<Rightarrow> addr \<Rightarrow> addr \<Rightarrow> addr res" where
  "find_trampoline level w class_linker intern_table old =
     seqE (search_ptr w class_linker intern_table (offsets_of (POINTER_SIZE * 25) POINTER_SIZE 100)) (\<lambda>hit.
     case hit of None \<Rightarrow> Inr old
     | Some offset \<Rightarrow>
       MemberOf_ptr w class_linker (offset + (if level \<ge> ANDROID_M then 3 else 5) * POINTER_SIZE))"

text \<open>The value it stores to \<open>quick_to_jni_bridge\<close>.\<close>

definition GetAndroidRuntimeAddress :: "art_env \<Rightarrow> elf_image option \<Rightarrow> addr art_eff" where
  "GetAndroidRuntimeAddress env libart =
     (let vm = java_vm env in
      bindE (GetJniEnv env) (\<lambda>jni.
      bindE (through_env jni) (\<lambda>_.
      bindE (modE (\<lambda>s. s\<lparr>runtime_obj := (runtime_obj s)\<lparr>ro_vm := vm\<rparr>\<rparr>)) (\<lambda>_.
      bindE (dlsymE libart ''art_quick_generic_jni_trampoline'') (\<lambda>bridge.
      if bridge \<noteq> 0 then retE bridge else
      bindE (loadE (\<lambda>w. MemberOf_ptr w vm POINTER_SIZE)) (\<lambda>runtime.
      bindE (modE (\<lambda>s. s\<lparr>runtime_obj := (runtime_obj s)\<lparr>ro_runtime := runtime\<rparr>\<rparr>)) (\<lambda>_.
      bindE (loadE (\<lambda>w. find_runtime (sdk_int env) w runtime vm)) (\<lambda>(heap, thread_list, class_linker, intern_table).
      bindE (modE (\<lambda>s. s\<lparr>runtime_obj := (runtime_obj s)\<lparr>ro_heap := heap, ro_thread_list := thread_list,
          ro_class_linker := class_linker, ro_intern_table := intern_table\<rparr>\<rparr>)) (\<lambda>_.
      loadE (\<lambda>w. find_trampoline (sdk_int env) w class_linker intern_table bridge))))))))))"

definition GetBridgeList :: "art_env \<Rightarrow> art_bridges art_eff" where
  "GetBridgeList env =
     bindE (getE bridge_inited) (\<lambda>inited.
     if inited then getE bridge_list else
     bindE (dlopenE env ''libart.so'') (\<lambda>libart.
     bindE (dlsymE libart ''artInterpreterToCompiledCodeBridge'') (\<lambda>a.
     bindE (modE (\<lambda>s. s\<lparr>bridge_list := (bridge_list s)\<lparr>interpreter_to_compiled_code := a\<rparr>\<rparr>)) (\<lambda>_.
     bindE (GetAndroidRuntimeAddress env libart) (\<lambda>a.
     bindE (modE (\<lambda>s. s\<lparr>bridge_list := (bridge_list s)\<lparr>quick_to_jni_bridge := a\<rparr>\<rparr>)) (\<lambda>_.
     bindE (dlsymE libart ''art_quick_to_interpreter_bridge'') (\<lambda>a.
     bindE (modE (\<lambda>s. s\<lparr>bridge_list := (bridge_list s)\<lparr>quick_to_interpreter := a\<rparr>, bridge_inited := True\<rparr>)) (\<lambda>_.
     getE bridge_list))))))))"

text \<open>Each of the three calls gets the current thread as its second argument.\<close>

definition CloneObject :: "art_env \<Rightarrow> addr \<Rightarrow> addr art_eff" where
  "CloneObject env art_object =
     bindE (GetSymbol env) (\<lambda>l.
     bindE (GetCurrentThread env) (\<lambda>thread.
     let (f, args) =
       (if object_clone l \<noteq> 0 then (object_clone l, [art_object, thread])
        else if object_clone_with_class l \<noteq> 0 then (object_clone_with_class l, [art_object, thread, 0])
        else (object_clone_with_size l, [art_object, thread, 0]))
     in if f = 0 then readE (\<lambda>_. Inl Segv)
        else sysE (\<lambda>s. let (a, w) = call_clone env f args (mem s) in (a, set_mem w s))))"

section \<open>Suspending the VM\<close>

text \<open>\<open>ScopedSuspendAll::ManualControl\<close>; the constructor calls it with \<open>true\<close>, the destructor with \<open>false\<close>.\<close>

definition ManualControl :: "art_env \<Rightarrow> bool \<Rightarrow> unit art_eff" where
  "ManualControl env suspend =
     bindE (GetSymbol env) (\<lambda>symbols.
     if \<not> (suspend_vm symbols \<noteq> 0 \<and> resume_vm symbols \<noteq> 0) then retE ()
     else if suspend then vmcallE env (suspend_vm symbols) else vmcallE env (resume_vm symbols))"

section \<open>The layout of a method\<close>

text \<open>\<open>jni\<close> is the environment, which the first call goes through.\<close>

definition GetBaseOffset :: "art_env \<Rightarrow> addr \<Rightarrow> art_summary art_eff" where
  "GetBaseOffset env jni =
     (let entrypoint_filed_size = (if sdk_int env \<le> ANDROID_LOLLIPOP then 8 else 8);
          internalCloneMethod = jni_method env ''internalClone'' ''()Ljava/lang/Object;'';
          cloneMethod = jni_method env ''clone'' ''()Ljava/lang/Object;''
      in
      bindE (through_env jni) (\<lambda>_.
      bindE (readE (\<lambda>s. DistanceOf internalCloneMethod cloneMethod)) (\<lambda>method_size.
      bindE (loadE (\<lambda>w. GetOffsetByValue_u4 w internalCloneMethod (kAccPrivate OR kAccNative OR kAccFastNative))) (\<lambda>access_flags_offset.
      bindE (dlopenE env ''libart.so'') (\<lambda>libart.
      bindE (dlsymE libart ''_ZN3artL20Object_internalCloneEP7_JNIEnvP8_jobject'') (\<lambda>object_clone_symbol.
      bindE (loadE (\<lambda>w. GetOffsetByValue_ptr w internalCloneMethod object_clone_symbol)) (\<lambda>jni_code_offset.
      retE \<lparr>sum_method_size = method_size, sum_access_flags_offset = access_flags_offset,
        sum_entrypoint_filed_size = entrypoint_filed_size, sum_jni_code_offset = jni_code_offset\<rparr>)))))))"

definition CalculateOtherOffset :: "art_env \<Rightarrow> art_summary \<Rightarrow> art_offsets \<Rightarrow> art_offsets art_eff" where
  "CalculateOtherOffset env summary ofs =
     (let access = sum_access_flags_offset summary; jni = sum_jni_code_offset summary;
          ofs = ofs\<lparr>method_size_ofs := sum_method_size summary, access_flags_ofs := access, jni_code_ofs := jni,
            quick_code_ofs := jni + sum_entrypoint_filed_size summary, dex_code_item_ofs := access + 4 * 1,
            dex_method_index_ofs := access + 4 * 2, method_index_ofs := access + 4 * 3\<rparr>
      in
      bindE (GetBridgeList env) (\<lambda>bridges.
      let ofs = (if sdk_int env < ANDROID_N \<and> interpreter_to_compiled_code bridges \<noteq> 0
            then ofs\<lparr>interpreter_code_ofs := jni - sum_entrypoint_filed_size summary\<rparr> else ofs);
          ofs = (if sdk_int env \<ge> ANDROID_N then ofs\<lparr>hotness_count_ofs := method_index_ofs ofs + 2\<rparr> else ofs)
      in retE ofs))"

end
