(* ===== verification/ArtMethod.thy ===== *)
theory ArtMethod
  imports ArtSymbol
begin

text \<open>
  \<^verbatim>\<open>src/cpp/art/ArtMethod.cpp\<close>: the accessors of an \<open>ArtMethod\<close>, whose fields are at computed offsets, and the hook:
  \<open>Hook\<close> makes a Java method native with the replacement as its JNI code, \<open>Backup\<close> and \<open>Clone\<close> keep a copy that can still
  be invoked, \<open>DealGCRoot\<close> renews the copy when the class has moved, \<open>InvokeOriginal\<close> runs it.
\<close>

section \<open>Accessors\<close>

text \<open>\<open>m\<close> is \<open>current_method_id\<close>.\<close>

definition GetDeclaringClass :: "addr \<Rightarrow> addr art_eff" where
  "GetDeclaringClass m = loadE (\<lambda>w. MemberOf_ptr w m 0)"

definition field_u4 :: "(art_offsets \<Rightarrow> u64) \<Rightarrow> addr \<Rightarrow> u32 art_eff" where
  "field_u4 ofs m = bindE (getE method_offset) (\<lambda>o1. loadE (\<lambda>w. MemberOf_u4 w m (ofs o1)))"

definition field_ptr :: "(art_offsets \<Rightarrow> u64) \<Rightarrow> addr \<Rightarrow> addr art_eff" where
  "field_ptr ofs m = bindE (getE method_offset) (\<lambda>o1. loadE (\<lambda>w. MemberOf_ptr w m (ofs o1)))"

definition set_u4 :: "(art_offsets \<Rightarrow> u64) \<Rightarrow> addr \<Rightarrow> u32 \<Rightarrow> unit art_eff" where
  "set_u4 ofs m v = bindE (getE method_offset) (\<lambda>o1. writeE (\<lambda>w. AssignOffset_u4 w m (ofs o1) v))"

definition set_ptr :: "(art_offsets \<Rightarrow> u64) \<Rightarrow> addr \<Rightarrow> addr \<Rightarrow> unit art_eff" where
  "set_ptr ofs m v = bindE (getE method_offset) (\<lambda>o1. writeE (\<lambda>w. AssignOffset_ptr w m (ofs o1) v))"

definition GetAccessFlags :: "addr \<Rightarrow> u32 art_eff" where
  "GetAccessFlags = field_u4 access_flags_ofs"

definition SetAccessFlags :: "addr \<Rightarrow> u32 \<Rightarrow> unit art_eff" where
  "SetAccessFlags = set_u4 access_flags_ofs"

definition AddAccessFlags :: "addr \<Rightarrow> u32 \<Rightarrow> unit art_eff" where
  "AddAccessFlags m access_flags = bindE (GetAccessFlags m) (\<lambda>f. SetAccessFlags m (f OR access_flags))"

definition RemoveAccessFlags :: "addr \<Rightarrow> u32 \<Rightarrow> unit art_eff" where
  "RemoveAccessFlags m access_flags = bindE (GetAccessFlags m) (\<lambda>f. SetAccessFlags m (f AND NOT access_flags))"

definition HasAccessFlags :: "addr \<Rightarrow> u32 \<Rightarrow> bool art_eff" where
  "HasAccessFlags m access_flags = bindE (GetAccessFlags m) (\<lambda>f. retE (access_flags AND f \<noteq> 0))"

definition GetDexCodeItemOffset :: "addr \<Rightarrow> u32 art_eff" where
  "GetDexCodeItemOffset = field_u4 dex_code_item_ofs"

definition SetDexCodeItemOffset :: "addr \<Rightarrow> u32 \<Rightarrow> unit art_eff" where
  "SetDexCodeItemOffset = set_u4 dex_code_item_ofs"

definition GetEntryPointFromQuickCompiledCode :: "addr \<Rightarrow> addr art_eff" where
  "GetEntryPointFromQuickCompiledCode = field_ptr quick_code_ofs"

definition SetEntryPointFromQuickCompiledCode :: "addr \<Rightarrow> addr \<Rightarrow> unit art_eff" where
  "SetEntryPointFromQuickCompiledCode = set_ptr quick_code_ofs"

definition GetEntryPointFromInterpreterCode :: "addr \<Rightarrow> addr art_eff" where
  "GetEntryPointFromInterpreterCode = field_ptr interpreter_code_ofs"

definition SetEntryPointFromInterpreterCode :: "addr \<Rightarrow> addr \<Rightarrow> unit art_eff" where
  "SetEntryPointFromInterpreterCode = set_ptr interpreter_code_ofs"

definition GetEntryPointFromJni :: "addr \<Rightarrow> addr art_eff" where
  "GetEntryPointFromJni = field_ptr jni_code_ofs"

definition SetEntryPointFromJni :: "addr \<Rightarrow> addr \<Rightarrow> unit art_eff" where
  "SetEntryPointFromJni = set_ptr jni_code_ofs"

definition SetHotnessCount :: "addr \<Rightarrow> u16 \<Rightarrow> unit art_eff" where
  "SetHotnessCount m count =
     bindE (getE method_offset) (\<lambda>o1. writeE (\<lambda>w. AssignOffset_u2 w m (hotness_count_ofs o1) count))"

section \<open>Cloning\<close>

fun memcpy :: "world \<Rightarrow> addr \<Rightarrow> addr \<Rightarrow> nat \<Rightarrow> world res" where
  "memcpy w dst src 0 = Inr w"
| "memcpy w dst src (Suc n) =
     seqE (ld8 w src) (\<lambda>b. seqE (st_le w 1 dst (ucast b)) (\<lambda>w. memcpy w (dst + 1) (src + 1) n))"

text \<open>The loop over the first four words of the profiling information.\<close>

fun fix_profile :: "addr \<Rightarrow> addr \<Rightarrow> addr \<Rightarrow> u64 list \<Rightarrow> world \<Rightarrow> world res" where
  "fix_profile info m clone [] w = Inr w"
| "fix_profile info m clone (offset # offsets) w =
     seqE (MemberOf_ptr w info offset) (\<lambda>v.
     seqE (if v = m then AssignOffset_ptr w info offset clone else Inr w) (fix_profile info m clone offsets))"

definition copy_method :: "art_env \<Rightarrow> art_symbols \<Rightarrow> addr \<Rightarrow> addr art_eff" where
  "copy_method env l m =
     bindE (getE api_level) (\<lambda>level.
     if level < ANDROID_M then CloneObject env m
     else
       bindE (getE method_offset) (\<lambda>o1.
       bindE (sysE (\<lambda>s. let (c, w) = art_malloc env (mem s) (method_size_ofs o1) in (c, set_mem w s))) (\<lambda>clone.
       bindE (if method_copy_from l \<noteq> 0
              then modE (\<lambda>s. set_mem (call_copy_from env (method_copy_from l) clone m 8 (mem s)) s)
              else writeE (\<lambda>w. memcpy w clone m (unat (method_size_ofs o1)))) (\<lambda>_.
       retE clone))))"

text \<open>The flags of the copy.\<close>

definition clone_flags :: "int \<Rightarrow> u32 \<Rightarrow> u32" where
  "clone_flags level access_flags =
     (let is_native = kAccNative AND access_flags \<noteq> 0;
          f = (if \<not> (kAccDirectFlags AND access_flags \<noteq> 0)
               then (access_flags AND NOT (kAccPublic OR kAccProtected)) OR kAccPrivate else access_flags);
          f = f AND NOT kAccSynchronized;
          f = (if level < ANDROID_O_MR1 then f OR kAccCompileDontBother_N
               else (f OR kAccCompileDontBother_O_MR1) OR kAccPreviouslyWarm_O_MR1)
      in if \<not> is_native then f OR kAccSkipAccessChecks else f)"

text \<open>The parts of \<open>Clone\<close> for hotness and profile, and for the entry point of the copy.\<close>

definition clone_profile :: "addr \<Rightarrow> addr \<Rightarrow> bool \<Rightarrow> unit art_eff" where
  "clone_profile m clone is_native =
     bindE (getE api_level) (\<lambda>level.
     if level \<ge> ANDROID_N then
       bindE (SetHotnessCount clone 0) (\<lambda>_.
       if is_native then retE () else
       bindE (GetEntryPointFromJni m) (\<lambda>info.
       if info = 0 then retE () else writeE (fix_profile info m clone (offsets_of 0 4 4))))
     else retE ())"

definition clone_entry :: "art_env \<Rightarrow> addr \<Rightarrow> bool \<Rightarrow> unit art_eff" where
  "clone_entry env clone is_native =
     bindE (GetBridgeList env) (\<lambda>b.
     if \<not> is_native \<and> quick_to_interpreter b \<noteq> 0
     then SetEntryPointFromQuickCompiledCode clone (quick_to_interpreter b) else retE ())"

definition Clone :: "art_env \<Rightarrow> addr \<Rightarrow> addr art_eff" where
  "Clone env m =
     bindE (GetSymbol env) (\<lambda>l.
     bindE (copy_method env l m) (\<lambda>clone.
     bindE (GetAccessFlags m) (\<lambda>access_flags.
     bindE (HasAccessFlags m kAccNative) (\<lambda>is_native.
     bindE (clone_profile m clone is_native) (\<lambda>_.
     bindE (clone_entry env clone is_native) (\<lambda>_.
     bindE (getE api_level) (\<lambda>level.
     bindE (SetAccessFlags clone (clone_flags level access_flags)) (\<lambda>_.
     retE clone))))))))"

section \<open>Backup, hook, invocation\<close>

text \<open>\<open>insert\<close> leaves an entry that is there.\<close>

definition Backup :: "art_env \<Rightarrow> addr \<Rightarrow> unit art_eff" where
  "Backup env m =
     bindE (GetDeclaringClass m) (\<lambda>decl.
     bindE (GetAccessFlags m) (\<lambda>flags.
     bindE (GetDexCodeItemOffset m) (\<lambda>dex.
     bindE (GetEntryPointFromInterpreterCode m) (\<lambda>interp.
     bindE (GetEntryPointFromQuickCompiledCode m) (\<lambda>quick.
     bindE (GetEntryPointFromJni m) (\<lambda>jni.
     bindE (Clone env m) (\<lambda>orig.
     let key = \<lparr>key_decl_class = decl, key_access_flags = flags, key_dex_code_item_offset = dex, key_quick_code = quick,
           key_interpreter_code = interp, key_jni_code = jni, key_original_method = orig\<rparr>
     in modE (\<lambda>s. case hooked_method_map s m of None \<Rightarrow> s\<lparr>hooked_method_map := (hooked_method_map s)(m \<mapsto> key)\<rparr>
         | Some _ \<Rightarrow> s))))))))"

definition Hook :: "art_env \<Rightarrow> addr \<Rightarrow> addr \<Rightarrow> unit art_eff" where
  "Hook env m replace =
     bindE (ManualControl env True) (\<lambda>_.
     bindE (Backup env m) (\<lambda>_.
     bindE (GetSymbol env) (\<lambda>l.
     bindE (if force_process_profiles l \<noteq> 0 then vmcallE env (force_process_profiles l) else retE ()) (\<lambda>_.
     bindE (SetDexCodeItemOffset m 0) (\<lambda>_.
     bindE (getE api_level) (\<lambda>level.
     bindE (if level < ANDROID_O_MR1 then AddAccessFlags m kAccCompileDontBother_N
            else bindE (AddAccessFlags m kAccCompileDontBother_O_MR1) (\<lambda>_.
              AddAccessFlags m kAccPreviouslyWarm_O_MR1)) (\<lambda>_.
     bindE (if level > ANDROID_P then bindE (HasAccessFlags m kAccAbstract) (\<lambda>a. retE (\<not> a)) else retE False)
       (\<lambda>is_pie_abstract.
     bindE (if is_pie_abstract \<or> level \<ge> ANDROID_N then SetHotnessCount m 0 else retE ()) (\<lambda>_.
     bindE (AddAccessFlags m kAccNative) (\<lambda>_.
     bindE (AddAccessFlags m kAccFastNative) (\<lambda>_.
     bindE (if level \<ge> ANDROID_P then RemoveAccessFlags m kAccCriticalNative_P else retE ()) (\<lambda>_.
     bindE (GetBridgeList env) (\<lambda>b.
     bindE (SetEntryPointFromQuickCompiledCode m (quick_to_jni_bridge b)) (\<lambda>_.
     bindE (if level < ANDROID_N \<and> interpreter_to_compiled_code b \<noteq> 0
            then SetEntryPointFromInterpreterCode m (interpreter_to_compiled_code b) else retE ()) (\<lambda>_.
     bindE (SetEntryPointFromJni m replace) (\<lambda>_.
     ManualControl env False))))))))))))))))"

definition get_method_key :: "addr \<Rightarrow> art_key option art_eff" where
  "get_method_key m = getE (\<lambda>s. hooked_method_map s m)"

text \<open>Access through a key; without one it is an access through the null pointer.\<close>

definition with_key :: "addr \<Rightarrow> (art_key \<Rightarrow> 'a art_eff) \<Rightarrow> 'a art_eff" where
  "with_key m f =
     bindE (get_method_key m) (\<lambda>k. case k of None \<Rightarrow> readE (\<lambda>_. Inl Segv) | Some key \<Rightarrow> f key)"

definition update_key :: "addr \<Rightarrow> (art_key \<Rightarrow> art_key) \<Rightarrow> unit art_eff" where
  "update_key m f = modE (\<lambda>s. s\<lparr>hooked_method_map := (hooked_method_map s)(m := map_option f (hooked_method_map s m))\<rparr>)"

definition DealGCRoot :: "art_env \<Rightarrow> addr \<Rightarrow> unit art_eff" where
  "DealGCRoot env m =
     with_key m (\<lambda>key.
     bindE (GetDeclaringClass m) (\<lambda>decl.
     if key_decl_class key = decl then retE () else
     bindE (Clone env m) (\<lambda>orig.
     bindE (update_key m (\<lambda>k. k\<lparr>key_original_method := orig\<rparr>)) (\<lambda>_.
     bindE (SetEntryPointFromQuickCompiledCode orig (key_quick_code key)) (\<lambda>_.
     bindE (SetEntryPointFromJni orig (key_jni_code key)) (\<lambda>_.
     bindE (SetDexCodeItemOffset orig (key_dex_code_item_offset key)) (\<lambda>_.
     bindE (GetDeclaringClass m) (\<lambda>decl.
     update_key m (\<lambda>k. k\<lparr>key_decl_class := decl\<rparr>)))))))))"

text \<open>The method that is invoked by reflection, and whether it is static; the call itself is the runtime's.\<close>

definition InvokeOriginal :: "art_env \<Rightarrow> addr \<Rightarrow> (addr \<times> bool) art_eff" where
  "InvokeOriginal env m =
     bindE (DealGCRoot env m) (\<lambda>_.
     with_key m (\<lambda>key.
     bindE (HasAccessFlags m kAccStatic) (\<lambda>static.
     retE (key_original_method key, static))))"

section \<open>Initialisation\<close>

definition ArtMethod_init :: "art_env \<Rightarrow> unit art_eff" where
  "ArtMethod_init env =
     bindE (getE (\<lambda>s. api_level s > 0 \<or> \<not> art_prepared s)) (\<lambda>skip.
     if skip then retE () else
     bindE (modE (\<lambda>s. s\<lparr>api_level := sdk_int env\<rparr>)) (\<lambda>_.
     bindE (GetJniEnv env) (\<lambda>jni.
     bindE (GetBaseOffset env jni) (\<lambda>summary.
     bindE (getE method_offset) (\<lambda>o1.
     bindE (CalculateOtherOffset env summary o1) (\<lambda>o2.
     modE (\<lambda>s. s\<lparr>method_offset := o2\<rparr>)))))))"

definition SetArtPrepared :: "art_env \<Rightarrow> bool \<Rightarrow> unit art_eff" where
  "SetArtPrepared env prepared =
     bindE (getE art_prepared) (\<lambda>old_art_prepared.
     bindE (modE (\<lambda>s. s\<lparr>art_prepared := prepared\<rparr>)) (\<lambda>_.
     if \<not> old_art_prepared \<and> prepared then ArtMethod_init env else retE ()))"

end
