(* ===== verification/ArtSpec.thy ===== *)
theory ArtSpec
  imports ArtMethod
begin

text \<open>
  What the method hook promises, over an abstract view of a method (\<open>art_method\<close>): the accessors are the updates of a record,
  and \<open>Clone\<close>, \<open>Backup\<close> and \<open>Hook\<close> act on it. Runs are proved with a predicate transformer \<open>wp\<close>.
\<close>

section \<open>Runs that return\<close>

definition wp :: "'a art_eff \<Rightarrow> ('a \<Rightarrow> art \<Rightarrow> bool) \<Rightarrow> art \<Rightarrow> bool" where
  "wp f Q s = (case f s of (Inl t, s') \<Rightarrow> False | (Inr x, s') \<Rightarrow> Q x s')"

lemma wp_bind [simp]: "wp (bindE f g) Q = wp f (\<lambda>x. wp (g x) Q)"
  by (rule ext) (auto simp: wp_def bindE_def split: prod.splits sum.splits)

lemma wp_simps [simp]:
  "wp (retE x) Q1 = Q1 x"
  "wp (getE f) Q2 = (\<lambda>s. Q2 (f s) s)"
  "wp (modE h) Q3 = (\<lambda>s. Q3 () (h s))"
  "wp (sysE k) Q4 = (\<lambda>s. Q4 (fst (k s)) (snd (k s)))"
  "wp (loadE r) Q5 = (\<lambda>s. \<exists>v. r (mem s) = Inr v \<and> Q5 v s)"
  "wp (writeE u) Q6 = (\<lambda>s. \<exists>w. u (mem s) = Inr w \<and> Q6 () (set_mem w s))"
  by (auto simp: fun_eq_iff wp_def retE_def getE_def readE_def modE_def sysE_def loadE_def writeE_def storeE_def Let_def
      split: prod.splits sum.splits)

lemma wp_through_env [simp]: "wp (through_env jni) Q s \<longleftrightarrow> jni \<noteq> 0 \<and> Q () s"
  by (simp add: wp_def through_env_def readE_def retE_def)

lemma wp_mono: "wp f Q s \<Longrightarrow> (\<And>x s'. Q x s' \<Longrightarrow> P x s') \<Longrightarrow> wp f P s"
  by (auto simp: wp_def split: prod.splits sum.splits)

lemma wp_run: "wp f Q s \<Longrightarrow> \<exists>x s'. f s = (Inr x, s') \<and> Q x s'"
  by (auto simp: wp_def split: prod.splits sum.splits)

lemma mem_simps [simp]:
  "mem (set_mem w s) = w" "set_mem w (set_mem w' s) = set_mem w s"
  "method_offset (set_mem w s) = method_offset s" "symbol_inited (set_mem w s) = symbol_inited s"
  "symbol_list (set_mem w s) = symbol_list s" "bridge_inited (set_mem w s) = bridge_inited s"
  "bridge_list (set_mem w s) = bridge_list s" "api_level (set_mem w s) = api_level s"
  "hooked_method_map (set_mem w s) = hooked_method_map s" "vm_calls (set_mem w s) = vm_calls s"
  "get_jnienv_symbol (set_mem w s) = get_jnienv_symbol s"
  by (simp_all add: mem_def set_mem_def)

lemma set_mem_update [simp]:
  "mem (s\<lparr>vm_calls := cs\<rparr>) = mem s" "mem (s\<lparr>hooked_method_map := h\<rparr>) = mem s"
  by (simp_all add: mem_def)

section \<open>Regions of memory\<close>

definition region :: "addr \<Rightarrow> nat \<Rightarrow> addr set" where
  "region a n = (\<lambda>i. a + of_nat i) ` {..<n}"

definition accessible :: "world \<Rightarrow> addr \<Rightarrow> nat \<Rightarrow> bool" where
  "accessible w a n \<longleftrightarrow> all_readable w n a \<and> all_writable w n a"

text \<open>From \<open>w\<close> to \<open>w'\<close> only bytes of \<open>R\<close> have changed.\<close>

definition only_writes :: "addr set \<Rightarrow> world \<Rightarrow> world \<Rightarrow> bool" where
  "only_writes R w w' \<longleftrightarrow> mprot w' = mprot w \<and> (\<forall>b. b \<notin> R \<longrightarrow> mbytes w' b = mbytes w b)"

text \<open>\<open>w'\<close> agrees with \<open>w\<close> on \<open>R\<close>.\<close>

definition agree :: "addr set \<Rightarrow> world \<Rightarrow> world \<Rightarrow> bool" where
  "agree R w w' \<longleftrightarrow> (\<forall>b\<in>R. mprot w' b = mprot w b \<and> mbytes w' b = mbytes w b)"

lemma only_writes_agree: "only_writes R w w' \<Longrightarrow> R \<inter> S = {} \<Longrightarrow> agree S w w'"
  by (auto simp: only_writes_def agree_def)

lemma only_writes_refl [simp]: "only_writes R w w"
  by (simp add: only_writes_def)

lemma only_writes_trans: "only_writes R w w' \<Longrightarrow> only_writes R w' w'' \<Longrightarrow> only_writes R w w''"
  by (simp add: only_writes_def)

lemma agree_trans: "agree R w w' \<Longrightarrow> agree R w' w'' \<Longrightarrow> agree R w w''"
  by (simp add: agree_def)

lemma agree_refl [simp]: "agree R w w"
  by (simp add: agree_def)

lemma agree_subset: "agree R w w' \<Longrightarrow> S \<subseteq> R \<Longrightarrow> agree S w w'"
  by (auto simp: agree_def)

lemma accessible_iff: "accessible w a n \<longleftrightarrow> (\<forall>b\<in>region a n. readable w b \<and> writable w b)"
  by (auto simp: accessible_def all_readable_iff all_writable_iff region_def)

lemma region_part: "i + k \<le> n \<Longrightarrow> region (a + of_nat i) k \<subseteq> region a n"
proof
  fix b assume "i + k \<le> n" "b \<in> region (a + of_nat i) k"
  then obtain j where "j < k" "b = a + of_nat (i + j)" by (auto simp: region_def add.assoc)
  with \<open>i + k \<le> n\<close> show "b \<in> region a n"
    unfolding region_def by (intro image_eqI [of _ _ "i + j"]) auto
qed

lemma accessible_agree: "agree (region a n) w w' \<Longrightarrow> accessible w' a n = accessible w a n"
  by (simp add: accessible_iff agree_def readable_def writable_def)

lemma ld_le_agree: "agree (region a n) w w' \<Longrightarrow> ld_le w' n a = ld_le w n a"
  by (rule ld_le_cong) (simp add: agree_def region_def ld8_def readable_def)

lemma ld_agree:
  "agree (region a 2) w w' \<Longrightarrow> ld16 w' a = ld16 w a" "agree (region a 4) w w' \<Longrightarrow> ld32 w' a = ld32 w a"
  "agree (region a 8) w w' \<Longrightarrow> ld64 w' a = ld64 w a"
  by (simp_all add: ld16_def ld32_def ld64_def ld_le_agree)

lemma put_only_writes: "only_writes (region a n) w (put w n a v)"
  by (auto simp: only_writes_def region_def intro!: mbytes_put_other)

lemma apart_region: "apart a n b k \<longleftrightarrow> region a n \<inter> region b k = {}"
  by (auto simp: apart_def region_def)

section \<open>Methods\<close>

record art_method =
  am_flags :: u32
  am_dex :: u32
  am_hot :: u16
  am_quick :: addr
  am_jni :: addr

text \<open>The layout that \<open>CalculateOtherOffset\<close> computes from Android N on.\<close>

definition layout_ok :: "art_offsets \<Rightarrow> bool" where
  "layout_ok ofs \<longleftrightarrow> unat (access_flags_ofs ofs) + 16 \<le> unat (jni_code_ofs ofs) \<and>
     unat (jni_code_ofs ofs) + 16 \<le> unat (method_size_ofs ofs) \<and> unat (method_size_ofs ofs) \<le> 2 ^ 32 \<and>
     dex_code_item_ofs ofs = access_flags_ofs ofs + 4 \<and> hotness_count_ofs ofs = access_flags_ofs ofs + 14 \<and>
     quick_code_ofs ofs = jni_code_ofs ofs + 8 \<and> interpreter_code_ofs ofs = 0"

abbreviation method_region :: "art_offsets \<Rightarrow> addr \<Rightarrow> addr set" where
  "method_region ofs m \<equiv> region m (unat (method_size_ofs ofs))"

definition method_at :: "art_offsets \<Rightarrow> world \<Rightarrow> addr \<Rightarrow> art_method \<Rightarrow> bool" where
  "method_at ofs w m v \<longleftrightarrow> accessible w m (unat (method_size_ofs ofs)) \<and>
     ld32 w (m + access_flags_ofs ofs) = Inr (am_flags v) \<and> ld32 w (m + dex_code_item_ofs ofs) = Inr (am_dex v) \<and>
     ld16 w (m + hotness_count_ofs ofs) = Inr (am_hot v) \<and> ld64 w (m + quick_code_ofs ofs) = Inr (am_quick v) \<and>
     ld64 w (m + jni_code_ofs ofs) = Inr (am_jni v)"

text \<open>The fields as positions in the object.\<close>

lemma layout_fields:
  assumes "layout_ok ofs"
  obtains af jc n where "af + 16 \<le> jc" "jc + 16 \<le> n" "n \<le> 2 ^ 32" "n = unat (method_size_ofs ofs)"
    and "access_flags_ofs ofs = of_nat af" "dex_code_item_ofs ofs = of_nat (af + 4)"
    and "hotness_count_ofs ofs = of_nat (af + 14)" "jni_code_ofs ofs = of_nat jc" "quick_code_ofs ofs = of_nat (jc + 8)"
  by (rule that [of "unat (access_flags_ofs ofs)" "unat (jni_code_ofs ofs)" "unat (method_size_ofs ofs)"])
    (use assms in \<open>simp_all add: layout_ok_def\<close>)

lemma method_at_agree:
  assumes "layout_ok ofs" "method_at ofs w m v" "agree (method_region ofs m) w w'"
  shows "method_at ofs w' m v"
proof -
  from assms(1) obtain af jc n where f: "af + 16 \<le> jc" "jc + 16 \<le> n" "n = unat (method_size_ofs ofs)"
    "access_flags_ofs ofs = of_nat af" "dex_code_item_ofs ofs = of_nat (af + 4)"
    "hotness_count_ofs ofs = of_nat (af + 14)" "jni_code_ofs ofs = of_nat jc" "quick_code_ofs ofs = of_nat (jc + 8)"
    by (rule layout_fields)
  have part: "agree (region (m + of_nat i) k) w w'" if "i + k \<le> n" for i k
    using agree_subset [OF assms(3) region_part] that f(3) by simp
  show ?thesis
    using assms(2) accessible_agree [OF assms(3)] f(1,2)
      ld_agree(2) [OF part [of af 4]] ld_agree(2) [OF part [of "af + 4" 4]] ld_agree(1) [OF part [of "af + 14" 2]]
      ld_agree(3) [OF part [of jc 8]] ld_agree(3) [OF part [of "jc + 8" 8]]
    by (simp add: method_at_def f(4-8))
qed

lemma ld_put_same:
  "accessible w a 2 \<Longrightarrow> ld16 (put w 2 a (ucast (x :: u16))) a = Inr x"
  "accessible w a 4 \<Longrightarrow> ld32 (put w 4 a (ucast (y :: u32))) a = Inr y"
  "accessible w a 8 \<Longrightarrow> ld64 (put w 8 a z) a = Inr z"
proof -
  have "ucast (take_bit 16 (ucast x :: u64)) = x" "ucast (take_bit 32 (ucast y :: u64)) = y"
    by (rule bit_eqI; auto simp: bit_simps dest: bit_imp_le_length)+
  then show "accessible w a 2 \<Longrightarrow> ld16 (put w 2 a (ucast x)) a = Inr x"
    "accessible w a 4 \<Longrightarrow> ld32 (put w 4 a (ucast y)) a = Inr y"
    "accessible w a 8 \<Longrightarrow> ld64 (put w 8 a z) a = Inr z"
    by (simp_all add: ld16_def ld32_def ld64_def accessible_def ld_le_put_same take_bit_word_eq_self)
qed

lemma ld_put_other:
  "region b k \<inter> region a 2 = {} \<Longrightarrow> ld16 (put w k b x) a = ld16 w a"
  "region b k \<inter> region a 4 = {} \<Longrightarrow> ld32 (put w k b x) a = ld32 w a"
  "region b k \<inter> region a 8 = {} \<Longrightarrow> ld64 (put w k b x) a = ld64 w a"
  by (rule ld_agree; erule only_writes_agree [OF put_only_writes])+

lemma regions_disjoint:
  "i + n \<le> j \<or> j + k \<le> i \<Longrightarrow> i + n \<le> 2 ^ 32 \<Longrightarrow> j + k \<le> 2 ^ 32 \<Longrightarrow>
     region (a + of_nat i) n \<inter> region (a + of_nat j) k = {}"
  unfolding apart_region [symmetric] by (rule apart_fields) auto

text \<open>Each setter is the update of the record, and writes inside the method only.\<close>

definition updates :: "art_offsets \<Rightarrow> addr \<Rightarrow> world res \<Rightarrow> world \<Rightarrow> art_method \<Rightarrow> bool" where
  "updates ofs m r w v \<longleftrightarrow> (\<exists>w'. r = Inr w' \<and> method_at ofs w' m v \<and> only_writes (method_region ofs m) w w')"

lemma setters:
  assumes l: "layout_ok ofs" and v: "method_at ofs w m v"
  shows "updates ofs m (AssignOffset_u4 w m (access_flags_ofs ofs) x) w (v\<lparr>am_flags := x\<rparr>)"
    and "updates ofs m (AssignOffset_u4 w m (dex_code_item_ofs ofs) x) w (v\<lparr>am_dex := x\<rparr>)"
    and "updates ofs m (AssignOffset_u2 w m (hotness_count_ofs ofs) h) w (v\<lparr>am_hot := h\<rparr>)"
    and "updates ofs m (AssignOffset_ptr w m (quick_code_ofs ofs) p) w (v\<lparr>am_quick := p\<rparr>)"
    and "updates ofs m (AssignOffset_ptr w m (jni_code_ofs ofs) p) w (v\<lparr>am_jni := p\<rparr>)"
proof -
  from l obtain af jc n where f: "af + 16 \<le> jc" "jc + 16 \<le> n" "n \<le> 2 ^ 32" and n: "n = unat (method_size_ofs ofs)"
    and o: "access_flags_ofs ofs = of_nat af" "dex_code_item_ofs ofs = of_nat (af + 4)"
    "hotness_count_ofs ofs = of_nat (af + 14)" "jni_code_ofs ofs = of_nat jc" "quick_code_ofs ofs = of_nat (jc + 8)"
    by (rule layout_fields)
  have acc: "accessible w (m + of_nat i) k" if "i + k \<le> n" for i k
    using v region_part [OF that] by (auto simp: method_at_def n accessible_iff)
  then have wr: "all_writable w k (m + of_nat i)" if "i + k \<le> n" for i k
    using that by (simp add: accessible_def)
  have keep: "only_writes (region m n) w (put w k (m + of_nat i) x)" if "i + k \<le> n" for i k x
    using put_only_writes [of "m + of_nat i" k w x] region_part [OF that] by (auto simp: only_writes_def)
  have acc': "accessible (put w k a x) m n" for k a x
    using v by (simp add: method_at_def accessible_def n)
  note other = ld_put_other regions_disjoint
  show "updates ofs m (AssignOffset_u4 w m (access_flags_ofs ofs) x) w (v\<lparr>am_flags := x\<rparr>)"
    using v f wr [of af 4] keep [of af 4] acc [of af 4] acc'
    by (simp add: updates_def AssignOffset_u4_def OffsetOf_def st_le_def method_at_def o n [symmetric] ld_put_same other del: of_nat_add)
  show "updates ofs m (AssignOffset_u4 w m (dex_code_item_ofs ofs) x) w (v\<lparr>am_dex := x\<rparr>)"
    using v f wr [of "af + 4" 4] keep [of "af + 4" 4] acc [of "af + 4" 4] acc'
    by (simp add: updates_def AssignOffset_u4_def OffsetOf_def st_le_def method_at_def o n [symmetric] ld_put_same other del: of_nat_add)
  show "updates ofs m (AssignOffset_u2 w m (hotness_count_ofs ofs) h) w (v\<lparr>am_hot := h\<rparr>)"
    using v f wr [of "af + 14" 2] keep [of "af + 14" 2] acc [of "af + 14" 2] acc'
    by (simp add: updates_def AssignOffset_u2_def OffsetOf_def st_le_def method_at_def o n [symmetric] ld_put_same other del: of_nat_add)
  show "updates ofs m (AssignOffset_ptr w m (quick_code_ofs ofs) p) w (v\<lparr>am_quick := p\<rparr>)"
    using v f wr [of "jc + 8" 8] keep [of "jc + 8" 8] acc [of "jc + 8" 8] acc'
    by (simp add: updates_def AssignOffset_ptr_def OffsetOf_def st_le_def method_at_def o n [symmetric] ld_put_same other del: of_nat_add)
  show "updates ofs m (AssignOffset_ptr w m (jni_code_ofs ofs) p) w (v\<lparr>am_jni := p\<rparr>)"
    using v f wr [of jc 8] keep [of jc 8] acc [of jc 8] acc'
    by (simp add: updates_def AssignOffset_ptr_def OffsetOf_def st_le_def method_at_def o n [symmetric] ld_put_same other del: of_nat_add)
qed

end
