(* ===== verification/ArtHookSpec.thy ===== *)
theory ArtHookSpec
  imports ArtSpec
begin

text \<open>
  \<open>Clone\<close>, \<open>Backup\<close> and \<open>Hook\<close> from Android N on, once the symbols have been found: what they do to the method, to its copy and
  to the table of hooked methods.
\<close>

section \<open>Copying memory\<close>

lemma ld_le_shift:
  "(\<And>i. i < k \<Longrightarrow> ld8 w' (a + of_nat i) = ld8 w (b + of_nat i)) \<Longrightarrow> ld_le w' k a = ld_le w k b"
proof (induction k arbitrary: a b)
  case (Suc k)
  have "ld8 w' a = ld8 w b" using Suc.prems [of 0] by simp
  moreover have "ld_le w' k (a + 1) = ld_le w k (b + 1)"
    using Suc.prems [of "Suc i" for i] by (intro Suc.IH) (simp add: add.assoc)
  ultimately show ?case by simp
qed simp

lemma region_Suc: "region a (Suc n) = insert a (region (a + 1) n)"
  by (auto simp: region_def lessThan_Suc_eq_insert_0 image_iff add.assoc)

lemma memcpy_works:
  assumes "all_readable w n src" "all_writable w n dst" "region dst n \<inter> region src n = {}" and "n \<le> 2 ^ 32"
  shows "\<exists>w'. memcpy w dst src n = Inr w' \<and> only_writes (region dst n) w w' \<and>
    (\<forall>i<n. mbytes w' (dst + of_nat i) = mbytes w (src + of_nat i))"
  using assms
proof (induction n arbitrary: w dst src)
  case (Suc n)
  define w1 where "w1 = put w 1 dst (ucast (mbytes w src))"
  have st: "ld8 w src = Inr (mbytes w src)" "st_le w 1 dst (ucast (mbytes w src)) = Inr w1"
    using Suc.prems by (simp_all add: ld8_def st_le_def w1_def)
  have "region (dst + 1) n \<inter> region (src + 1) n = {}" "n \<le> 2 ^ 32"
    using Suc.prems(3,4) by (auto simp: region_Suc)
  then obtain w' where w': "memcpy w1 (dst + 1) (src + 1) n = Inr w'" "only_writes (region (dst + 1) n) w1 w'"
    "\<forall>i<n. mbytes w' (dst + 1 + of_nat i) = mbytes w1 (src + 1 + of_nat i)"
    using Suc.IH [of w1 "src + 1" "dst + 1"] Suc.prems(1,2) by (auto simp: w1_def)
  have put: "mbytes w1 b = (if b = dst then mbytes w src else mbytes w b)" for b
  proof -
    have "ucast (ucast (mbytes w src) :: u64) = mbytes w src"
      by (rule bit_eqI) (auto simp: bit_simps dest: bit_imp_le_length)
    then show ?thesis by (simp add: w1_def put_def)
  qed
  have dst: "dst \<notin> region (dst + 1) n"
  proof
    assume "dst \<in> region (dst + 1) n"
    then obtain i where "i < n" "dst + of_nat 0 = dst + of_nat (Suc i)" by (auto simp: region_def add.assoc)
    then show False using add_of_nat_neq [of 0 "Suc i" dst] Suc.prems(4) by auto
  qed
  have "only_writes (region dst (Suc n)) w w'"
    using w'(2) by (simp add: only_writes_def region_Suc put) (simp add: w1_def)
  moreover have "mbytes w' (dst + of_nat i) = mbytes w (src + of_nat i)" if "i < Suc n" for i
  proof (cases i)
    case 0
    then show ?thesis using w'(2) dst by (simp add: only_writes_def put)
  next
    case (Suc j)
    have "src + 1 + of_nat j \<in> region src (Suc n)" "dst \<in> region dst (Suc n)"
      using that Suc by (simp_all add: region_Suc) (simp add: region_def)
    then have "src + 1 + of_nat j \<noteq> dst" using Suc.prems(3) by auto
    moreover have "mbytes w' (dst + 1 + of_nat j) = mbytes w1 (src + 1 + of_nat j)" using w'(3) that Suc by simp
    ultimately show ?thesis using Suc by (simp add: put add.assoc)
  qed
  ultimately show ?case using w'(1) st by auto
qed simp

lemma method_at_copy:
  assumes l: "layout_ok ofs" and v: "method_at ofs w m v" and acc: "accessible w' c (unat (method_size_ofs ofs))"
    and eq: "\<forall>i<unat (method_size_ofs ofs). mbytes w' (c + of_nat i) = mbytes w (m + of_nat i)"
  shows "method_at ofs w' c v"
proof -
  from l obtain af jc n where f: "af + 16 \<le> jc" "jc + 16 \<le> n" and n: "n = unat (method_size_ofs ofs)"
    and o: "access_flags_ofs ofs = of_nat af" "dex_code_item_ofs ofs = of_nat (af + 4)"
    "hotness_count_ofs ofs = of_nat (af + 14)" "jni_code_ofs ofs = of_nat jc" "quick_code_ofs ofs = of_nat (jc + 8)"
    by (rule layout_fields)
  have "ld8 w' (c + of_nat i) = ld8 w (m + of_nat i)" if "i < n" for i
    using acc v eq that by (auto simp: n ld8_def method_at_def accessible_def all_readable_iff)
  then have eq: "ld_le w' k (c + of_nat j) = ld_le w k (m + of_nat j)" if "j + k \<le> n" for j k
    using that by (intro ld_le_shift) (simp add: add.assoc flip: of_nat_add)
  show ?thesis
    using v f acc eq [of af 4] eq [of "af + 4" 4] eq [of "af + 14" 2] eq [of jc 8] eq [of "jc + 8" 8]
    by (simp add: method_at_def o ld16_def ld32_def ld64_def)
qed

lemma fix_profile_works:
  "accessible w p 20 \<Longrightarrow> \<forall>x\<in>set xs. unat x + 8 \<le> 20 \<Longrightarrow>
     \<exists>w'. fix_profile p m c xs w = Inr w' \<and> only_writes (region p 20) w w'"
proof (induction xs arbitrary: w)
  case (Cons x xs)
  have part: "region (p + x) 8 \<subseteq> region p 20"
    using region_part [of "unat x" 8 20 p] Cons.prems(2) by simp
  then have acc: "accessible w (p + x) 8"
    using Cons.prems(1) by (auto simp: accessible_iff)
  then obtain v where v: "MemberOf_ptr w p x = Inr v"
    using ld_le_total [of w 8 "p + x"] by (auto simp: MemberOf_ptr_def OffsetOf_def ld64_def accessible_def)
  let ?w = "if v = m then put w 8 (p + x) c else w"
  have st: "(if v = m then AssignOffset_ptr w p x c else Inr w) = Inr ?w"
    using acc by (simp add: AssignOffset_ptr_def OffsetOf_def st_le_def accessible_def)
  have "only_writes (region p 20) w ?w"
    using put_only_writes [of "p + x" 8 w c] part by (auto simp: only_writes_def)
  moreover have "accessible ?w p 20" using Cons.prems(1) by (simp add: accessible_def)
  then obtain w' where "fix_profile p m c xs ?w = Inr w'" "only_writes (region p 20) ?w w'"
    using Cons.IH [of ?w] Cons.prems(2) by auto
  ultimately show ?case using v st by (auto simp: only_writes_def)
qed simp

section \<open>A runtime that is ready\<close>

definition ready :: "art_offsets \<Rightarrow> int \<Rightarrow> art_symbols \<Rightarrow> art_bridges \<Rightarrow> art \<Rightarrow> bool" where
  "ready ofs level l b s \<longleftrightarrow> symbol_inited s \<and> symbol_list s = l \<and> bridge_inited s \<and> bridge_list s = b \<and>
     api_level s = level \<and> method_offset s = ofs \<and> layout_ok ofs"

lemma ready_set_mem [simp]: "ready ofs level l b (set_mem w s) = ready ofs level l b s"
  by (simp add: ready_def)

lemma ready_update [simp]:
  "ready ofs level l b (s\<lparr>vm_calls := cs\<rparr>) = ready ofs level l b s"
  "ready ofs level l b (s\<lparr>hooked_method_map := h\<rparr>) = ready ofs level l b s"
  by (simp_all add: ready_def)

lemma wp_ready:
  assumes "ready ofs level l b s"
  shows "wp (GetSymbol env) Q s = Q l s" "wp (GetBridgeList env) P s = P b s"
  using assms by (simp_all add: ready_def GetSymbol_def GetBridgeList_def)

lemma wp_getters:
  assumes "ready ofs level l b s" and "method_at ofs (mem s) m v"
  shows "wp (GetAccessFlags m) Q s = Q (am_flags v) s"
    and "wp (HasAccessFlags m x) P s = P (x AND am_flags v \<noteq> 0) s"
    and "wp (GetDexCodeItemOffset m) Q s = Q (am_dex v) s"
    and "wp (GetEntryPointFromQuickCompiledCode m) R s = R (am_quick v) s"
    and "wp (GetEntryPointFromJni m) R s = R (am_jni v) s"
  using assms
  by (simp_all add: ready_def method_at_def GetAccessFlags_def HasAccessFlags_def GetDexCodeItemOffset_def
      GetEntryPointFromQuickCompiledCode_def GetEntryPointFromJni_def field_u4_def field_ptr_def MemberOf_u4_def
      MemberOf_ptr_def OffsetOf_def)

lemma wp_setters:
  assumes r: "ready ofs level l b s" and v: "method_at ofs (mem s) m v"
  shows "(\<And>w. method_at ofs w m (v\<lparr>am_flags := x\<rparr>) \<Longrightarrow> only_writes (method_region ofs m) (mem s) w \<Longrightarrow> Q () (set_mem w s)) \<Longrightarrow>
      wp (SetAccessFlags m x) Q s"
    and "(\<And>w. method_at ofs w m (v\<lparr>am_dex := x\<rparr>) \<Longrightarrow> only_writes (method_region ofs m) (mem s) w \<Longrightarrow> Q () (set_mem w s)) \<Longrightarrow>
      wp (SetDexCodeItemOffset m x) Q s"
    and "(\<And>w. method_at ofs w m (v\<lparr>am_hot := h\<rparr>) \<Longrightarrow> only_writes (method_region ofs m) (mem s) w \<Longrightarrow> Q () (set_mem w s)) \<Longrightarrow>
      wp (SetHotnessCount m h) Q s"
    and "(\<And>w. method_at ofs w m (v\<lparr>am_quick := p\<rparr>) \<Longrightarrow> only_writes (method_region ofs m) (mem s) w \<Longrightarrow> Q () (set_mem w s)) \<Longrightarrow>
      wp (SetEntryPointFromQuickCompiledCode m p) Q s"
    and "(\<And>w. method_at ofs w m (v\<lparr>am_jni := p\<rparr>) \<Longrightarrow> only_writes (method_region ofs m) (mem s) w \<Longrightarrow> Q () (set_mem w s)) \<Longrightarrow>
      wp (SetEntryPointFromJni m p) Q s"
proof -
  have l: "layout_ok ofs" and o: "method_offset s = ofs" using r by (auto simp: ready_def)
  show "(\<And>w. method_at ofs w m (v\<lparr>am_flags := x\<rparr>) \<Longrightarrow> only_writes (method_region ofs m) (mem s) w \<Longrightarrow> Q () (set_mem w s)) \<Longrightarrow>
      wp (SetAccessFlags m x) Q s"
    using setters(1) [OF l v, of x] by (auto simp: updates_def SetAccessFlags_def set_u4_def o)
  show "(\<And>w. method_at ofs w m (v\<lparr>am_dex := x\<rparr>) \<Longrightarrow> only_writes (method_region ofs m) (mem s) w \<Longrightarrow> Q () (set_mem w s)) \<Longrightarrow>
      wp (SetDexCodeItemOffset m x) Q s"
    using setters(2) [OF l v, of x] by (auto simp: updates_def SetDexCodeItemOffset_def set_u4_def o)
  show "(\<And>w. method_at ofs w m (v\<lparr>am_hot := h\<rparr>) \<Longrightarrow> only_writes (method_region ofs m) (mem s) w \<Longrightarrow> Q () (set_mem w s)) \<Longrightarrow>
      wp (SetHotnessCount m h) Q s"
    using setters(3) [OF l v, of h] by (auto simp: updates_def SetHotnessCount_def o)
  show "(\<And>w. method_at ofs w m (v\<lparr>am_quick := p\<rparr>) \<Longrightarrow> only_writes (method_region ofs m) (mem s) w \<Longrightarrow> Q () (set_mem w s)) \<Longrightarrow>
      wp (SetEntryPointFromQuickCompiledCode m p) Q s"
    using setters(4) [OF l v, of p] by (auto simp: updates_def SetEntryPointFromQuickCompiledCode_def set_ptr_def o)
  show "(\<And>w. method_at ofs w m (v\<lparr>am_jni := p\<rparr>) \<Longrightarrow> only_writes (method_region ofs m) (mem s) w \<Longrightarrow> Q () (set_mem w s)) \<Longrightarrow>
      wp (SetEntryPointFromJni m p) Q s"
    using setters(5) [OF l v, of p] by (auto simp: updates_def SetEntryPointFromJni_def set_ptr_def o)
qed

section \<open>The runtime around a hook\<close>

text \<open>The memory in which \<open>Clone\<close> looks for pointers to a method that is not native: its profiling information.\<close>

definition profile_region :: "art_method \<Rightarrow> addr set" where
  "profile_region v = (if kAccNative AND am_flags v \<noteq> 0 \<or> am_jni v = 0 then {} else region (am_jni v) 20)"

definition kept :: "art_offsets \<Rightarrow> addr \<Rightarrow> art_method \<Rightarrow> addr set" where
  "kept ofs m v = method_region ofs m \<union> profile_region v"

text \<open>
  What the hook of the method \<open>v\<close> at \<open>m\<close> in memory \<open>w0\<close> relies on: \<open>malloc\<close> returns fresh memory \<open>c\<close>, \<open>CopyFrom\<close> copies the
  fields, and nothing that is called changes the method, its profiling information or the copy.
\<close>

definition runtime_ok :: "art_env \<Rightarrow> art_offsets \<Rightarrow> art_symbols \<Rightarrow> world \<Rightarrow> addr \<Rightarrow> art_method \<Rightarrow> addr \<Rightarrow> bool" where
  "runtime_ok env ofs l w0 m v c \<longleftrightarrow>
     method_at ofs w0 m v \<and> (profile_region v \<noteq> {} \<longrightarrow> accessible w0 (am_jni v) 20) \<and>
     method_region ofs c \<inter> kept ofs m v = {} \<and> profile_region v \<inter> method_region ofs m = {} \<and>
     (\<forall>f\<in>{suspend_vm l, force_process_profiles l, resume_vm l}. \<forall>w.
        agree (kept ofs m v \<union> method_region ofs c) w (call_void env f w)) \<and>
     (\<forall>w. agree (kept ofs m v) w0 w \<longrightarrow>
        (case art_malloc env w (method_size_ofs ofs) of (c', w1) \<Rightarrow>
           c' = c \<and> accessible w1 c (unat (method_size_ofs ofs)) \<and> agree (kept ofs m v) w w1)) \<and>
     (method_copy_from l \<noteq> 0 \<longrightarrow> (\<forall>w. agree (kept ofs m v) w0 w \<and> accessible w c (unat (method_size_ofs ofs)) \<longrightarrow>
        (let w2 = call_copy_from env (method_copy_from l) c m 8 w in method_at ofs w2 c v \<and> agree (kept ofs m v) w w2)))"

definition cloned :: "int \<Rightarrow> art_bridges \<Rightarrow> art_method \<Rightarrow> art_method" where
  "cloned level b v = v\<lparr>am_flags := clone_flags level (am_flags v), am_hot := 0,
     am_quick := (if \<not> kAccNative AND am_flags v \<noteq> 0 \<and> quick_to_interpreter b \<noteq> 0
       then quick_to_interpreter b else am_quick v)\<rparr>"

lemma runtime_okD:
  assumes "runtime_ok env ofs l w0 m v c"
  shows "method_at ofs w0 m v" "method_region ofs c \<inter> kept ofs m v = {}" "method_region ofs c \<inter> method_region ofs m = {}"
    "profile_region v \<inter> method_region ofs m = {}" "profile_region v \<inter> method_region ofs c = {}"
    "profile_region v \<noteq> {} \<Longrightarrow> accessible w0 (am_jni v) 20"
  using assms by (auto simp: runtime_ok_def kept_def)

lemma runtime_ok_method:
  assumes "layout_ok ofs" "runtime_ok env ofs l w0 m v c" "agree (kept ofs m v) w0 w"
  shows "method_at ofs w m v"
  by (rule method_at_agree [OF assms(1) runtime_okD(1) [OF assms(2)] agree_subset [OF assms(3)]]) (simp add: kept_def)

lemma runtime_ok_malloc:
  assumes "runtime_ok env ofs l w0 m v c" and "agree (kept ofs m v) w0 w"
  obtains w1 where "art_malloc env w (method_size_ofs ofs) = (c, w1)"
    and "accessible w1 c (unat (method_size_ofs ofs))" and "agree (kept ofs m v) w w1"
  using assms by (cases "art_malloc env w (method_size_ofs ofs)") (auto simp: runtime_ok_def)

lemma runtime_ok_copy:
  assumes "runtime_ok env ofs l w0 m v c" "method_copy_from l \<noteq> 0" "agree (kept ofs m v) w0 w"
    "accessible w c (unat (method_size_ofs ofs))"
  shows "method_at ofs (call_copy_from env (method_copy_from l) c m 8 w) c v"
    "agree (kept ofs m v) w (call_copy_from env (method_copy_from l) c m 8 w)"
  using assms by (auto simp: runtime_ok_def Let_def)

text \<open>Copying without \<open>CopyFrom\<close>.\<close>

lemma memcpy_method:
  assumes l: "layout_ok ofs" and ok: "runtime_ok env ofs l w0 m v c" and w: "agree (kept ofs m v) w0 w"
    and acc: "accessible w c (unat (method_size_ofs ofs))"
  shows "\<exists>w2. memcpy w c m (unat (method_size_ofs ofs)) = Inr w2 \<and> method_at ofs w2 c v \<and> agree (kept ofs m v) w w2"
proof -
  let ?n = "unat (method_size_ofs ofs)"
  note m = runtime_ok_method [OF l ok w]
  have "all_readable w ?n m" "all_writable w ?n c" "?n \<le> 2 ^ 32"
    using m acc l by (auto simp: method_at_def accessible_def layout_ok_def)
  then obtain w2 where w2: "memcpy w c m ?n = Inr w2" "only_writes (method_region ofs c) w w2"
    "\<forall>i<?n. mbytes w2 (c + of_nat i) = mbytes w (m + of_nat i)"
    using memcpy_works [of w ?n m c] runtime_okD(3) [OF ok] by auto
  have "mprot w2 = mprot w" using w2(2) by (simp add: only_writes_def)
  then have "accessible w2 c ?n"
    using acc all_readable_cong [of w2 w] all_writable_cong [of w2 w] by (simp add: accessible_def)
  then have "method_at ofs w2 c v" by (rule method_at_copy [OF l m _ w2(3)])
  then show ?thesis using w2(1) only_writes_agree [OF w2(2) runtime_okD(2) [OF ok]] by blast
qed

lemma copy_method_wp:
  assumes r: "ready ofs level l b s" and n: "ANDROID_N \<le> level" and ok: "runtime_ok env ofs l w0 m v c"
    and w0: "agree (kept ofs m v) w0 (mem s)"
  shows "wp (copy_method env l m) (\<lambda>x s'. x = c \<and> (\<exists>w. s' = set_mem w s \<and> method_at ofs w c v \<and>
    agree (kept ofs m v) (mem s) w)) s"
proof -
  have st: "api_level s = level" "method_offset s = ofs" "layout_ok ofs" "\<not> level < ANDROID_M"
    using r n by (auto simp: ready_def android_defs)
  obtain w1 where w1: "art_malloc env (mem s) (method_size_ofs ofs) = (c, w1)"
    "accessible w1 c (unat (method_size_ofs ofs))" "agree (kept ofs m v) (mem s) w1"
    by (rule runtime_ok_malloc [OF ok w0])
  note w01 = agree_trans [OF w0 w1(3)]
  show ?thesis
  proof (cases "method_copy_from l = 0")
    case False
    note copy = runtime_ok_copy [OF ok False w01 w1(2)]
    show ?thesis
      using False copy(1) agree_trans [OF w1(3) copy(2)] by (simp add: copy_method_def st w1(1)) blast
  next
    case True
    obtain w2 where "memcpy w1 c m (unat (method_size_ofs ofs)) = Inr w2" "method_at ofs w2 c v" "agree (kept ofs m v) w1 w2"
      using memcpy_method [OF st(3) ok w01 w1(2)] by blast
    then show ?thesis
      using True agree_trans [OF w1(3), of w2] by (simp add: copy_method_def st w1(1)) blast
  qed
qed

text \<open>What the steps after it do to the copy \<open>u\<close>; they leave the method alone.\<close>

definition copy_at :: "art \<Rightarrow> art_offsets \<Rightarrow> addr \<Rightarrow> addr set \<Rightarrow> art_method \<Rightarrow> art \<Rightarrow> bool" where
  "copy_at s ofs c K u s' \<longleftrightarrow> (\<exists>w. s' = set_mem w s \<and> method_at ofs w c u \<and> agree K (mem s) w)"

lemma copy_at_set:
  assumes "copy_at s ofs c K u s1" "method_at ofs w c u'" "only_writes R (mem s1) w" "R \<inter> K = {}"
  shows "copy_at s ofs c K u' (set_mem w s1)"
proof -
  obtain w1 where w1: "s1 = set_mem w1 s" "agree K (mem s) w1" using assms(1) by (auto simp: copy_at_def)
  have "agree K (mem s) w" using agree_trans [OF w1(2)] only_writes_agree [OF assms(3,4)] w1(1) by simp
  then show ?thesis using assms(2) w1(1) by (auto simp: copy_at_def)
qed

lemma copy_at_agree: "copy_at s ofs c K u s1 \<Longrightarrow> agree K (mem s) (mem s1)"
  by (auto simp: copy_at_def)

lemma copy_at_ready:
  assumes "ready ofs level l b s" "copy_at s ofs c K u s1"
  shows "ready ofs level l b s1" "method_at ofs (mem s1) c u"
  using assms by (auto simp: copy_at_def)

lemma copy_at_subset: "copy_at s ofs c K u s1 \<Longrightarrow> L \<subseteq> K \<Longrightarrow> copy_at s ofs c L u s1"
  using agree_subset by (auto simp: copy_at_def)

lemma offsets_of_4: "\<forall>x\<in>set (offsets_of 0 4 4). unat x + 8 \<le> 20"
  by (simp add: offsets_of_def upt_rec)

lemma clone_profile_wp:
  assumes r: "ready ofs level l b s" and n: "ANDROID_N \<le> level" and ok: "runtime_ok env ofs l w0 m v c"
    and w0: "agree (kept ofs m v) w0 (mem s)" and s1: "copy_at s ofs c (kept ofs m v) v s1"
  shows "wp (clone_profile m c (kAccNative AND am_flags v \<noteq> 0))
    (\<lambda>_. copy_at s ofs c (method_region ofs m) (v\<lparr>am_hot := 0\<rparr>)) s1"
proof -
  have l: "layout_ok ofs" and lv: "api_level s1 = level"
    using r copy_at_ready(1) [OF r s1] by (auto simp: ready_def)
  let ?rest = "\<lambda>s2. wp (if kAccNative AND am_flags v \<noteq> 0 then retE () else
         bindE (GetEntryPointFromJni m) (\<lambda>info.
         if info = 0 then retE () else writeE (fix_profile info m c (offsets_of 0 4 4))))
       (\<lambda>_. copy_at s ofs c (method_region ofs m) (v\<lparr>am_hot := 0\<rparr>)) s2"
  have "?rest (set_mem w s1)" if w: "method_at ofs w c (v\<lparr>am_hot := 0\<rparr>)" "only_writes (method_region ofs c) (mem s1) w" for w
  proof -
    let ?s2 = "set_mem w s1"
    note s2 = copy_at_set [OF s1 w runtime_okD(2) [OF ok]]
    have ag: "agree (kept ofs m v) w0 w" using agree_trans [OF w0 copy_at_agree [OF s2]] by simp
    have m2: "method_at ofs (mem ?s2) m v" using runtime_ok_method [OF l ok ag] by simp
    note get = wp_getters(5) [OF copy_at_ready(1) [OF r s2] m2]
    have small: "copy_at s ofs c (method_region ofs m) (v\<lparr>am_hot := 0\<rparr>) ?s2"
      by (rule copy_at_subset [OF s2]) (simp add: kept_def)
    show ?thesis
    proof (cases "kAccNative AND am_flags v \<noteq> 0 \<or> am_jni v = 0")
      case True
      then show ?thesis using small by (auto simp: get)
    next
      case False
      then have p: "profile_region v = region (am_jni v) 20" by (simp add: profile_region_def)
      then have "profile_region v \<noteq> {}" by (simp add: region_def lessThan_empty_iff)
      then have "accessible w0 (am_jni v) 20" by (rule runtime_okD(6) [OF ok])
      then have "accessible w (am_jni v) 20"
        using accessible_agree [OF agree_subset [OF ag]] p by (simp add: kept_def)
      then obtain w' where w': "fix_profile (am_jni v) m c (offsets_of 0 4 4) w = Inr w'" "only_writes (profile_region v) w w'"
        using fix_profile_works offsets_of_4 p by metis
      have "method_at ofs w' c (v\<lparr>am_hot := 0\<rparr>)"
        using only_writes_agree [OF w'(2) runtime_okD(5) [OF ok]] by (rule method_at_agree [OF l w(1)])
      then have "copy_at s ofs c (method_region ofs m) (v\<lparr>am_hot := 0\<rparr>) (set_mem w' ?s2)"
        using copy_at_set [OF small _ _ runtime_okD(4) [OF ok]] w'(2) by simp
      then show ?thesis using False w'(1) by (simp add: get)
    qed
  qed
  then have "wp (SetHotnessCount c 0) (\<lambda>_. ?rest) s1"
    by (rule wp_setters(3) [OF copy_at_ready [OF r s1]])
  then show ?thesis using n lv by (simp add: clone_profile_def)
qed

lemma clone_entry_wp:
  assumes r: "ready ofs level l b s" and s1: "copy_at s ofs c K u s1" and K: "method_region ofs c \<inter> K = {}"
  shows "wp (clone_entry env c is_native)
    (\<lambda>_. copy_at s ofs c K (if \<not> is_native \<and> quick_to_interpreter b \<noteq> 0
       then u\<lparr>am_quick := quick_to_interpreter b\<rparr> else u)) s1"
proof -
  note r1 = copy_at_ready [OF r s1]
  show ?thesis
  proof (cases "\<not> is_native \<and> quick_to_interpreter b \<noteq> 0")
    case True
    have "wp (SetEntryPointFromQuickCompiledCode c (quick_to_interpreter b))
        (\<lambda>_. copy_at s ofs c K (u\<lparr>am_quick := quick_to_interpreter b\<rparr>)) s1"
      using copy_at_set [OF s1 _ _ K] by (intro wp_setters(4) [OF r1])
    then show ?thesis using True by (simp add: clone_entry_def wp_ready [OF r1(1)])
  qed (use s1 in \<open>auto simp: clone_entry_def wp_ready [OF r1(1)]\<close>)
qed

lemma Clone_wp:
  assumes r: "ready ofs level l b s" and n: "ANDROID_N \<le> level" and ok: "runtime_ok env ofs l w0 m v c"
    and w0: "agree (kept ofs m v) w0 (mem s)"
  shows "wp (Clone env m) (\<lambda>x s'. x = c \<and> copy_at s ofs c (method_region ofs m) (cloned level b v) s') s"
proof -
  let ?native = "kAccNative AND am_flags v \<noteq> 0"
  define u where "u = (if \<not> ?native \<and> quick_to_interpreter b \<noteq> 0
     then v\<lparr>am_hot := 0, am_quick := quick_to_interpreter b\<rparr> else v\<lparr>am_hot := 0\<rparr>)"
  have l: "layout_ok ofs" using r by (simp add: ready_def)
  have last: "wp (bindE (getE api_level) (\<lambda>level. bindE (SetAccessFlags c (clone_flags level (am_flags v))) (\<lambda>_. retE c)))
      (\<lambda>x s'. x = c \<and> copy_at s ofs c (method_region ofs m) (cloned level b v) s') s1"
    if s1: "copy_at s ofs c (method_region ofs m) u s1" for s1
  proof -
    have "api_level s1 = level" using copy_at_ready(1) [OF r s1] by (simp add: ready_def)
    moreover have "cloned level b v = u\<lparr>am_flags := clone_flags level (am_flags v)\<rparr>" by (simp add: cloned_def u_def)
    ultimately show ?thesis
      using copy_at_set [OF s1 _ _ runtime_okD(3) [OF ok]]
      by simp (rule wp_setters(1) [OF copy_at_ready [OF r s1]], simp)
  qed
  have tail: "wp (bindE (GetAccessFlags m) (\<lambda>access_flags. bindE (HasAccessFlags m kAccNative) (\<lambda>is_native.
       bindE (clone_profile m c is_native) (\<lambda>_. bindE (clone_entry env c is_native) (\<lambda>_.
       bindE (getE api_level) (\<lambda>level. bindE (SetAccessFlags c (clone_flags level access_flags)) (\<lambda>_. retE c)))))))
      (\<lambda>x s'. x = c \<and> copy_at s ofs c (method_region ofs m) (cloned level b v) s') s1"
    if s1: "copy_at s ofs c (kept ofs m v) v s1" for s1
  proof -
    note m1 = runtime_ok_method [OF l ok agree_trans [OF w0 copy_at_agree [OF s1]]]
    have "wp (clone_profile m c ?native) (\<lambda>_ s2. wp (clone_entry env c ?native) (\<lambda>_ s3.
        wp (bindE (getE api_level) (\<lambda>level. bindE (SetAccessFlags c (clone_flags level (am_flags v))) (\<lambda>_. retE c)))
          (\<lambda>x s'. x = c \<and> copy_at s ofs c (method_region ofs m) (cloned level b v) s') s3) s2) s1"
      by (rule wp_mono [OF clone_profile_wp [OF r n ok w0 s1]], rule wp_mono [OF clone_entry_wp [OF r _ runtime_okD(3) [OF ok]]],
          assumption, rule last, simp add: u_def)
    then show ?thesis by (simp add: wp_getters [OF copy_at_ready(1) [OF r s1] m1])
  qed
  have "wp (copy_method env l m) (\<lambda>x s1. x = c \<and> copy_at s ofs c (kept ofs m v) v s1) s"
    using copy_method_wp [OF assms] by (simp add: copy_at_def)
  then show ?thesis
    unfolding Clone_def wp_bind wp_ready [OF r] by (rule wp_mono) (use tail in simp)
qed

end
