(* ===== verification/ArtHook.thy ===== *)
theory ArtHook
  imports ArtHookSpec
begin

text \<open>
  \<open>Backup\<close> and \<open>Hook\<close> on the abstract view of a method: the state during a hook (\<open>hook_state\<close>), one rule per step, and their
  composition.
\<close>

section \<open>The state during a hook\<close>

text \<open>The method is at \<open>m\<close>, its copy \<open>u\<close> at \<open>c\<close>; \<open>h\<close> is the table of hooked methods and \<open>calls\<close> the history of runtime calls.\<close>

definition hook_state ::
  "art_offsets \<Rightarrow> int \<Rightarrow> art_symbols \<Rightarrow> art_bridges \<Rightarrow> addr \<Rightarrow> addr \<Rightarrow> art_method \<Rightarrow> (addr \<Rightarrow> art_key option) \<Rightarrow> addr list \<Rightarrow>
     art_method \<Rightarrow> art \<Rightarrow> bool" where
  "hook_state ofs level l b m c u h calls v s \<longleftrightarrow> ready ofs level l b s \<and> method_at ofs (mem s) m v \<and>
     method_at ofs (mem s) c u \<and> method_region ofs m \<inter> method_region ofs c = {} \<and> hooked_method_map s = h \<and> vm_calls s = calls"

lemma hook_stateD:
  assumes "hook_state ofs level l b m c u h calls v s"
  shows "ready ofs level l b s" "method_at ofs (mem s) m v" "method_at ofs (mem s) c u" "hooked_method_map s = h"
    "vm_calls s = calls" "api_level s = level"
  using assms by (simp_all add: hook_state_def ready_def)

lemma hook_state_write:
  assumes "hook_state ofs level l b m c u h calls v s" "method_at ofs w m v'" "only_writes (method_region ofs m) (mem s) w"
  shows "hook_state ofs level l b m c u h calls v' (set_mem w s)"
proof -
  have "agree (method_region ofs c) (mem s) w" "layout_ok ofs"
    using assms(1) only_writes_agree [OF assms(3)] by (auto simp: hook_state_def ready_def)
  then have "method_at ofs w c u" by (metis method_at_agree hook_stateD(3) [OF assms(1)])
  then show ?thesis using assms(1,2) by (simp add: hook_state_def)
qed

lemma hook_steps:
  assumes s: "hook_state ofs level l b m c u h calls v s"
  shows "(\<And>s'. hook_state ofs level l b m c u h calls (v\<lparr>am_dex := x\<rparr>) s' \<Longrightarrow> Q () s') \<Longrightarrow> wp (SetDexCodeItemOffset m x) Q s"
    and "(\<And>s'. hook_state ofs level l b m c u h calls (v\<lparr>am_hot := y\<rparr>) s' \<Longrightarrow> Q () s') \<Longrightarrow> wp (SetHotnessCount m y) Q s"
    and "(\<And>s'. hook_state ofs level l b m c u h calls (v\<lparr>am_quick := p\<rparr>) s' \<Longrightarrow> Q () s') \<Longrightarrow>
      wp (SetEntryPointFromQuickCompiledCode m p) Q s"
    and "(\<And>s'. hook_state ofs level l b m c u h calls (v\<lparr>am_jni := p\<rparr>) s' \<Longrightarrow> Q () s') \<Longrightarrow> wp (SetEntryPointFromJni m p) Q s"
    and "(\<And>s'. hook_state ofs level l b m c u h calls (v\<lparr>am_flags := am_flags v OR f\<rparr>) s' \<Longrightarrow> Q () s') \<Longrightarrow>
      wp (AddAccessFlags m f) Q s"
    and "(\<And>s'. hook_state ofs level l b m c u h calls (v\<lparr>am_flags := am_flags v AND NOT f\<rparr>) s' \<Longrightarrow> Q () s') \<Longrightarrow>
      wp (RemoveAccessFlags m f) Q s"
proof -
  note w = hook_state_write [OF s]
  note set = wp_setters [OF hook_stateD(1,2) [OF s]]
  note get = wp_getters [OF hook_stateD(1,2) [OF s]]
  show "(\<And>s'. hook_state ofs level l b m c u h calls (v\<lparr>am_dex := x\<rparr>) s' \<Longrightarrow> Q () s') \<Longrightarrow> wp (SetDexCodeItemOffset m x) Q s"
    by (rule set(2)) (blast intro: w)
  show "(\<And>s'. hook_state ofs level l b m c u h calls (v\<lparr>am_hot := y\<rparr>) s' \<Longrightarrow> Q () s') \<Longrightarrow> wp (SetHotnessCount m y) Q s"
    by (rule set(3)) (blast intro: w)
  show "(\<And>s'. hook_state ofs level l b m c u h calls (v\<lparr>am_quick := p\<rparr>) s' \<Longrightarrow> Q () s') \<Longrightarrow>
      wp (SetEntryPointFromQuickCompiledCode m p) Q s"
    by (rule set(4)) (blast intro: w)
  show "(\<And>s'. hook_state ofs level l b m c u h calls (v\<lparr>am_jni := p\<rparr>) s' \<Longrightarrow> Q () s') \<Longrightarrow> wp (SetEntryPointFromJni m p) Q s"
    by (rule set(5)) (blast intro: w)
  show "(\<And>s'. hook_state ofs level l b m c u h calls (v\<lparr>am_flags := am_flags v OR f\<rparr>) s' \<Longrightarrow> Q () s') \<Longrightarrow>
      wp (AddAccessFlags m f) Q s"
    unfolding AddAccessFlags_def wp_bind get by (rule set(1)) (blast intro: w)
  show "(\<And>s'. hook_state ofs level l b m c u h calls (v\<lparr>am_flags := am_flags v AND NOT f\<rparr>) s' \<Longrightarrow> Q () s') \<Longrightarrow>
      wp (RemoveAccessFlags m f) Q s"
    unfolding RemoveAccessFlags_def wp_bind get by (rule set(1)) (blast intro: w)
qed

lemma hook_gets:
  assumes s: "hook_state ofs level l b m c u h calls v s"
  shows "(hook_state ofs level l b m c u h calls v s \<Longrightarrow> P l s) \<Longrightarrow> wp (GetSymbol env) P s"
    and "(hook_state ofs level l b m c u h calls v s \<Longrightarrow> R b s) \<Longrightarrow> wp (GetBridgeList env) R s"
    and "(hook_state ofs level l b m c u h calls v s \<Longrightarrow> S (x AND am_flags v \<noteq> 0) s) \<Longrightarrow> wp (HasAccessFlags m x) S s"
    and "(hook_state ofs level l b m c u h calls v s \<Longrightarrow> T level s) \<Longrightarrow> wp (getE api_level) T s"
  using wp_ready [OF hook_stateD(1) [OF s]] wp_getters(2) [OF hook_stateD(1,2) [OF s]] hook_stateD(6) [OF s] s
  by simp_all

section \<open>Calls of the runtime\<close>

text \<open>The calls that suspend and resume the VM, which are made when both functions have been found.\<close>

definition vm_call :: "art_symbols \<Rightarrow> addr \<Rightarrow> addr list" where
  "vm_call l f = (if suspend_vm l \<noteq> 0 \<and> resume_vm l \<noteq> 0 then [f] else [])"

definition force_call :: "art_symbols \<Rightarrow> addr list" where
  "force_call l = (if force_process_profiles l \<noteq> 0 then [force_process_profiles l] else [])"

lemma ManualControl_wp:
  assumes "ready ofs level l b s"
  shows "wp (ManualControl env suspend) Q s =
    (case vm_call l (if suspend then suspend_vm l else resume_vm l) of [] \<Rightarrow> Q () s
     | f # _ \<Rightarrow> Q () ((set_mem (call_void env f (mem s)) s)\<lparr>vm_calls := vm_calls s @ [f]\<rparr>))"
  by (simp add: ManualControl_def wp_ready [OF assms] vm_call_def vmcallE_def)

definition quiet :: "art_env \<Rightarrow> art_symbols \<Rightarrow> addr set \<Rightarrow> bool" where
  "quiet env l R \<longleftrightarrow> (\<forall>f\<in>{suspend_vm l, force_process_profiles l, resume_vm l}. \<forall>w. agree R w (call_void env f w))"

lemma runtime_ok_quiet: "runtime_ok env ofs l w0 m v c \<Longrightarrow> quiet env l (kept ofs m v \<union> method_region ofs c)"
  by (simp add: runtime_ok_def quiet_def)

lemma hook_state_call:
  assumes s: "hook_state ofs level l b m c u h calls v s" and q: "quiet env l (method_region ofs m \<union> method_region ofs c)"
    and f: "f \<in> {suspend_vm l, force_process_profiles l, resume_vm l}"
  shows "hook_state ofs level l b m c u h (calls @ [f]) v
    ((set_mem (call_void env f (mem s)) s)\<lparr>vm_calls := vm_calls s @ [f]\<rparr>)"
proof -
  let ?w = "call_void env f (mem s)"
  have "agree (method_region ofs m \<union> method_region ofs c) (mem s) ?w" using q f unfolding quiet_def by blast
  then have ag: "agree (method_region ofs m) (mem s) ?w" "agree (method_region ofs c) (mem s) ?w"
    by (auto intro: agree_subset)
  have "layout_ok ofs" using s by (simp add: hook_state_def ready_def)
  note at = method_at_agree [OF this hook_stateD(2) [OF s] ag(1)] method_at_agree [OF this hook_stateD(3) [OF s] ag(2)]
  then show ?thesis using s by (simp add: hook_state_def)
qed

section \<open>The result\<close>

definition hooked_flags :: "int \<Rightarrow> u32 \<Rightarrow> u32" where
  "hooked_flags level flags =
     (let f = flags OR (if level < ANDROID_O_MR1 then kAccCompileDontBother_N
                        else kAccCompileDontBother_O_MR1 OR kAccPreviouslyWarm_O_MR1);
          f = f OR (kAccNative OR kAccFastNative)
      in if level \<ge> ANDROID_P then f AND NOT kAccCriticalNative_P else f)"

definition hooked :: "int \<Rightarrow> art_bridges \<Rightarrow> addr \<Rightarrow> art_method \<Rightarrow> art_method" where
  "hooked level b replace v = v\<lparr>am_flags := hooked_flags level (am_flags v), am_dex := 0, am_hot := 0,
     am_quick := quick_to_jni_bridge b, am_jni := replace\<rparr>"

definition backup_key :: "addr \<Rightarrow> art_method \<Rightarrow> addr \<Rightarrow> art_key" where
  "backup_key cls v c = \<lparr>key_decl_class = cls, key_access_flags = am_flags v, key_dex_code_item_offset = am_dex v,
     key_quick_code = am_quick v, key_interpreter_code = cls, key_jni_code = am_jni v, key_original_method = c\<rparr>"

definition add_key :: "addr \<Rightarrow> art_key \<Rightarrow> (addr \<Rightarrow> art_key option) \<Rightarrow> addr \<Rightarrow> art_key option" where
  "add_key m key h = (case h m of None \<Rightarrow> h(m \<mapsto> key) | Some _ \<Rightarrow> h)"

text \<open>\<open>Backup\<close>, when what ran before it has left the method as it was.\<close>

lemma Backup_wp:
  assumes r: "ready ofs level l b s" and n: "ANDROID_N \<le> level" and ok: "runtime_ok env ofs l w0 m v c"
    and w0: "agree (kept ofs m v) w0 (mem s)" and cls: "ld64 w0 m = Inr cls"
  shows "wp (Backup env m) (\<lambda>_. hook_state ofs level l b m c (cloned level b v)
    (add_key m (backup_key cls v c) (hooked_method_map s)) (vm_calls s) v) s"
proof -
  have l: "layout_ok ofs" "method_offset s = ofs" using r by (simp_all add: ready_def)
  note m = runtime_ok_method [OF l(1) ok w0]
  have "agree (region m 8) w0 (mem s)"
  proof (rule agree_subset [OF w0])
    have "0 + 8 \<le> unat (method_size_ofs ofs)" using l(1) by (simp add: layout_ok_def)
    from region_part [OF this, of m] show "region m 8 \<subseteq> kept ofs m v" by (auto simp: kept_def)
  qed
  then have "ld64 (mem s) m = Inr cls" using cls by (simp add: ld_agree)
  then have first: "wp (GetDeclaringClass m) P s = P cls s" "wp (GetEntryPointFromInterpreterCode m) P s = P cls s" for P
    using l by (simp_all add: GetDeclaringClass_def GetEntryPointFromInterpreterCode_def field_ptr_def MemberOf_ptr_def
        OffsetOf_def layout_ok_def)
  have last: "hook_state ofs level l b m c (cloned level b v) (add_key m (backup_key cls v c) (hooked_method_map s)) (vm_calls s) v
      (case hooked_method_map s' m of
         None \<Rightarrow> s'\<lparr>hooked_method_map := (hooked_method_map s')(m \<mapsto> backup_key cls v c)\<rparr> | Some _ \<Rightarrow> s')"
    if s': "copy_at s ofs c (method_region ofs m) (cloned level b v) s'" for s'
  proof -
    have "method_at ofs (mem s') m v" by (rule method_at_agree [OF l(1) m copy_at_agree [OF s']])
    moreover have "hooked_method_map s' = hooked_method_map s" "vm_calls s' = vm_calls s" using s' by (auto simp: copy_at_def)
    ultimately show ?thesis
      using copy_at_ready [OF r s'] runtime_okD(3) [OF ok]
      by (auto simp: hook_state_def add_key_def Int_commute split: option.split)
  qed
  have "wp (Clone env m) (\<lambda>orig s'. hook_state ofs level l b m c (cloned level b v)
      (add_key m (backup_key cls v c) (hooked_method_map s)) (vm_calls s) v
      (case hooked_method_map s' m of
         None \<Rightarrow> s'\<lparr>hooked_method_map := (hooked_method_map s')(m \<mapsto> backup_key cls v orig)\<rparr> | Some _ \<Rightarrow> s')) s"
    by (rule wp_mono [OF Clone_wp [OF r n ok w0]]) (use last in auto)
  then show ?thesis
    by (simp add: Backup_def first wp_getters [OF r m] backup_key_def Let_def cong: option.case_cong)
qed

text \<open>The steps of \<open>Hook\<close> after \<open>Backup\<close>.\<close>

definition hook_tail :: "art_env \<Rightarrow> addr \<Rightarrow> addr \<Rightarrow> unit art_eff" where
  "hook_tail env m replace =
     bindE (GetSymbol env) (\<lambda>l.
     bindE (if force_process_profiles l \<noteq> 0 then vmcallE env (force_process_profiles l) else retE ()) (\<lambda>_.
     bindE (SetDexCodeItemOffset m 0) (\<lambda>_.
     bindE (getE api_level) (\<lambda>level.
     bindE (if level < ANDROID_O_MR1 then AddAccessFlags m kAccCompileDontBother_N
            else bindE (AddAccessFlags m kAccCompileDontBother_O_MR1) (\<lambda>_.
              AddAccessFlags m kAccPreviouslyWarm_O_MR1)) (\<lambda>_.
     bindE (if level > ANDROID_P then bindE (HasAccessFlags m kAccAbstract) (\<lambda>a. retE (\<not> a)) else retE False)
       (\<lambda>is_pie_abstract.
     bindE (if is_pie_abstract \<or> level \<ge> ANDROID_N then SetHotnessCount m 0 else retE ()) (\<lambda>_.
     bindE (AddAccessFlags m kAccNative) (\<lambda>_.
     bindE (AddAccessFlags m kAccFastNative) (\<lambda>_.
     bindE (if level \<ge> ANDROID_P then RemoveAccessFlags m kAccCriticalNative_P else retE ()) (\<lambda>_.
     bindE (GetBridgeList env) (\<lambda>b.
     bindE (SetEntryPointFromQuickCompiledCode m (quick_to_jni_bridge b)) (\<lambda>_.
     bindE (if level < ANDROID_N \<and> interpreter_to_compiled_code b \<noteq> 0
            then SetEntryPointFromInterpreterCode m (interpreter_to_compiled_code b) else retE ()) (\<lambda>_.
     bindE (SetEntryPointFromJni m replace) (\<lambda>_.
     ManualControl env False))))))))))))))"

lemma Hook_tail: "Hook env m replace = bindE (ManualControl env True) (\<lambda>_. bindE (Backup env m) (\<lambda>_. hook_tail env m replace))"
  by (simp add: Hook_def hook_tail_def)

text \<open>The parts of it that depend on the API level.\<close>

lemma hook_parts:
  assumes s: "hook_state ofs level l b m c u h calls v s" and n: "ANDROID_N \<le> level"
    and q: "quiet env l (method_region ofs m \<union> method_region ofs c)"
  shows "(\<And>s'. hook_state ofs level l b m c u h (calls @ force_call l) v s' \<Longrightarrow> Q () s') \<Longrightarrow>
      wp (if force_process_profiles l \<noteq> 0 then vmcallE env (force_process_profiles l) else retE ()) Q s"
    and "(\<And>s'. hook_state ofs level l b m c u h calls (v\<lparr>am_flags := am_flags v OR
        (if level < ANDROID_O_MR1 then kAccCompileDontBother_N else kAccCompileDontBother_O_MR1 OR kAccPreviouslyWarm_O_MR1)\<rparr>) s'
        \<Longrightarrow> Q () s') \<Longrightarrow>
      wp (if level < ANDROID_O_MR1 then AddAccessFlags m kAccCompileDontBother_N
          else bindE (AddAccessFlags m kAccCompileDontBother_O_MR1) (\<lambda>_. AddAccessFlags m kAccPreviouslyWarm_O_MR1)) Q s"
    and "(\<And>p. hook_state ofs level l b m c u h calls v s \<Longrightarrow> R p s) \<Longrightarrow>
      wp (if level > ANDROID_P then bindE (HasAccessFlags m kAccAbstract) (\<lambda>a. retE (\<not> a)) else retE False) R s"
    and "(\<And>s'. hook_state ofs level l b m c u h calls (v\<lparr>am_hot := 0\<rparr>) s' \<Longrightarrow> Q () s') \<Longrightarrow>
      wp (if p \<or> level \<ge> ANDROID_N then SetHotnessCount m 0 else retE ()) Q s"
    and "(\<And>s'. hook_state ofs level l b m c u h calls
        (v\<lparr>am_flags := if level \<ge> ANDROID_P then am_flags v AND NOT kAccCriticalNative_P else am_flags v\<rparr>) s' \<Longrightarrow> Q () s') \<Longrightarrow>
      wp (if level \<ge> ANDROID_P then RemoveAccessFlags m kAccCriticalNative_P else retE ()) Q s"
    and "(hook_state ofs level l b m c u h calls v s \<Longrightarrow> Q () s) \<Longrightarrow>
      wp (if level < ANDROID_N \<and> interpreter_to_compiled_code b \<noteq> 0
          then SetEntryPointFromInterpreterCode m (interpreter_to_compiled_code b) else retE ()) Q s"
    and "(\<And>s'. hook_state ofs level l b m c u h (calls @ vm_call l (resume_vm l)) v s' \<Longrightarrow> Q () s') \<Longrightarrow>
      wp (ManualControl env False) Q s"
proof -
  note call = hook_state_call [OF s q]
  show "(\<And>s'. hook_state ofs level l b m c u h (calls @ force_call l) v s' \<Longrightarrow> Q () s') \<Longrightarrow>
      wp (if force_process_profiles l \<noteq> 0 then vmcallE env (force_process_profiles l) else retE ()) Q s"
    using call [of "force_process_profiles l"] s by (auto simp: force_call_def vmcallE_def)
  show "(\<And>s'. hook_state ofs level l b m c u h calls (v\<lparr>am_flags := am_flags v OR
        (if level < ANDROID_O_MR1 then kAccCompileDontBother_N else kAccCompileDontBother_O_MR1 OR kAccPreviouslyWarm_O_MR1)\<rparr>) s'
        \<Longrightarrow> Q () s') \<Longrightarrow>
      wp (if level < ANDROID_O_MR1 then AddAccessFlags m kAccCompileDontBother_N
          else bindE (AddAccessFlags m kAccCompileDontBother_O_MR1) (\<lambda>_. AddAccessFlags m kAccPreviouslyWarm_O_MR1)) Q s"
    using s by (cases "level < ANDROID_O_MR1") (auto intro!: hook_steps(5) elim!: hook_steps(5) simp: or.assoc)
  show "(\<And>p. hook_state ofs level l b m c u h calls v s \<Longrightarrow> R p s) \<Longrightarrow>
      wp (if level > ANDROID_P then bindE (HasAccessFlags m kAccAbstract) (\<lambda>a. retE (\<not> a)) else retE False) R s"
    using s by (cases "level > ANDROID_P") (auto intro: hook_gets(3))
  show "(\<And>s'. hook_state ofs level l b m c u h calls (v\<lparr>am_hot := 0\<rparr>) s' \<Longrightarrow> Q () s') \<Longrightarrow>
      wp (if p \<or> level \<ge> ANDROID_N then SetHotnessCount m 0 else retE ()) Q s"
    using n s by (auto elim!: hook_steps(2))
  show "(\<And>s'. hook_state ofs level l b m c u h calls
        (v\<lparr>am_flags := if level \<ge> ANDROID_P then am_flags v AND NOT kAccCriticalNative_P else am_flags v\<rparr>) s' \<Longrightarrow> Q () s') \<Longrightarrow>
      wp (if level \<ge> ANDROID_P then RemoveAccessFlags m kAccCriticalNative_P else retE ()) Q s"
    using s by (cases "level \<ge> ANDROID_P") (auto elim!: hook_steps(6))
  show "(hook_state ofs level l b m c u h calls v s \<Longrightarrow> Q () s) \<Longrightarrow>
      wp (if level < ANDROID_N \<and> interpreter_to_compiled_code b \<noteq> 0
          then SetEntryPointFromInterpreterCode m (interpreter_to_compiled_code b) else retE ()) Q s"
    using n s by auto
  show "(\<And>s'. hook_state ofs level l b m c u h (calls @ vm_call l (resume_vm l)) v s' \<Longrightarrow> Q () s') \<Longrightarrow>
      wp (ManualControl env False) Q s"
    using call [of "resume_vm l"] s by (auto simp: ManualControl_wp [OF hook_stateD(1) [OF s]] vm_call_def)
qed

lemma hook_tail_wp:
  assumes s: "hook_state ofs level l b m c u h calls v s" and n: "ANDROID_N \<le> level"
    and q: "quiet env l (method_region ofs m \<union> method_region ofs c)"
  shows "wp (hook_tail env m replace)
    (\<lambda>_. hook_state ofs level l b m c u h (calls @ force_call l @ vm_call l (resume_vm l)) (hooked level b replace v)) s"
proof -
  have last: "hook_state ofs level l b m c u h (calls @ force_call l @ vm_call l (resume_vm l)) (hooked level b replace v) s'"
    if "hook_state ofs level l b m c u h ((calls @ force_call l) @ vm_call l (resume_vm l)) v' s'" "v' = hooked level b replace v"
    for s' v'
    using that by simp
  note parts = hook_parts [OF _ n q]
  show ?thesis
    unfolding hook_tail_def wp_bind
    by (rule hook_gets(1) [OF s], erule parts(1), erule hook_steps(1), erule hook_gets(4), erule parts(2), erule parts(3),
        erule parts(4), erule hook_steps(5), erule hook_steps(5), erule parts(5), erule hook_gets(2), erule hook_steps(3),
        erule parts(6), erule hook_steps(4), erule parts(7), erule last)
      (simp add: hooked_def hooked_flags_def or.assoc)
qed

theorem Hook_wp:
  assumes r: "ready ofs level l b s" and n: "ANDROID_N \<le> level" and ok: "runtime_ok env ofs l (mem s) m v c"
    and cls: "ld64 (mem s) m = Inr cls"
  shows "wp (Hook env m replace)
    (\<lambda>_. hook_state ofs level l b m c (cloned level b v) (add_key m (backup_key cls v c) (hooked_method_map s))
       (vm_calls s @ vm_call l (suspend_vm l) @ force_call l @ vm_call l (resume_vm l)) (hooked level b replace v)) s"
proof -
  note quiet = runtime_ok_quiet [OF ok]
  then have q: "quiet env l (method_region ofs m \<union> method_region ofs c)"
    unfolding quiet_def kept_def by (blast intro: agree_subset)
  have backup: "wp (Backup env m) (\<lambda>_. wp (hook_tail env m replace)
      (\<lambda>_. hook_state ofs level l b m c (cloned level b v) (add_key m (backup_key cls v c) (hooked_method_map s))
         (vm_calls s @ vm_call l (suspend_vm l) @ force_call l @ vm_call l (resume_vm l)) (hooked level b replace v))) s1"
    if s1: "ready ofs level l b s1" "agree (kept ofs m v) (mem s) (mem s1)" "hooked_method_map s1 = hooked_method_map s"
      "vm_calls s1 = vm_calls s @ vm_call l (suspend_vm l)" for s1
  proof (rule wp_mono [OF Backup_wp [OF s1(1) n ok s1(2) cls]])
    fix x s2
    assume "hook_state ofs level l b m c (cloned level b v) (add_key m (backup_key cls v c) (hooked_method_map s1)) (vm_calls s1) v s2"
    from hook_tail_wp [OF this n q] show "wp (hook_tail env m replace)
      (\<lambda>_. hook_state ofs level l b m c (cloned level b v) (add_key m (backup_key cls v c) (hooked_method_map s))
         (vm_calls s @ vm_call l (suspend_vm l) @ force_call l @ vm_call l (resume_vm l)) (hooked level b replace v)) s2"
      by (simp add: s1(3,4))
  qed
  show ?thesis
  proof (cases "vm_call l (suspend_vm l)")
    case Nil
    then show ?thesis using backup [of s] r by (simp add: Hook_tail ManualControl_wp [OF r])
  next
    case (Cons f fs)
    then have f: "f = suspend_vm l" "fs = []" by (auto simp: vm_call_def split: if_splits)
    have "agree (kept ofs m v \<union> method_region ofs c) (mem s) (call_void env f (mem s))"
      using quiet f unfolding quiet_def by blast
    then have "agree (kept ofs m v) (mem s) (call_void env f (mem s))" by (rule agree_subset) simp
    then show ?thesis
      using backup [of "(set_mem (call_void env f (mem s)) s)\<lparr>vm_calls := vm_calls s @ [f]\<rparr>"] r f Cons
      by (simp add: Hook_tail ManualControl_wp [OF r])
  qed
qed

end
