(* ===== verification/ArtInvoke.thy ===== *)
theory ArtInvoke
  imports ArtHook
begin

text \<open>
  \<open>DealGCRoot\<close> and \<open>InvokeOriginal\<close>: the backup is used while the first word of the method is the one that was saved, and is
  copied again from the hooked method when it is not.
\<close>

section \<open>The class word\<close>

lemma class_word_agree:
  assumes "layout_ok ofs" "agree (method_region ofs m) w w'"
  shows "ld64 w' m = ld64 w m"
proof -
  have "0 + 8 \<le> unat (method_size_ofs ofs)" using assms(1) by (simp add: layout_ok_def)
  from region_part [OF this, of m] have "region m 8 \<subseteq> method_region ofs m" by simp
  then show ?thesis by (rule ld_agree(3) [OF agree_subset [OF assms(2)]])
qed

lemma GetDeclaringClass_wp: "ld64 (mem s) m = Inr cls \<Longrightarrow> wp (GetDeclaringClass m) P s = P cls s"
  by (simp add: GetDeclaringClass_def MemberOf_ptr_def OffsetOf_def)

text \<open>With the flags at offset 4, as 64-bit runtimes have them, the word holds the flags as its upper half.\<close>

lemma ld_le_append:
  "ld_le w (k + n) a = seqE (ld_le w k a) (\<lambda>x. seqE (ld_le w n (a + of_nat k)) (\<lambda>y. Inr (x OR push_bit (8 * k) y)))"
proof (induction k arbitrary: a)
  case 0
  then show ?case by (cases "ld_le w n a") simp_all
next
  case (Suc k)
  show ?case
    by (cases "ld8 w a"; cases "ld_le w k (a + 1)"; cases "ld_le w n (a + 1 + of_nat k)")
      (simp_all add: Suc.IH ac_simps push_bit_or push_bit_push_bit)
qed

lemma ld_le_small: "ld_le w n a = Inr v \<Longrightarrow> bit v i \<Longrightarrow> i < 8 * n"
proof (induction n arbitrary: a v i)
  case (Suc n)
  then obtain b r where r: "ld_le w n (a + 1) = Inr r" "v = ucast (b :: u8) OR push_bit 8 r"
    by (auto simp: seqE_Inr_iff)
  show ?case
  proof (cases "i < 8")
    case False
    then have "bit r (i - 8)" using Suc.prems(2) r(2) by (auto simp: bit_simps dest: bit_imp_le_length)
    then show ?thesis using Suc.IH [OF r(1)] by fastforce
  qed simp
qed simp

lemma ld64_upper:
  assumes "ld64 w a = Inr v" "ld32 w (a + 4) = Inr f"
  shows "f = ucast (drop_bit 32 v)"
proof -
  have "ld_le w (4 + 4) a = Inr v" using assms(1) by (simp add: ld64_def)
  then obtain x y where xy: "ld_le w 4 a = Inr x" "ld_le w 4 (a + 4) = Inr y" "v = x OR push_bit 32 y"
    unfolding ld_le_append by (auto simp: seqE_Inr_iff)
  then have "f = ucast y" using assms(2) by (simp add: ld32_def)
  moreover have "ucast (drop_bit 32 v) = (ucast y :: u32)"
    using ld_le_small [OF xy(1)] by (intro bit_eqI) (auto simp: xy(3) bit_simps)
  ultimately show ?thesis by simp
qed

section \<open>Changing the copy only\<close>

lemma copy_steps:
  assumes r: "ready ofs level l b s" and s1: "copy_at s ofs c K u s1" and K: "method_region ofs c \<inter> K = {}"
  shows "(\<And>s'. copy_at s ofs c K (u\<lparr>am_quick := p\<rparr>) s' \<Longrightarrow> Q () s') \<Longrightarrow> wp (SetEntryPointFromQuickCompiledCode c p) Q s1"
    and "(\<And>s'. copy_at s ofs c K (u\<lparr>am_jni := p\<rparr>) s' \<Longrightarrow> Q () s') \<Longrightarrow> wp (SetEntryPointFromJni c p) Q s1"
    and "(\<And>s'. copy_at s ofs c K (u\<lparr>am_dex := d\<rparr>) s' \<Longrightarrow> Q () s') \<Longrightarrow> wp (SetDexCodeItemOffset c d) Q s1"
proof -
  note set = wp_setters [OF copy_at_ready [OF r s1]]
  note w = copy_at_set [OF s1 _ _ K]
  show "(\<And>s'. copy_at s ofs c K (u\<lparr>am_quick := p\<rparr>) s' \<Longrightarrow> Q () s') \<Longrightarrow> wp (SetEntryPointFromQuickCompiledCode c p) Q s1"
    by (rule set(4)) (blast intro: w)
  show "(\<And>s'. copy_at s ofs c K (u\<lparr>am_jni := p\<rparr>) s' \<Longrightarrow> Q () s') \<Longrightarrow> wp (SetEntryPointFromJni c p) Q s1"
    by (rule set(5)) (blast intro: w)
  show "(\<And>s'. copy_at s ofs c K (u\<lparr>am_dex := d\<rparr>) s' \<Longrightarrow> Q () s') \<Longrightarrow> wp (SetDexCodeItemOffset c d) Q s1"
    by (rule set(2)) (blast intro: w)
qed

section \<open>Renewing the backup\<close>

text \<open>What is restored: the entry points and the code item, not the flags.\<close>

definition restored :: "art_key \<Rightarrow> art_method \<Rightarrow> art_method" where
  "restored k u = u\<lparr>am_dex := key_dex_code_item_offset k, am_quick := key_quick_code k, am_jni := key_jni_code k\<rparr>"

definition renewed :: "art_key \<Rightarrow> addr \<Rightarrow> addr \<Rightarrow> art_key" where
  "renewed k cls c = k\<lparr>key_original_method := c, key_decl_class := cls\<rparr>"

lemma with_key_wp:
  "hooked_method_map s m = Some k \<Longrightarrow> wp (with_key m f) Q s = wp (f k) Q s"
  by (simp add: with_key_def get_method_key_def)

lemma update_key_wp:
  "wp (update_key m f) Q s = Q () (s\<lparr>hooked_method_map := (hooked_method_map s)(m := map_option f (hooked_method_map s m))\<rparr>)"
  by (simp add: update_key_def)

definition moved :: "art_offsets \<Rightarrow> int \<Rightarrow> art_symbols \<Rightarrow> art_bridges \<Rightarrow> addr \<Rightarrow> addr \<Rightarrow> art_key \<Rightarrow> addr \<Rightarrow> art_method \<Rightarrow> art \<Rightarrow> art \<Rightarrow> bool"
  where "moved ofs level l b m c k cls v s s' \<longleftrightarrow> ready ofs level l b s' \<and>
     hooked_method_map s' = (hooked_method_map s)(m \<mapsto> renewed k cls c) \<and> vm_calls s' = vm_calls s \<and>
     method_at ofs (mem s') m v \<and> method_at ofs (mem s') c (restored k (cloned level b v))"

lemma table_set_mem: "(set_mem w s)\<lparr>hooked_method_map := h\<rparr> = set_mem w (s\<lparr>hooked_method_map := h\<rparr>)"
  by (simp add: set_mem_def)

lemma DealGCRoot_moved:
  assumes r: "ready ofs level l b s" and n: "ANDROID_N \<le> level" and ok: "runtime_ok env ofs l (mem s) m v c"
    and cls: "ld64 (mem s) m = Inr cls" and key: "hooked_method_map s m = Some k" and diff: "key_decl_class k \<noteq> cls"
  shows "wp (DealGCRoot env m) (\<lambda>_. moved ofs level l b m c k cls v s) s"
proof -
  have l: "layout_ok ofs" using r by (simp add: ready_def)
  let ?h = "hooked_method_map s" and ?K = "method_region ofs m" and ?u = "cloned level b v"
  let ?base = "s\<lparr>hooked_method_map := ?h(m \<mapsto> k\<lparr>key_original_method := c\<rparr>)\<rparr>"
  have rb: "ready ofs level l b ?base" using r by simp
  have last: "wp (bindE (GetDeclaringClass m) (\<lambda>decl. update_key m (\<lambda>k. k\<lparr>key_decl_class := decl\<rparr>)))
      (\<lambda>_. moved ofs level l b m c k cls v s) s2"
    if "copy_at ?base ofs c ?K u s2" "u = restored k ?u" for s2 u
  proof -
    note s2 = that(1)
    have ag: "agree ?K (mem s) (mem s2)" using copy_at_agree [OF s2] by (simp add: mem_def)
    have "ld64 (mem s2) m = Inr cls" using class_word_agree [OF l ag] cls by simp
    moreover have "method_at ofs (mem s2) m v" by (rule method_at_agree [OF l runtime_okD(1) [OF ok] ag])
    moreover have "hooked_method_map s2 = ?h(m \<mapsto> k\<lparr>key_original_method := c\<rparr>)" "vm_calls s2 = vm_calls s"
      using s2 by (auto simp: copy_at_def)
    ultimately show ?thesis
      using copy_at_ready [OF rb s2] that(2)
      by (simp add: GetDeclaringClass_wp update_key_wp moved_def renewed_def)
  qed
  note step = copy_steps [OF rb _ runtime_okD(3) [OF ok]]
  have "wp (bindE (SetEntryPointFromQuickCompiledCode c (key_quick_code k)) (\<lambda>_.
     bindE (SetEntryPointFromJni c (key_jni_code k)) (\<lambda>_.
     bindE (SetDexCodeItemOffset c (key_dex_code_item_offset k)) (\<lambda>_.
     bindE (GetDeclaringClass m) (\<lambda>decl. update_key m (\<lambda>k. k\<lparr>key_decl_class := decl\<rparr>))))))
     (\<lambda>_. moved ofs level l b m c k cls v s) (s1\<lparr>hooked_method_map := ?h(m \<mapsto> k\<lparr>key_original_method := c\<rparr>)\<rparr>)"
    if s1: "copy_at s ofs c ?K ?u s1" for s1
  proof -
    have "copy_at ?base ofs c ?K ?u (s1\<lparr>hooked_method_map := ?h(m \<mapsto> k\<lparr>key_original_method := c\<rparr>)\<rparr>)"
      using s1 by (auto simp: copy_at_def table_set_mem)
    then show ?thesis
      unfolding wp_bind [of "SetEntryPointFromQuickCompiledCode _ _"] wp_bind [of "SetEntryPointFromJni _ _"]
        wp_bind [of "SetDexCodeItemOffset _ _"]
      by (rule step(1), elim step(2), elim step(3), elim last) (simp add: restored_def)
  qed
  moreover have "hooked_method_map s1 = ?h" if "copy_at s ofs c ?K ?u s1" for s1
    using that by (auto simp: copy_at_def)
  ultimately have tail: "wp (update_key m (\<lambda>k. k\<lparr>key_original_method := x\<rparr>)) (\<lambda>_.
     wp (bindE (SetEntryPointFromQuickCompiledCode x (key_quick_code k)) (\<lambda>_.
     bindE (SetEntryPointFromJni x (key_jni_code k)) (\<lambda>_.
     bindE (SetDexCodeItemOffset x (key_dex_code_item_offset k)) (\<lambda>_.
     bindE (GetDeclaringClass m) (\<lambda>decl. update_key m (\<lambda>k. k\<lparr>key_decl_class := decl\<rparr>))))))
     (\<lambda>_. moved ofs level l b m c k cls v s)) s1"
    if "x = c \<and> copy_at s ofs c ?K ?u s1" for x s1
    using that key by (simp only: update_key_wp) simp
  show ?thesis
    unfolding DealGCRoot_def with_key_wp [OF key] wp_bind [of "GetDeclaringClass m"] GetDeclaringClass_wp [OF cls]
      if_not_P [OF diff] wp_bind [of "Clone env m"] wp_bind [of "update_key m _"]
    by (rule wp_mono [OF Clone_wp [OF r n ok agree_refl]]) (rule tail)
qed

lemma DealGCRoot_same:
  assumes "hooked_method_map s m = Some k" "ld64 (mem s) m = Inr (key_decl_class k)"
  shows "wp (DealGCRoot env m) Q s = Q () s"
  by (simp add: DealGCRoot_def with_key_wp [OF assms(1)] GetDeclaringClass_wp [OF assms(2)])

section \<open>Invoking the backup\<close>

lemma InvokeOriginal_same:
  assumes r: "ready ofs level l b s" and v: "method_at ofs (mem s) m v"
    and k: "hooked_method_map s m = Some k" and cls: "ld64 (mem s) m = Inr (key_decl_class k)"
  shows "InvokeOriginal env m s = (Inr (key_original_method k, kAccStatic AND am_flags v \<noteq> 0), s)"
proof -
  have "wp (InvokeOriginal env m) (\<lambda>x s'. x = (key_original_method k, kAccStatic AND am_flags v \<noteq> 0) \<and> s' = s) s"
    by (simp add: InvokeOriginal_def DealGCRoot_same [OF k cls] with_key_wp [OF k] wp_getters [OF r v])
  then show ?thesis by (auto dest: wp_run)
qed

lemma InvokeOriginal_moved:
  assumes r: "ready ofs level l b s" and n: "ANDROID_N \<le> level" and ok: "runtime_ok env ofs l (mem s) m v c"
    and cls: "ld64 (mem s) m = Inr cls" and key: "hooked_method_map s m = Some k" and diff: "key_decl_class k \<noteq> cls"
  shows "wp (InvokeOriginal env m) (\<lambda>x s'. x = (c, kAccStatic AND am_flags v \<noteq> 0) \<and> moved ofs level l b m c k cls v s s') s"
proof -
  have "wp (with_key m (\<lambda>key. bindE (HasAccessFlags m kAccStatic) (\<lambda>static. retE (key_original_method key, static))))
      (\<lambda>x s'. x = (c, kAccStatic AND am_flags v \<noteq> 0) \<and> moved ofs level l b m c k cls v s s') s1"
    if s1: "moved ofs level l b m c k cls v s s1" for s1
  proof -
    have "hooked_method_map s1 m = Some (renewed k cls c)" "ready ofs level l b s1" "method_at ofs (mem s1) m v"
      using s1 by (simp_all add: moved_def)
    then show ?thesis using s1 by (simp add: with_key_wp wp_getters renewed_def)
  qed
  then show ?thesis
    unfolding InvokeOriginal_def wp_bind [of "DealGCRoot _ _"] by (rule wp_mono [OF DealGCRoot_moved [OF assms]])
qed

text \<open>After a hook of a method that is not native, on a runtime with the flags at offset 4, the word has changed.\<close>

lemma hook_changes_class_word:
  assumes s: "hook_state ofs level l b m c u h calls (hooked level b replace v) s"
    and w0: "method_at ofs w0 m v" "ld64 w0 m = Inr cls" and af: "access_flags_ofs ofs = 4"
    and n: "kAccNative AND am_flags v = 0" and cls': "ld64 (mem s) m = Inr cls'"
  shows "cls' \<noteq> cls"
proof
  assume "cls' = cls"
  then have "hooked_flags level (am_flags v) = am_flags v"
    using ld64_upper [OF cls'] ld64_upper [OF w0(2)] w0(1) hook_stateD(2) [OF s] af
    by (simp add: method_at_def hooked_def)
  moreover have "bit (hooked_flags level f) 8" for f
    by (simp add: hooked_flags_def Let_def acc_defs bit_simps)
  moreover have "\<not> bit (am_flags v) 8"
  proof
    assume "bit (am_flags v) 8"
    then have "bit (kAccNative AND am_flags v) 8" by (simp add: acc_defs bit_simps)
    then show False using n by simp
  qed
  ultimately show False by metis
qed

end
