(* ===== verification/ElfImageProps.thy ===== *)
theory ElfImageProps
  imports ElfImageLookup
begin

text \<open>A library file on which the theorems about the section-header parser are applied, and what goes wrong with it.\<close>

section \<open>A file\<close>

text \<open>
  A file with sections \<open>.dynsym\<close>, \<open>.dynstr\<close>, \<open>.hash\<close>, \<open>.text\<close>, \<open>.shstrtab\<close>, \<open>.gnu.hash\<close>, \<open>.symtab\<close> and \<open>.strtab\<close> after the
  null section, mapped at \<open>0x1000\<close>; \<open>h\<close> holds the number of sections and the index of the section of names.
\<close>

definition file_words :: "(addr \<times> u64) list" where
  "file_words =
    [(0x1820, 0x3), (0x1818, 0x4d0), (0x1800, 0x300000001), (0x17e0, 0x30), (0x17d8, 0x480), (0x17c0,
     0x200000000), (0x17a0, 0x20), (0x1798, 0x440), (0x1780, 0x6ffffff600000000), (0x1760, 0x9), (0x1758,
     0x3c0), (0x1740, 0x300000000), (0x1720, 0x10), (0x1718, 0x400), (0x1710, 0x200), (0x1700, 0x100000000),
     (0x16e0, 0x14), (0x16d8, 0x3a0), (0x16c0, 0x500000000), (0x16a0, 0x3), (0x1698, 0x380), (0x1680,
     0x300000000), (0x1660, 0x30), (0x1658, 0x300), (0x1640, 0xb00000000), (0x14d0, 0x6700), (0x14a0, 0x600),
     (0x1498, 0x1100000001), (0x1458, 0x2b60b00000001), (0x1450, 0x800), (0x1448, 0x1), (0x1440, 0x100000001),
     (0x13c0, 0x6261747274732e00), (0x13a8, 0x1), (0x13a0, 0x200000001), (0x1380, 0x6600), (0x1320, 0x500),
     (0x1318, 0x1200000001), (0x1028, 0x600), (0x1020, 0x40), (0x1000, 0x10102464c457f)]"

definition sample_file :: "u64 \<Rightarrow> world" where
  "sample_file h = \<lparr>mbytes = word_image ((0x1038, h) # file_words),
     mprot = (\<lambda>a. if 0x1000 \<le> a \<and> a < 0x2000 then PROT_READ else 0)\<rparr>"

lemma file_bytes: "mbytes (sample_file h) = word_image ((0x1038, h) # file_words)"
  by (simp add: sample_file_def)

lemma file_readable: "readable (sample_file h) a \<longleftrightarrow> 0x1000 \<le> a \<and> a < 0x2000"
  by (simp add: sample_file_def readable_def prot_defs)

lemmas file_loads = ld_word [OF file_bytes] file_readable all_readable_unfold word_at_def file_words_def

definition sample_parser :: elf_parser where
  "sample_parser = \<lparr>ep_ehdr = 0x1000, ep_phdr = 0x1040, ep_shdr = 0x1600, ep_load_bias = 0x200, ep_got = 0, ep_got_plt = 0,
     ep_rel_dyn = 0, ep_rel_plt = 0, ep_rela_dyn = 0, ep_rela_plt = 0, ep_shstrtab = 0x13c0, ep_strtab = 0x14d0,
     ep_dynstr = 0x1380, ep_symtab = 0x1480, ep_symcnt = 2, ep_dynsym = 0x1300, ep_dyncnt = 2, ep_nbucket = 1, ep_nchain = 2,
     ep_bucket = 0x13a8, ep_chain = 0x13ac, ep_gnu_nbucket = 1, ep_gnu_symndx = 1, ep_gnu_maskwords_bm = 1,
     ep_gnu_shift2 = 0, ep_gnu_bloom_filter = 0x1450, ep_gnu_bucket = 0x1458, ep_gnu_chain = 0x1458\<rparr>"

definition sample_sections :: "elf_section list" where
  "sample_sections =
    [\<lparr>se_type = 0, se_name = [], se_addr = 0, se_offset = 0, se_size = 0\<rparr>,
     \<lparr>se_type = SHT_DYNSYM, se_name = [], se_addr = 0, se_offset = 0x300, se_size = 48\<rparr>,
     \<lparr>se_type = SHT_STRTAB, se_name = [], se_addr = 0, se_offset = 0x380, se_size = 3\<rparr>,
     \<lparr>se_type = SHT_HASH, se_name = [], se_addr = 0, se_offset = 0x3a0, se_size = 20\<rparr>,
     \<lparr>se_type = SHT_PROGBITS, se_name = [], se_addr = 0x200, se_offset = 0x400, se_size = 16\<rparr>,
     \<lparr>se_type = SHT_STRTAB, se_name = [], se_addr = 0, se_offset = 0x3c0, se_size = 9\<rparr>,
     \<lparr>se_type = SHT_GNU_HASH, se_name = [], se_addr = 0, se_offset = 0x440, se_size = 32\<rparr>,
     \<lparr>se_type = SHT_SYMTAB, se_name = [], se_addr = 0, se_offset = 0x480, se_size = 48\<rparr>,
     \<lparr>se_type = SHT_STRTAB, se_name = ''.strtab'', se_addr = 0, se_offset = 0x4d0, se_size = 3\<rparr>]"

lemma section_atI:
  assumes "sh_name w h = Inr n" "cstr_at w (shstr + ucast n) (se_name s)" "sh_type w h = Inr (se_type s)"
    "sh_addr w h = Inr (se_addr s)" "sh_offset w h = Inr (se_offset s)" "sh_size w h = Inr (se_size s)"
    "se_type s = SHT_STRTAB \<Longrightarrow> base + se_offset s \<noteq> 0"
    "se_type s = SHT_HASH \<Longrightarrow>
       \<exists>nb nc. ld32 w (base + se_offset s) = Inr nb \<and> ld32 w (base + se_offset s + 4) = Inr nc"
    "se_type s = SHT_GNU_HASH \<Longrightarrow> \<exists>a b c d. ld32 w (base + se_offset s) = Inr a \<and>
       ld32 w (base + se_offset s + 4) = Inr b \<and> ld32 w (base + se_offset s + 8) = Inr c \<and>
       ld32 w (base + se_offset s + 12) = Inr d"
  shows "section_at w base shstr h s"
  using assms by (auto simp: section_at_def)

lemma section_plainI:
  assumes "sh_name w h = Inr n" "cstr_at w (shstr + ucast n) (se_name s)" "sh_type w h = Inr (se_type s)"
    "sh_addr w h = Inr (se_addr s)" "sh_offset w h = Inr (se_offset s)" "sh_size w h = Inr (se_size s)"
    "se_type s = SHT_STRTAB \<Longrightarrow> base + se_offset s \<noteq> 0" "se_type s \<noteq> SHT_HASH" "se_type s \<noteq> SHT_GNU_HASH"
  shows "section_at w base shstr h s"
  by (rule section_atI) (use assms in auto)

lemma sample_plain_at:
  "section_at (sample_file h) 0x1000 0x13c0 0x1600
       \<lparr>se_type = 0, se_name = [], se_addr = 0, se_offset = 0, se_size = 0\<rparr>"
  "section_at (sample_file h) 0x1000 0x13c0 0x1640
       \<lparr>se_type = SHT_DYNSYM, se_name = [], se_addr = 0, se_offset = 0x300, se_size = 48\<rparr>"
  "section_at (sample_file h) 0x1000 0x13c0 0x1680
       \<lparr>se_type = SHT_STRTAB, se_name = [], se_addr = 0, se_offset = 0x380, se_size = 3\<rparr>"
  "section_at (sample_file h) 0x1000 0x13c0 0x1700
       \<lparr>se_type = SHT_PROGBITS, se_name = [], se_addr = 0x200, se_offset = 0x400, se_size = 16\<rparr>"
  "section_at (sample_file h) 0x1000 0x13c0 0x1740
       \<lparr>se_type = SHT_STRTAB, se_name = [], se_addr = 0, se_offset = 0x3c0, se_size = 9\<rparr>"
  "section_at (sample_file h) 0x1000 0x13c0 0x17c0
       \<lparr>se_type = SHT_SYMTAB, se_name = [], se_addr = 0, se_offset = 0x480, se_size = 48\<rparr>"
  by (rule section_plainI [of _ _ 0]; simp add: section_layout_defs file_loads sht_defs)+

lemma sample_hash_at:
  "section_at (sample_file h) 0x1000 0x13c0 0x16c0
       \<lparr>se_type = SHT_HASH, se_name = [], se_addr = 0, se_offset = 0x3a0, se_size = 20\<rparr>"
  "section_at (sample_file h) 0x1000 0x13c0 0x1780
       \<lparr>se_type = SHT_GNU_HASH, se_name = [], se_addr = 0, se_offset = 0x440, se_size = 32\<rparr>"
  by (rule section_atI [of _ _ 0]; simp add: section_layout_defs file_loads sht_defs)+

lemma sample_strtab_at:
  "section_at (sample_file h) 0x1000 0x13c0 0x1800
       \<lparr>se_type = SHT_STRTAB, se_name = ''.strtab'', se_addr = 0, se_offset = 0x4d0, se_size = 3\<rparr>"
  by (rule section_plainI [of _ _ 1]; simp add: section_layout_defs file_loads sht_defs byte_of_def)

lemma sample_file_at: "elf_file_at (sample_file 0x5000900000000) 0x1000 2 sample_sections"
proof -
  have "entries 0x1600 64 9 = [0x1600, 0x1640, 0x1680, 0x16c0, 0x1700, 0x1740, 0x1780, 0x17c0, 0x1800 :: addr]"
    by (simp add: entries_def upt_rec)
  then have "list_all2 (section_at (sample_file 0x5000900000000) 0x1000 0x13c0) (entries 0x1600 64 9) sample_sections"
    by (simp add: sample_sections_def sample_plain_at sample_hash_at sample_strtab_at)
  moreover have "length sample_sections = 9" "sample_sections \<noteq> []" by (simp_all add: sample_sections_def)
  ultimately show ?thesis
    by (simp add: elf_file_at_def section_layout_defs e_phoff_def file_loads)
qed

theorem Parse_describes_witness:
  "\<exists>p. Parse (sample_file 0x5000900000000) (ElfParser sample_parser) 0x1000 = Inr (True, p) \<and>
     file_described (sample_file 0x5000900000000) 0x1000 2 (ElfParser sample_parser) sample_sections p"
  by (rule Parse_describes [OF sample_file_at])

section \<open>Lookups in the file\<close>

lemma sample_hashes: "xh_elf_hash ''f'' = 0x66" "xh_elf_hash ''g'' = 0x67" "GnuHash ''f'' = 0x2b60b" "GnuHash ''g'' = 0x2b60c"
  by (simp_all add: xh_elf_hash_def GnuHash_def byte_of_def)

lemma sample_names: "names_ok (sample_file h) (dyn_view sample_parser) [[], ''f'']"
proof -
  have "\<exists>q. symbol_name (sample_file h) (dyn_view sample_parser) (of_nat i) = Inr q \<and>
      cstr_at (sample_file h) q ([[], ''f''] ! i)" if "i < 2" for i
  proof -
    from that consider "i = 0" | "i = 1" by linarith
    then show ?thesis by cases (simp_all add: symbol_name_def sample_parser_def file_loads byte_of_def)
  qed
  then show ?thesis by (simp add: names_ok_def)
qed

lemma sample_image_ok:
  "image_ok (sample_file h) sample_parser [([], 0), (''f'', 0x500)] [(False, [], 0), (True, ''g'', 0x600)]"
proof -
  have "sysv_ok (sample_file h) (dyn_view sample_parser) [[], ''f'']"
  proof -
    have "bucket_at (sample_file h) (dyn_view sample_parser) 0 = Inr 1"
      "chain_path (sample_file h) (dyn_view sample_parser) 1 [1]"
      by (simp_all add: bucket_at_def chain_at_def sample_parser_def file_loads)
    moreover have "b < (1 :: u32) \<Longrightarrow> b = 0" for b by (simp add: word_less_nat_alt unat_eq_0)
    ultimately have "\<exists>i ks. bucket_at (sample_file h) (dyn_view sample_parser) b = Inr i \<and>
        chain_path (sample_file h) (dyn_view sample_parser) i ks \<and> set ks \<subseteq> {0<..<length [[], ''f'']} \<and> distinct ks \<and>
        (\<forall>k\<in>{0<..<length [[], ''f'']}. xh_elf_hash ([[], ''f''] ! k) mod 1 = b \<longrightarrow> k \<in> set ks)" if "b < 1" for b
      using that by (intro exI [of _ 1] exI [of _ "[1]"]) auto
    moreover have "ep_nbucket sample_parser = 1" by (simp add: sample_parser_def)
    ultimately show ?thesis
      using sample_names [of h] by (simp add: sysv_ok_def)
  qed
  moreover have "dyn_ok (sample_file h) sample_parser [([], 0), (''f'', 0x500)]"
    using sample_names [of h]
    by (simp add: dyn_ok_def All_less_Suc2 eval_nat_numeral)
      (simp add: st_value_def sample_parser_def file_loads)
  moreover have "gnu_bounded (sample_file h) sample_parser (length [([] :: string, 0 :: u64), (''f'', 0x500)])"
  proof -
    have bit0: "k AND 1 = 0 \<or> k AND 1 = (1 :: u32)" for k by (simp add: and_one_eq mod_2_eq_odd)
    have "\<exists>v. ld32 (sample_file h) (0x1450 + 4 * ucast (k AND (1 :: u32))) = Inr v" for k
      using bit0 [of k] by (rule disjE) (simp_all add: file_loads)
    moreover have "gnu_run (sample_file h) sample_parser 1 0"
      by (simp add: gnu_run_def sample_parser_def file_loads)
    moreover have "ld32 (sample_file h) 0x1458 = Inr 1" by (simp add: file_loads)
    moreover have "b < (1 :: u32) \<Longrightarrow> b = 0" for b by (simp add: word_less_nat_alt unat_eq_0)
    ultimately show ?thesis by (auto simp: gnu_bounded_def sample_parser_def)
  qed
  moreover have "linear_ok (sample_file h) 0x1480 0x14d0 [(False, [], 0), (True, ''g'', 0x600)]"
    by (simp add: linear_ok_def All_less_Suc2 eval_nat_numeral)
      (simp add: symbol_layout_defs file_loads byte_of_def)
  moreover have "ep_symtab sample_parser = 0x1480" "ep_strtab sample_parser = 0x14d0" "ep_symcnt sample_parser = 2"
    by (simp_all add: sample_parser_def)
  ultimately show ?thesis by (simp add: image_ok_def)
qed

theorem FindSymbolOffset_correct_witness:
  "FindSymbolOffset (sample_file 0x5000900000000) sample_parser ''f'' = Inr 0x700 \<and>
   FindSymbolOffset (sample_file 0x5000900000000) sample_parser ''g'' = Inr 0x800 \<and>
   FindSymbolOffset (sample_file 0x5000900000000) sample_parser ''h'' = Inr 0"
proof -
  note c = FindSymbolOffset_correct [OF sample_image_ok]
  have "ep_load_bias sample_parser = 0x200" by (simp add: sample_parser_def)
  then show ?thesis
    using c [of "''f''" "0x5000900000000"] c [of "''g''" "0x5000900000000"] c [of "''h''" "0x5000900000000"] by (simp add: dyn_values_def linear_value_def sought_def)
qed

theorem GnuLookup_misses_witness:
  "GnuLookup (sample_file 0) sample_parser ''art_quick_generic_jni_trampoline'' \<noteq> Inr (Some 0x1318)"
proof (rule GnuLookup_misses)
  show "32 \<le> GnuHash ''art_quick_generic_jni_trampoline'' mod 64" by (simp add: GnuHash_def byte_of_def)
qed

section \<open>A file without symbol table\<close>

text \<open>The parser after parsing the first seven sections only, which leave \<open>symtab\<close>, \<open>symcnt\<close> and \<open>strtab\<close> alone.\<close>

definition stripped :: "elf_parser \<Rightarrow> elf_parser" where
  "stripped raw = raw\<lparr>ep_ehdr := 0x1000, ep_phdr := 0x1040, ep_shdr := 0x1600, ep_load_bias := 0x200, ep_shstrtab := 0x13c0,
     ep_dynstr := 0x1380, ep_dynsym := 0x1300, ep_dyncnt := 2, ep_nbucket := 1, ep_nchain := 2,
     ep_bucket := 0x13a8, ep_chain := 0x13ac, ep_gnu_nbucket := 1, ep_gnu_symndx := 1, ep_gnu_maskwords_bm := 1,
     ep_gnu_shift2 := 0, ep_gnu_bloom_filter := 0x1450, ep_gnu_bucket := 0x1458, ep_gnu_chain := 0x1458\<rparr>"

lemma Parse_stripped: "Parse (sample_file 0x5000700000000) raw 0x1000 = Inr (True, stripped raw)"
  by (simp add: Parse_def Let_def entries_def upt_rec section_layout_defs e_phoff_def file_loads parse_section_def sht_defs
      parse_default_def section_is_def parse_strtab_def parse_hash_def parse_gnu_hash_def parse_progbits_def INT_MAX_def
      stripped_def byte_of_def)

lemma stripped_found:
  "FindSymbolOffset (sample_file h) (stripped raw) ''g'' =
     seqE (if ep_symtab raw \<noteq> 0
           then LinearLookup (sample_file h) ''g'' (ep_symtab raw) (unat (ep_symcnt raw)) (ep_strtab raw) else Inr None) (\<lambda>found.
     case found of None \<Rightarrow> Inr 0 | Some s \<Rightarrow> seqE (st_value (sample_file h) s) (\<lambda>v. Inr (v + 0x200)))"
proof -
  obtain m where m: "index_fuel = Suc (Suc m)"
    by (rule that [of "2 ^ 32 - 2"]) (simp add: index_fuel_def)
  let ?p = "stripped raw"
  have "GnuLookup (sample_file h) ?p ''g'' = Inr None"
    by (simp add: GnuLookup_def Let_def sample_hashes stripped_def file_loads)
  moreover have "ElfLookup (sample_file h) ?p ''g'' = Inr None"
    by (simp add: ElfLookup_def ElfHash_eq sample_hashes mod32_def m dyn_name_eq_def st_name_def stripped_def file_loads byte_of_def)
  moreover have "ep_symtab ?p = ep_symtab raw" "ep_symcnt ?p = ep_symcnt raw" "ep_strtab ?p = ep_strtab raw"
    "0 < ep_gnu_nbucket ?p" "0 < ep_nbucket ?p" "ep_load_bias ?p = 0x200"
    by (simp_all add: stripped_def)
  ultimately show ?thesis by (simp add: FindSymbolOffset_def)
qed

lemma stripped_linear:
  "LinearLookup (sample_file h) ''g'' 0x1480 2 0x14d0 = Inr (Some 0x1498)"
  "LinearLookup (sample_file h) ''g'' 0x9000 2 0x14d0 = Inl Segv"
  unfolding numeral_2_eq_2 LinearLookup.simps
  by (simp_all add: symbol_layout_defs file_loads byte_of_def) (simp add: ld8_def file_readable)

text \<open>
  Claim C38. The constructor leaves \<open>symtab_\<close> uninitialised and \<open>Parse\<close> sets it only for a file that has a symbol table: for a
  stripped file, what \<open>FindSymbolOffset\<close> answers for a name that the file does not have depends on what was in the
  memory of the object. It may report that there is none, return an offset, or crash.
\<close>

theorem stripped_file_uses_garbage:
  "\<exists>raw1 raw2 raw3 p1 p2 p3.
     Parse (sample_file 0x5000700000000) (ElfParser raw1) 0x1000 = Inr (True, p1) \<and>
     Parse (sample_file 0x5000700000000) (ElfParser raw2) 0x1000 = Inr (True, p2) \<and>
     Parse (sample_file 0x5000700000000) (ElfParser raw3) 0x1000 = Inr (True, p3) \<and>
     FindSymbolOffset (sample_file 0x5000700000000) p1 ''g'' = Inr 0 \<and>
     FindSymbolOffset (sample_file 0x5000700000000) p2 ''g'' = Inr 0x800 \<and>
     FindSymbolOffset (sample_file 0x5000700000000) p3 ''g'' = Inl Segv"
proof -
  let ?f = "sample_file 0x5000700000000"
  have "FindSymbolOffset ?f (stripped (ElfParser (sample_parser\<lparr>ep_symtab := 0\<rparr>))) ''g'' = Inr 0"
    by (simp add: stripped_found ElfParser_def)
  moreover have "FindSymbolOffset ?f (stripped (ElfParser sample_parser)) ''g'' = Inr 0x800"
    by (simp add: stripped_found ElfParser_def sample_parser_def stripped_linear) (simp add: st_value_def file_loads)
  moreover have "FindSymbolOffset ?f (stripped (ElfParser (sample_parser\<lparr>ep_symtab := 0x9000\<rparr>))) ''g'' = Inl Segv"
    by (simp add: stripped_found ElfParser_def sample_parser_def stripped_linear)
  ultimately show ?thesis using Parse_stripped by metis
qed

end
