(* ===== verification/ElfToolProps.thy ===== *)
theory ElfToolProps
  imports ElfTool ElfImageProps
begin

text \<open>
  A process with a library on which the theorems about \<open>DlOpen\<close> and \<open>DlSym\<close> are applied, and what an anonymous mapping does
  to the search for code.
\<close>

section \<open>A process\<close>

definition code_vma :: vma where
  "code_vma = \<lparr>v_start = 0x5000, v_end = 0x6000, v_perm = ''r-xp'', v_offset = 0, v_major = 1,
     v_minor = 2, v_inode = 7, v_pad = 1, v_name = ''/l/libx.so''\<rparr>"

definition data_vma :: vma where
  "data_vma = code_vma\<lparr>v_start := 0x6000, v_end := 0x7000, v_perm := ''rw-p''\<rparr>"

definition jit_vma :: vma where
  "jit_vma = code_vma\<lparr>v_start := 0x8000, v_end := 0x9000, v_perm := ''rwxp'', v_name := []\<rparr>"

lemma vma_lines:
  "vma_line code_vma = ''00005000-00006000 r-xp 00000000 01:02 7 /l/libx.so'' @ [CHR 0x0A]"
  "vma_line data_vma = ''00006000-00007000 rw-p 00000000 01:02 7 /l/libx.so'' @ [CHR 0x0A]"
  "vma_line jit_vma = ''00008000-00009000 rwxp 00000000 01:02 7 '' @ [CHR 0x0A]"
  by (simp_all add: vma_line_def code_vma_def data_vma_def jit_vma_def padded_def hex_of.simps dec_of.simps hexchar_def
      char_of_eq_iff replicate_numeral)

lemma vmas_maps_ok: "maps_ok [code_vma]" "maps_ok [data_vma, jit_vma]"
  by (simp_all add: maps_ok_def vma_ok_def vma_lines)
    (simp_all add: code_vma_def data_vma_def jit_vma_def isspace_def device_def padded_def hex_of.simps hexchar_def
      replicate_numeral)

lemma code_named: "named_maps [code_vma]"
  by (simp add: named_maps_def vmas_maps_ok) (simp add: code_vma_def isspace_def)

lemma code_found: "find (code_of ''libx.so'') [code_vma] = Some code_vma"
  by (simp add: code_of_def code_vma_def strstr.simps)

definition sample_os :: file_os where
  "sample_os = \<lparr>os_maps = (\<lambda>w. Some (vma_line code_vma)),
     os_fopen = (\<lambda>path. if path = ''/l/libx.so'' then Some 3 else None), os_fstat = (\<lambda>f. Some 0x1000),
     os_mmap = (\<lambda>w n f. (Some 0x1000, sample_file 0x5000900000000)), os_munmap = (\<lambda>w b n. w), os_read = (\<lambda>w f b n. w)\<rparr>"

theorem FindExecuteMemoryRange_correct_witness:
  "\<exists>r. FindExecuteMemoryRange 1 2 (Some (vma_line code_vma)) ''libx.so'' = Inr r \<and> IsValid r \<and> mr_base r = 0x5000"
proof -
  have "code_vma = \<lparr>v_start = 0x5000, v_end = 0x6000, v_perm = v_perm code_vma, v_offset = 0, v_major = 1,
     v_minor = 2, v_inode = 7, v_pad = 1, v_name = v_name code_vma\<rparr>"
    by (simp add: code_vma_def)
  then have "v_start code_vma = 0x5000" "v_end code_vma = 0x6000" by (metis vma.select_convs)+
  then show ?thesis
    using FindExecuteMemoryRange_correct [OF code_named, of 1 2 "''libx.so''"] code_found by auto
qed

lemma Parse_full: "Parse (sample_file 0x5000900000000) (ElfParser sample_parser) 0x1000 = Inr (True, sample_parser)"
  by (simp add: Parse_def Let_def entries_def upt_rec section_layout_defs e_phoff_def file_loads parse_section_def sht_defs
      parse_default_def section_is_def parse_strtab_def parse_hash_def parse_gnu_hash_def parse_progbits_def INT_MAX_def
      ElfParser_def sample_parser_def byte_of_def)

theorem DlSym_correct_witness:
  "\<exists>img s'. DlOpen sample_os sample_parser (1, 2) ''libx.so'' \<lparr>image_of = sample_file 0, open_files = []\<rparr> = Inr (Some img, s') \<and>
     DlSym (image_of s') (Some img) ''f'' = Inr 0x5700"
proof -
  have os: "os_maps sample_os w = Some (concat (map vma_line [code_vma]))" "os_fopen sample_os (v_name code_vma) = Some 3"
    "os_fstat sample_os f = Some 0x1000" "os_mmap sample_os w n f = (Some 0x1000, sample_file 0x5000900000000)"
    "os_read sample_os w f b n = w" for w f b n
    by (simp_all add: sample_os_def) (simp add: code_vma_def)
  have bounds: "v_start code_vma < v_end code_vma" "v_start code_vma = 0x5000" by (simp_all add: code_vma_def)
  have vals: "dyn_values [([], 0), (''f'', 0x500)] ''f'' = {0x500}" by (auto simp: dyn_values_def)
  have bias: "ep_load_bias sample_parser = 0x200" by (simp add: sample_parser_def)
  note c = DlSym_correct [OF code_named os(1) code_found bounds(1) os(2-4), unfolded os(5), OF Parse_full sample_image_ok]
  show ?thesis
    using c [of "''f''" "(1, 2)" "\<lparr>image_of = sample_file 0, open_files = []\<rparr>"]
    by (simp add: vals bias bounds(2)) blast
qed

theorem ElfImage_leaks_stream_witness:
  "\<exists>img s'. ElfImage_Open sample_os ''/l/libx.so'' 0 (ElfImage sample_parser) \<lparr>image_of = sample_file 0, open_files = []\<rparr> =
       Inr (True, img, s') \<and>
     open_files (ElfReader_delete sample_os (ei_reader img) s') = [3]"
proof -
  obtain img s' where run: "ElfImage_Open sample_os ''/l/libx.so'' 0 (ElfImage sample_parser)
      \<lparr>image_of = sample_file 0, open_files = []\<rparr> = Inr (True, img, s')"
    by (simp add: ElfImage_Open_def ElfReader_Open_def sample_os_def ElfImage_def ElfReader_def Parse_full Let_def)
  moreover have "os_fopen sample_os ''/l/libx.so'' = Some 3" by (simp add: sample_os_def)
  ultimately show ?thesis using ElfImage_leaks_stream [OF _ run, of 3] by auto
qed

section \<open>An anonymous mapping\<close>

text \<open>
  The result of \<open>sscanf\<close> is ignored, so an anonymous mapping is taken for a mapping of the file on the line before
  it: with the data of the library followed by anonymous executable memory, the search reports that memory as the code of the
  library, although the library has no executable mapping at all.
\<close>

theorem anonymous_mapping_taken_for_library:
  "FindExecuteMemoryRange b e (Some (vma_line data_vma @ vma_line jit_vma)) ''libx.so'' =
     Inr \<lparr>mr_path = Some ''/l/libx.so'', mr_base = v_start jit_vma, mr_end = v_end jit_vma\<rparr> \<and>
   v_name jit_vma = [] \<and> \<not> code_of ''libx.so'' data_vma"
proof -
  let ?mv = "\<lparr>mv_begin = b, mv_end = e, mv_perm = [], mv_mapname = []\<rparr>"
  have maps: "Some (vma_line data_vma @ vma_line jit_vma) = Some (concat (map vma_line [data_vma, jit_vma]))" by simp
  have "find (execute_hit ''libx.so'') (sightings [data_vma, jit_vma] ?mv) =
      Some \<lparr>mv_begin = v_start jit_vma, mv_end = v_end jit_vma, mv_perm = ''rwxp'', mv_mapname = ''/l/libx.so''\<rparr>"
    by (simp add: execute_hit_def seen_def data_vma_def jit_vma_def code_vma_def first_word_def isspace_def strstr.simps)
  then show ?thesis
    unfolding FindExecuteMemoryRange_def ForeachMemoryRange_visit [OF vmas_maps_ok(2) maps] visit_execute
    by (simp add: MemoryRange_def) (simp add: code_of_def data_vma_def jit_vma_def code_vma_def strstr.simps)
qed

end
