(* ===== verification/ArtProps.thy ===== *)
theory ArtProps
  imports ArtInvoke ElfToolProps
begin

text \<open>The theorems about the method hook, and the state on which they are applied.\<close>

section \<open>A method in memory\<close>

definition sample_ofs :: art_offsets where
  "sample_ofs = \<lparr>method_size_ofs = 40, jni_code_ofs = 24, quick_code_ofs = 32, access_flags_ofs = 4, dex_code_item_ofs = 8,
     dex_method_index_ofs = 12, method_index_ofs = 16, interpreter_code_ofs = 0, hotness_count_ofs = 18\<rparr>"

text \<open>The public method of class \<open>0xabc\<close> at \<open>0x1000\<close>, in memory where nothing else is mapped.\<close>

definition sample_words :: "(addr \<times> u64) list" where
  "sample_words = [(0x1000, 0x100000abc), (0x1008, 0x300000077), (0x1010, 0x50004), (0x1020, 0x9000)]"

definition sample_world :: world where
  "sample_world = \<lparr>mbytes = word_image sample_words, mprot = (\<lambda>a. if a - 0x1000 < 40 then 3 else 0)\<rparr>"

definition sample_method :: art_method where
  "sample_method = \<lparr>am_flags = 1, am_dex = 0x77, am_hot = 5, am_quick = 0x9000, am_jni = 0\<rparr>"

definition sample_symbols :: art_symbols where
  "sample_symbols = \<lparr>suspend_vm = 0x11, resume_vm = 0x12, force_process_profiles = 0x13, method_copy_from = 0, object_clone = 0,
     object_clone_with_class = 0, object_clone_with_size = 0\<rparr>"

definition sample_bridges :: art_bridges where
  "sample_bridges = \<lparr>interpreter_to_compiled_code = 0x21, quick_to_jni_bridge = 0x22, quick_to_interpreter = 0x23\<rparr>"

text \<open>\<open>malloc\<close> maps the block it returns: another one when the method is native already.\<close>

definition sample_malloc :: "world \<Rightarrow> u64 \<Rightarrow> addr \<times> world" where
  "sample_malloc w n =
     (let c = if bit (mbytes w 0x1005) 0 then 0x3000 else 0x2000
      in (c, w\<lparr>mprot := \<lambda>a. if a - c < 40 then 3 else mprot w a\<rparr>))"

definition sample_env :: art_env where
  "sample_env = \<lparr>art_os = sample_os, fresh_parser = (\<lambda>_. sample_parser), junk_range = (\<lambda>_. (1, 2)), sdk_int = 28, java_vm = 0,
     jni_method = (\<lambda>_ _. 0), call_jnienv = (\<lambda>_. 0), native_peer = None, tls = 0, art_malloc = sample_malloc, call_void = (\<lambda>_ w. w),
     call_copy_from = (\<lambda>_ _ _ _ w. w), call_clone = (\<lambda>_ _ w. (0, w))\<rparr>"

definition sample_art :: art where
  "sample_art = \<lparr>proc = \<lparr>image_of = sample_world, open_files = []\<rparr>, symbol_inited = True, symbol_list = sample_symbols,
     bridge_inited = True, bridge_list = sample_bridges,
     runtime_obj = \<lparr>ro_vm = 0, ro_runtime = 0, ro_heap = 0, ro_thread_list = 0, ro_class_linker = 0, ro_intern_table = 0\<rparr>,
     api_level = 28, art_prepared = True, method_offset = sample_ofs, hooked_method_map = Map.empty, vm_calls = [],
     app_method = 0, get_jnienv_symbol = 0\<rparr>"

lemma region_iff: "n \<le> 2 ^ 32 \<Longrightarrow> b \<in> region a n \<longleftrightarrow> unat (b - a) < n"
proof
  assume "n \<le> 2 ^ 32" "b \<in> region a n"
  then obtain i where i: "i < n" "b = a + of_nat i" by (auto simp: region_def)
  then have "unat (of_nat i :: u64) = i" using \<open>n \<le> 2 ^ 32\<close> by (simp add: unat_of_nat take_bit_nat_eq_self_iff)
  then show "unat (b - a) < n" using i by simp
next
  assume "unat (b - a) < n"
  then show "b \<in> region a n" by (auto simp: region_def image_iff intro!: bexI [of _ "unat (b - a)"])
qed

lemma sample_ready: "ready sample_ofs 28 sample_symbols sample_bridges sample_art" "layout_ok sample_ofs" "ANDROID_N \<le> 28"
  by (simp_all add: ready_def sample_art_def layout_ok_def sample_ofs_def ANDROID_N_def)

lemma sample_mem: "mem sample_art = sample_world"
  by (simp add: mem_def sample_art_def)

lemma sample_loads: "mbytes sample_world = word_image sample_words"
  by (simp add: sample_world_def)

lemma sample_readable: "readable sample_world a \<longleftrightarrow> a - 0x1000 < 40"
  by (simp add: readable_def sample_world_def prot_defs)

lemma sample_at: "method_at sample_ofs sample_world 0x1000 sample_method" "ld64 sample_world 0x1000 = Inr 0x100000abc"
proof -
  have "accessible sample_world 0x1000 40"
    by (simp add: accessible_iff region_iff readable_def writable_def sample_world_def prot_defs word_less_nat_alt)
  then show "method_at sample_ofs sample_world 0x1000 sample_method"
    by (simp add: method_at_def sample_ofs_def sample_method_def ld_word [OF sample_loads] all_readable_unfold sample_readable
        word_at_def sample_words_def)
  show "ld64 sample_world 0x1000 = Inr 0x100000abc"
    by (simp add: ld_word [OF sample_loads] all_readable_unfold sample_readable word_at_def sample_words_def)
qed

lemma sample_apart:
  "region 0x2000 40 \<inter> region 0x1000 40 = {}" "region 0x3000 40 \<inter> region 0x1000 40 = {}" "region 0x3000 40 \<inter> region 0x2000 40 = {}"
  using regions_disjoint [of "0x2000" 40 "0x1000" 40 0]
    regions_disjoint [of "0x3000" 40 "0x1000" 40 0]
    regions_disjoint [of "0x3000" 40 "0x2000" 40 0]
  by simp_all

lemma sample_runtime_ok:
  assumes v: "method_at sample_ofs w 0x1000 v" "profile_region v = {}"
    and c: "c = (if bit (mbytes w 0x1005) 0 then 0x3000 else 0x2000)"
  shows "runtime_ok sample_env sample_ofs sample_symbols w 0x1000 v c"
proof -
  have kept: "kept sample_ofs 0x1000 v = region 0x1000 40" by (simp add: kept_def v(2)) (simp add: sample_ofs_def)
  have apart: "region c 40 \<inter> region 0x1000 40 = {}" using sample_apart by (simp add: c)
  have "(0x1005 :: addr) \<in> region 0x1000 40" by (simp add: region_iff)
  then have same: "mbytes w' 0x1005 = mbytes w 0x1005" if "agree (region 0x1000 40) w w'" for w'
    using that by (simp add: agree_def)
  have acc: "accessible (w'\<lparr>mprot := \<lambda>a. if a - c < 40 then 3 else mprot w' a\<rparr>) c 40" for w'
    by (simp add: accessible_iff region_iff readable_def writable_def prot_defs word_less_nat_alt)
  have "agree (region 0x1000 40) w' (w'\<lparr>mprot := \<lambda>a. if a - c < 40 then 3 else mprot w' a\<rparr>)" for w'
    using apart by (auto simp: agree_def region_iff word_less_nat_alt disjoint_iff)
  then have "case sample_malloc w' n of (c', w1) \<Rightarrow> c' = c \<and> accessible w1 c 40 \<and> agree (region 0x1000 40) w' w1"
    if "agree (region 0x1000 40) w w'" for w' n
    using acc same [OF that] by (simp add: sample_malloc_def c Let_def split del: if_split)
  then show ?thesis
    using v apart unfolding runtime_ok_def kept
    by (simp add: sample_env_def sample_symbols_def) (simp add: sample_ofs_def)
qed

lemma sample_native:
  assumes "method_at sample_ofs w 0x1000 v"
  shows "bit (mbytes w 0x1005) 0 = bit (am_flags v) 8"
proof -
  have "ld32 w 0x1004 = Inr (am_flags v)" using assms by (simp add: method_at_def sample_ofs_def)
  then obtain b where "ld_le w (Suc (Suc (Suc (Suc 0)))) 0x1004 = Inr b" "am_flags v = ucast b"
    by (auto simp: ld32_def seqE_Inr_iff eval_nat_numeral)
  moreover have "\<not> bit x 8" for x :: u8 using bit_imp_le_length [of x 8] by auto
  ultimately show ?thesis by (auto simp: seqE_Inr_iff ld8_def bit_simps split: if_splits)
qed

lemma class_word_readable:
  assumes "layout_ok ofs" "method_at ofs w m v"
  shows "\<exists>cls. ld64 w m = Inr cls"
proof -
  have "0 + 8 \<le> unat (method_size_ofs ofs)" using assms(1) by (simp add: layout_ok_def)
  from region_part [OF this, of m] have "accessible w m 8" using assms(2) by (auto simp: method_at_def accessible_iff)
  then show ?thesis using ld_le_total [of w 8 m] by (auto simp: accessible_def ld64_def)
qed

lemma sample_runtime: "runtime_ok sample_env sample_ofs sample_symbols sample_world 0x1000 sample_method 0x2000"
proof (rule sample_runtime_ok [OF sample_at(1)])
  show "profile_region sample_method = {}" by (simp add: profile_region_def sample_method_def)
  show "0x2000 = (if bit (mbytes sample_world 0x1005) 0 then 0x3000 else 0x2000)"
    by (simp add: sample_native [OF sample_at(1)]) (simp add: sample_method_def)
qed

lemma hooked_native: "bit (hooked_flags level f) 8" "kAccNative AND hooked_flags level f \<noteq> 0"
proof -
  show *: "bit (hooked_flags level f) 8" by (simp add: hooked_flags_def Let_def acc_defs bit_simps)
  show "kAccNative AND hooked_flags level f \<noteq> 0"
  proof
    assume "kAccNative AND hooked_flags level f = 0"
    then have "\<not> bit (kAccNative AND hooked_flags level f) 8" by simp
    with * show False by (simp add: acc_defs bit_simps)
  qed
qed

lemma sample_runtime_again:
  assumes "method_at sample_ofs w 0x1000 (hooked 28 sample_bridges r sample_method)"
  shows "runtime_ok sample_env sample_ofs sample_symbols w 0x1000 (hooked 28 sample_bridges r sample_method) 0x3000"
proof (rule sample_runtime_ok [OF assms])
  show "profile_region (hooked 28 sample_bridges r sample_method) = {}"
    by (simp add: profile_region_def hooked_def hooked_native)
  show "0x3000 = (if bit (mbytes w 0x1005) 0 then 0x3000 else 0x2000)"
    using hooked_native(1) by (simp add: sample_native [OF assms]) (simp add: hooked_def)
qed

section \<open>Hooking\<close>

text \<open>
  Claim C21. With the symbols found and a runtime that leaves the method alone, \<open>Hook\<close> returns on Android N and later. The method
  is native with the replacement as its JNI code and the bridge as its entry point, its code item and its hotness are zero; a
  copy with the flags of a direct method, that runs the original code, is at the address \<open>malloc\<close> returned; the table has the
  original fields and that address under the method, unless it had an entry already; and the VM has been suspended before
  and resumed after, when both functions are there.
\<close>

theorem Hook_redirects:
  assumes "ready ofs level l b s" "ANDROID_N \<le> level" "runtime_ok env ofs l (mem s) m v c" "ld64 (mem s) m = Inr cls"
  shows "\<exists>s'. Hook env m replace s = (Inr (), s') \<and> method_at ofs (mem s') m (hooked level b replace v) \<and>
    method_at ofs (mem s') c (cloned level b v) \<and>
    hooked_method_map s' = add_key m (backup_key cls v c) (hooked_method_map s) \<and>
    vm_calls s' = vm_calls s @ vm_call l (suspend_vm l) @ force_call l @ vm_call l (resume_vm l)"
  using wp_run [OF Hook_wp [OF assms, of replace]] by (auto dest: hook_stateD)

theorem Hook_redirects_witness:
  "\<exists>s'. Hook sample_env 0x1000 0x7777 sample_art = (Inr (), s') \<and>
     method_at sample_ofs (mem s') 0x1000 \<lparr>am_flags = 0x2880101, am_dex = 0, am_hot = 0, am_quick = 0x22, am_jni = 0x7777\<rparr> \<and>
     method_at sample_ofs (mem s') 0x2000 \<lparr>am_flags = 0x2880002, am_dex = 0x77, am_hot = 0, am_quick = 0x23, am_jni = 0\<rparr> \<and>
     map_option key_original_method (hooked_method_map s' 0x1000) = Some 0x2000 \<and> vm_calls s' = [0x11, 0x13, 0x12]"
proof -
  have "hooked 28 sample_bridges 0x7777 sample_method =
      \<lparr>am_flags = 0x2880101, am_dex = 0, am_hot = 0, am_quick = 0x22, am_jni = 0x7777\<rparr>"
    "cloned 28 sample_bridges sample_method =
      \<lparr>am_flags = 0x2880002, am_dex = 0x77, am_hot = 0, am_quick = 0x23, am_jni = 0\<rparr>"
    by (simp_all add: hooked_def hooked_flags_def cloned_def clone_flags_def sample_bridges_def sample_method_def acc_defs
        android_defs)
  moreover have "hooked_method_map sample_art = Map.empty" "vm_calls sample_art = []" by (simp_all add: sample_art_def)
  moreover have "vm_call sample_symbols (suspend_vm sample_symbols) @ force_call sample_symbols @
      vm_call sample_symbols (resume_vm sample_symbols) = [0x11, 0x13, 0x12]"
    by (simp add: vm_call_def force_call_def sample_symbols_def)
  ultimately show ?thesis
    using Hook_redirects [OF sample_ready(1,3), where env = sample_env and m = "0x1000" and v = sample_method and c = "0x2000"
        and cls = "0x100000abc" and replace = "0x7777"]
    by (auto simp: sample_mem sample_runtime sample_at add_key_def backup_key_def)
qed

text \<open>
  Claim C27. Hooking a method a second time replaces its JNI code and keeps the first backup: the table still has the original
  fields and the first copy, although a second copy has been made of the hooked method.
\<close>

theorem Hook_keeps_first_backup:
  assumes "ready ofs level l b s" "ANDROID_N \<le> level" "runtime_ok env ofs l (mem s) m v c" "ld64 (mem s) m = Inr cls"
    and "hooked_method_map s m = None"
    and "\<And>w. method_at ofs w m (hooked level b replace v) \<Longrightarrow> runtime_ok env ofs l w m (hooked level b replace v) c2"
  shows "\<exists>s1 s2. Hook env m replace s = (Inr (), s1) \<and> Hook env m replace2 s1 = (Inr (), s2) \<and>
    method_at ofs (mem s2) m (hooked level b replace2 (hooked level b replace v)) \<and>
    hooked_method_map s2 = (hooked_method_map s)(m \<mapsto> backup_key cls v c)"
proof -
  obtain s1 where s1: "Hook env m replace s = (Inr (), s1)" "hook_state ofs level l b m c (cloned level b v)
       (add_key m (backup_key cls v c) (hooked_method_map s))
       (vm_calls s @ vm_call l (suspend_vm l) @ force_call l @ vm_call l (resume_vm l)) (hooked level b replace v) s1"
    using wp_run [OF Hook_wp [OF assms(1-4), of replace]] by auto
  obtain cls2 where "ld64 (mem s1) m = Inr cls2"
    using class_word_readable [OF _ hook_stateD(2) [OF s1(2)]] assms(1) by (auto simp: ready_def)
  from wp_run [OF Hook_wp [OF hook_stateD(1) [OF s1(2)] assms(2) assms(6) [OF hook_stateD(2) [OF s1(2)]] this, of replace2]]
  obtain s2 where "Hook env m replace2 s1 = (Inr (), s2)"
    "method_at ofs (mem s2) m (hooked level b replace2 (hooked level b replace v))"
    "hooked_method_map s2 = add_key m (backup_key cls2 (hooked level b replace v) c2) (hooked_method_map s1)"
    by (auto dest: hook_stateD)
  then show ?thesis using s1(1) hook_stateD(4) [OF s1(2)] assms(5) by (auto simp: add_key_def)
qed

theorem Hook_keeps_first_backup_witness:
  "\<exists>s1 s2. Hook sample_env 0x1000 0x7777 sample_art = (Inr (), s1) \<and> Hook sample_env 0x1000 0x8888 s1 = (Inr (), s2) \<and>
     map_option key_original_method (hooked_method_map s2 0x1000) = Some 0x2000"
proof -
  have "hooked_method_map sample_art 0x1000 = None" "runtime_ok sample_env sample_ofs sample_symbols (mem sample_art) 0x1000 sample_method 0x2000"
    "ld64 (mem sample_art) 0x1000 = Inr 0x100000abc"
    by (simp add: sample_art_def) (simp_all add: sample_mem sample_runtime sample_at)
  from Hook_keeps_first_backup [OF sample_ready(1,3) this(2,3,1) sample_runtime_again, of "0x7777" "0x8888"]
  show ?thesis by (auto simp: backup_key_def)
qed

section \<open>Calling the original\<close>

text \<open>
  While the first word of a hooked method is the saved one, \<open>InvokeOriginal\<close> invokes the backup and changes nothing.
\<close>

theorem InvokeOriginal_uses_backup:
  assumes "ready ofs level l b s" "method_at ofs (mem s) m v" "hooked_method_map s m = Some k"
    and "ld64 (mem s) m = Inr (key_decl_class k)"
  shows "InvokeOriginal env m s = (Inr (key_original_method k, kAccStatic AND am_flags v \<noteq> 0), s)"
  by (rule InvokeOriginal_same [OF assms])

theorem InvokeOriginal_uses_backup_witness:
  "\<exists>s'. InvokeOriginal sample_env 0x1000 s' = (Inr (0x2000, False), s')"
proof -
  let ?s = "sample_art\<lparr>hooked_method_map := [0x1000 \<mapsto> backup_key 0x100000abc sample_method 0x2000]\<rparr>"
  have "kAccStatic AND am_flags sample_method = 0" by (simp add: acc_defs sample_method_def)
  then have "InvokeOriginal sample_env 0x1000 ?s = (Inr (0x2000, False), ?s)"
    using InvokeOriginal_uses_backup [where s = ?s and m = "0x1000" and v = sample_method and env = sample_env]
    sample_ready(1) by (auto simp: sample_mem sample_at backup_key_def)
  then show ?thesis by blast
qed

text \<open>
  Claim C22. On a runtime with the flags at offset 4 the word that is compared contains the flags, which the hook changes: the
  first \<open>InvokeOriginal\<close> after the hook of a Java method always copies the method again, from the hooked method. The entry
  points and the code item of that copy are restored, its flags are not: the \<open>original\<close> that is invoked is marked native.
\<close>

theorem InvokeOriginal_copies_hooked_method:
  assumes "ready ofs level l b s" "ANDROID_N \<le> level" "runtime_ok env ofs l (mem s) m v c" "ld64 (mem s) m = Inr cls"
    and "hooked_method_map s m = None"
    and "\<And>w. method_at ofs w m (hooked level b replace v) \<Longrightarrow> runtime_ok env ofs l w m (hooked level b replace v) c2"
    and "access_flags_ofs ofs = 4" "kAccNative AND am_flags v = 0"
  shows "\<exists>s1 s2 static u. Hook env m replace s = (Inr (), s1) \<and> InvokeOriginal env m s1 = (Inr (c2, static), s2) \<and>
    method_at ofs (mem s2) c2 u \<and> am_dex u = am_dex v \<and> am_quick u = am_quick v \<and> am_jni u = am_jni v \<and>
    kAccNative AND am_flags u \<noteq> 0"
proof -
  obtain s1 where s1: "Hook env m replace s = (Inr (), s1)" "hook_state ofs level l b m c (cloned level b v)
       (add_key m (backup_key cls v c) (hooked_method_map s))
       (vm_calls s @ vm_call l (suspend_vm l) @ force_call l @ vm_call l (resume_vm l)) (hooked level b replace v) s1"
    using wp_run [OF Hook_wp [OF assms(1-4), of replace]] by auto
  obtain cls2 where cls2: "ld64 (mem s1) m = Inr cls2"
    using class_word_readable [OF _ hook_stateD(2) [OF s1(2)]] assms(1) by (auto simp: ready_def)
  have key: "hooked_method_map s1 m = Some (backup_key cls v c)"
    using hook_stateD(4) [OF s1(2)] assms(5) by (simp add: add_key_def)
  have diff: "key_decl_class (backup_key cls v c) \<noteq> cls2"
    using hook_changes_class_word [OF s1(2) runtime_okD(1) [OF assms(3)] assms(4,7,8) cls2] by (simp add: backup_key_def)
  from wp_run [OF InvokeOriginal_moved [OF hook_stateD(1) [OF s1(2)] assms(2) assms(6) [OF hook_stateD(2) [OF s1(2)]] cls2 key diff]]
  obtain s2 where s2: "InvokeOriginal env m s1 = (Inr (c2, kAccStatic AND am_flags (hooked level b replace v) \<noteq> 0), s2)"
    "method_at ofs (mem s2) c2 (restored (backup_key cls v c) (cloned level b (hooked level b replace v)))"
    by (auto simp: moved_def)
  have "bit (clone_flags level (hooked_flags level f)) 8" for f
    using hooked_native(1) [of level f] by (simp add: clone_flags_def Let_def acc_defs bit_simps)
  then have "bit (kAccNative AND am_flags (cloned level b (hooked level b replace v))) 8"
    by (simp add: cloned_def hooked_def acc_defs bit_simps)
  then have "kAccNative AND am_flags (cloned level b (hooked level b replace v)) \<noteq> 0" by (metis bit_0_eq bot_apply bot_bool_def)
  then have "kAccNative AND am_flags (restored (backup_key cls v c) (cloned level b (hooked level b replace v))) \<noteq> 0"
    by (simp add: restored_def)
  moreover have "am_dex (restored (backup_key cls v c) u) = am_dex v" "am_quick (restored (backup_key cls v c) u) = am_quick v"
    "am_jni (restored (backup_key cls v c) u) = am_jni v" for u
    by (simp_all add: restored_def backup_key_def)
  ultimately show ?thesis using s1(1) s2 by blast
qed

theorem InvokeOriginal_copies_hooked_method_witness:
  "\<exists>s1 s2 static u. Hook sample_env 0x1000 0x7777 sample_art = (Inr (), s1) \<and>
     InvokeOriginal sample_env 0x1000 s1 = (Inr (0x3000, static), s2) \<and> method_at sample_ofs (mem s2) 0x3000 u \<and>
     am_quick u = 0x9000 \<and> kAccNative AND am_flags u \<noteq> 0"
proof -
  have "hooked_method_map sample_art 0x1000 = None" "runtime_ok sample_env sample_ofs sample_symbols (mem sample_art) 0x1000 sample_method 0x2000"
    "ld64 (mem sample_art) 0x1000 = Inr 0x100000abc" "access_flags_ofs sample_ofs = 4" "kAccNative AND am_flags sample_method = 0"
    by (simp add: sample_art_def) (simp_all add: sample_mem sample_runtime sample_at, simp_all add: sample_ofs_def sample_method_def acc_defs)
  from InvokeOriginal_copies_hooked_method [OF sample_ready(1,3) this(2,3,1) sample_runtime_again this(4,5)]
  have "\<exists>s1 s2 static u. Hook sample_env 0x1000 0x7777 sample_art = (Inr (), s1) \<and>
     InvokeOriginal sample_env 0x1000 s1 = (Inr (0x3000, static), s2) \<and> method_at sample_ofs (mem s2) 0x3000 u \<and>
     am_quick u = am_quick sample_method \<and> kAccNative AND am_flags u \<noteq> 0"
    by blast
  moreover have "am_quick sample_method = 0x9000" by (simp add: sample_method_def)
  ultimately show ?thesis by simp
qed

section \<open>Errors\<close>

text \<open>\<open>InvokeOriginal\<close> of a method that has not been hooked reads through the null pointer.\<close>

lemma InvokeOriginal_needs_hook:
  "hooked_method_map s m = None \<Longrightarrow> InvokeOriginal env m s = (Inl Segv, s)"
  by (simp add: InvokeOriginal_def DealGCRoot_def with_key_def get_method_key_def bindE_def getE_def readE_def)

text \<open>When the VM is not among the words searched in the runtime, the class linker is the null pointer, and it is read from.\<close>

lemma trampoline_without_vm:
  assumes "get_jnienv_symbol s \<noteq> 0" "call_jnienv env (get_jnienv_symbol s) \<noteq> 0"
    and "DlSym (mem s) h ''art_quick_generic_jni_trampoline'' = Inr 0"
    and "MemberOf_ptr (mem s) (java_vm env) POINTER_SIZE = Inr rt"
    and "search_ptr (mem s) rt (java_vm env) (offsets_of 384 POINTER_SIZE 100) = Inr None" and "\<not> readable (mem s) 200"
  shows "fst (GetAndroidRuntimeAddress env h s) = Inl Segv"
proof -
  have "offsets_of (POINTER_SIZE * 25) POINTER_SIZE 100 = 200 # map (\<lambda>k. 200 + 8 * of_nat k) [1..<100]"
    by (simp add: offsets_of_def POINTER_SIZE_def upt_rec [of 0])
  moreover have "ld64 (mem s) 200 = Inl Segv" using assms(6) by (simp add: ld64_def ld8_def eval_nat_numeral)
  ultimately have "find_trampoline level (mem s) 0 it old = Inl Segv" for level it old
    by (simp add: find_trampoline_def MemberOf_ptr_def OffsetOf_def)
  moreover have "find_runtime level (mem s) rt (java_vm env) = Inr (0, 0, 0, 0)" for level
    using assms(5) by (simp add: find_runtime_def)
  ultimately show ?thesis
    using assms(1-4) by (simp add: GetAndroidRuntimeAddress_def GetJniEnv_cached through_env_def Let_def bindE_def retE_def dlsymE_def
        loadE_def modE_def sysE_def readE_def mem_def)
qed

text \<open>
  When \<^verbatim>\<open>libart.so\<close> cannot be opened, \<open>GetSymbol\<close> uses the null handle: the hook stops at its first step, with
  nothing changed but the open files, and so does every later call, since nothing has been cached.
\<close>

theorem Hook_without_libart_faults:
  assumes "\<not> symbol_inited s" "DlOpen (art_os env) (fresh_parser env (proc s)) (junk_range env (proc s)) ''libart.so'' (proc s) = Inr (None, p)"
  shows "Hook env m replace s = (Inl Undef, s\<lparr>proc := p\<rparr>) \<and> \<not> symbol_inited (snd (Hook env m replace s))"
proof -
  have "GetSymbol env s = (Inl Undef, s\<lparr>proc := p\<rparr>)"
    using assms by (simp add: GetSymbol_def bindE_def getE_def readE_def dlopenE_def symbolE_def dlsymE_def loadE_def DlSym_def)
  then have "Hook env m replace s = (Inl Undef, s\<lparr>proc := p\<rparr>)"
    by (simp add: Hook_def ManualControl_def bindE_def)
  then show ?thesis using assms(1) by simp
qed

theorem Hook_without_libart_faults_witness:
  "\<exists>s'. Hook sample_env 0x1000 0x7777 (sample_art\<lparr>symbol_inited := False\<rparr>) = (Inl Undef, s')"
proof -
  let ?s = "sample_art\<lparr>symbol_inited := False\<rparr>"
  have "find (code_of ''libart.so'') [code_vma] = None" by (simp add: code_of_def code_vma_def strstr.simps)
  then have "FindExecuteMemoryRange 1 2 (Some (concat (map vma_line [code_vma]))) ''libart.so'' = Inr MemoryRange"
    by (simp only: find_execute [OF code_named] option.case)
  then have "DlOpen sample_os sample_parser (1, 2) ''libart.so'' p = Inr (None, p)" for p
    by (simp add: DlOpen_def sample_os_def IsValid_def MemoryRange_def)
  then show ?thesis
    using Hook_without_libart_faults [of ?s sample_env "proc ?s" "0x1000" "0x7777"]
    by (auto simp: sample_env_def)
qed

end
