(* ===== verification/ArtInit.thy ===== *)
theory ArtInit
  imports ArtHookSpec ElfToolProps
begin

text \<open>
  \<open>GetBaseOffset\<close>, from which \<open>ArtMethod()\<close> computes the layout of a method: what it finds in two methods of
  \<^verbatim>\<open>java.lang.Object\<close>, what happens when a value is not found, and a process in which everything is found.
\<close>

section \<open>The search for a value\<close>

lemma GetOffsetByValue_find:
  "all_readable w 96 obj \<Longrightarrow> GetOffsetByValue_u4 w obj v =
     Inr (case find (\<lambda>x. ld32 w (obj + x) = Inr v) (offsets_of 0 4 24) of None \<Rightarrow> 0 | Some x \<Rightarrow> x)"
  "all_readable w 192 obj \<Longrightarrow> GetOffsetByValue_ptr w obj p =
     Inr (case find (\<lambda>x. ld64 w (obj + x) = Inr p) (offsets_of 0 8 24) of None \<Rightarrow> 0 | Some x \<Rightarrow> x)"
proof -
  have part: "all_readable w sz (obj + x)" if r: "all_readable w (sz * 24) obj" and x: "x \<in> set (offsets_of 0 (of_nat sz) 24)" for sz x
  proof -
    obtain k where k: "k < 24" "x = of_nat (sz * k)" using x by (auto simp: offsets_of_def)
    have "sz * Suc k \<le> sz * 24" using k(1) by (intro mult_le_mono2) simp
    then have lt: "sz * k + j < sz * 24" if "j < sz" for j using that unfolding mult_Suc_right by linarith
    have "readable w (obj + of_nat (sz * k + j))" if "j < sz" for j
      using r lt [OF that] unfolding all_readable_iff by blast
    then show ?thesis using k(2) by (simp add: all_readable_iff add.assoc)
  qed
  show "all_readable w 96 obj \<Longrightarrow> GetOffsetByValue_u4 w obj v =
     Inr (case find (\<lambda>x. ld32 w (obj + x) = Inr v) (offsets_of 0 4 24) of None \<Rightarrow> 0 | Some x \<Rightarrow> x)"
    using part [of 4] ld_le_total [of w 4] unfolding GetOffsetByValue_u4_def
    by (subst offset_loop_find) (fastforce simp: MemberOf_u4_def OffsetOf_def ld32_def)+
  show "all_readable w 192 obj \<Longrightarrow> GetOffsetByValue_ptr w obj p =
     Inr (case find (\<lambda>x. ld64 w (obj + x) = Inr p) (offsets_of 0 8 24) of None \<Rightarrow> 0 | Some x \<Rightarrow> x)"
    using part [of 8] ld_le_total [of w 8] unfolding GetOffsetByValue_ptr_def
    by (subst offset_loop_find) (fastforce simp: MemberOf_ptr_def OffsetOf_def ld64_def)+
qed

section \<open>The layout\<close>

abbreviation clone_flags_word :: u32 where
  "clone_flags_word \<equiv> kAccPrivate OR kAccNative OR kAccFastNative"

abbreviation clone_symbol :: string where
  "clone_symbol \<equiv> ''_ZN3artL20Object_internalCloneEP7_JNIEnvP8_jobject''"

text \<open>The methods, the symbol and the memory of the process before and after \<^verbatim>\<open>libart.so\<close> has been read.\<close>

definition object_methods :: "art_env \<Rightarrow> addr \<Rightarrow> addr \<Rightarrow> bool" where
  "object_methods env ic cm \<longleftrightarrow>
     jni_method env ''internalClone'' ''()Ljava/lang/Object;'' = ic \<and> jni_method env ''clone'' ''()Ljava/lang/Object;'' = cm"

lemma mem_proc: "mem (s\<lparr>proc := p\<rparr>) = image_of p"
  by (simp add: mem_def)

lemma GetBaseOffset_wp:
  assumes jni: "jni \<noteq> 0" and m: "object_methods env ic cm" "DistanceOf ic cm = Inr sz"
    and lib: "DlOpen (art_os env) (fresh_parser env (proc s)) (junk_range env (proc s)) ''libart.so'' (proc s) = Inr (h, p)"
      "DlSym (image_of p) h clone_symbol = Inr fn"
    and rd: "all_readable (mem s) 96 ic" "all_readable (image_of p) 192 ic"
  shows "wp (GetBaseOffset env jni) (\<lambda>x s'. s' = s\<lparr>proc := p\<rparr> \<and> x = \<lparr>sum_method_size = sz,
    sum_access_flags_offset = (case find (\<lambda>x. ld32 (mem s) (ic + x) = Inr clone_flags_word) (offsets_of 0 4 24) of None \<Rightarrow> 0 | Some x \<Rightarrow> x),
    sum_entrypoint_filed_size = 8,
    sum_jni_code_offset = (case find (\<lambda>x. ld64 (image_of p) (ic + x) = Inr fn) (offsets_of 0 8 24) of None \<Rightarrow> 0 | Some x \<Rightarrow> x)\<rparr>) s"
proof -
  have "wp (dlopenE env ''libart.so'') Q s = Q h (s\<lparr>proc := p\<rparr>)" for Q
    by (simp add: wp_def dlopenE_def lib(1))
  moreover have "wp (readE (\<lambda>s. DistanceOf ic cm)) Q s' = Q sz s'" for Q s'
    by (simp add: wp_def readE_def m(2))
  ultimately show ?thesis
    using m(1) jni by (simp add: GetBaseOffset_def object_methods_def GetOffsetByValue_find(1) [OF rd(1)] dlsymE_def mem_proc lib(2)
      GetOffsetByValue_find(2) [OF rd(2)])
qed

section \<open>A process with the two libraries\<close>

text \<open>
  \<open>internalClone\<close> at \<open>0x1000\<close> and \<open>clone\<close> at \<open>0x1028\<close>, a Java method at \<open>0x1100\<close>, and at \<open>0x10000\<close> the file with three symbols: in this
  example \<^verbatim>\<open>libart.so\<close>, loaded at \<open>0x5000\<close>, and \<^verbatim>\<open>libandroid_runtime.so\<close>, loaded at \<open>0x8000\<close>, have the same contents.
\<close>

definition boot_words :: "(addr \<times> u64) list" where
  "boot_words =
    [(0x10400, 0x747261334e5a5f00), (0x10408, 0x63656a624f30324c),
     (0x10410, 0x6e7265746e695f74), (0x10418, 0x45656e6f6c436c61),
     (0x10420, 0x6e45494e4a5f3750), (0x10428, 0x6a626f6a5f385076), (0x10430, 0x746365),
     (0x10440, 0x636975715f747261), (0x10448, 0x6972656e65675f6b),
     (0x10450, 0x72745f696e6a5f63), (0x10458, 0x656e696c6f706d61),
     (0x10468, 0x72646e61374e5a5f), (0x10470, 0x646e41343164696f),
     (0x10478, 0x746e755264696f72), (0x10480, 0x4a74656739656d69), (0x10488, 0x7645766e45494e),
     (0x1000, 0x8010200000abc), (0x1008, 0x77), (0x1018, 0x5500), (0x1020, 0x9000),
     (0x1100, 0x100000abd), (0x1108, 0x77), (0x1110, 0x50004), (0x1120, 0x9100),
     (0x10028, 0x100), (0x10038, 0x2000500000000), (0x10140, 0x200000000), (0x10158, 0x300),
     (0x10160, 0x48), (0x10180, 0x300000000), (0x10198, 0x360), (0x101a0, 0x9),
     (0x101c0, 0x300000001), (0x101d8, 0x400), (0x101e0, 0xc0), (0x10200, 0x100000000),
     (0x10220, 0x600), (0x10300, 0x1200000001), (0x10308, 0x500), (0x10318, 0x1200000040),
     (0x10320, 0x600), (0x10330, 0x1200000068), (0x10338, 0x700),
     (0x10360, 0x6261747274732e00)]"

definition boot_world :: world where
  "boot_world = \<lparr>mbytes = word_image boot_words, mprot = (\<lambda>a. if a - 0x1000 < 0x1000 \<or> a - 0x10000 < 0x1000 then 3 else 0)\<rparr>"

definition art_vma :: vma where
  "art_vma = code_vma\<lparr>v_name := ''/l/libart.so''\<rparr>"

definition runtime_vma :: vma where
  "runtime_vma = code_vma\<lparr>v_start := 0x8000, v_end := 0x9000, v_name := ''/l/libandroid_runtime.so''\<rparr>"

definition boot_os :: file_os where
  "boot_os = \<lparr>os_maps = (\<lambda>w. Some (concat (map vma_line [art_vma, runtime_vma]))), os_fopen = (\<lambda>path. Some 3), os_fstat = (\<lambda>f. Some 0x1000),
     os_mmap = (\<lambda>w n f. (Some 0x10000, boot_world)), os_munmap = (\<lambda>w b n. w), os_read = (\<lambda>w f b n. w)\<rparr>"

lemma boot_loads: "mbytes boot_world = word_image boot_words"
  by (simp add: boot_world_def)

lemma boot_readable: "readable boot_world a \<longleftrightarrow> a - 0x1000 < 0x1000 \<or> a - 0x10000 < 0x1000"
  by (simp add: readable_def boot_world_def prot_defs)

lemmas boot_simps = ld_word [OF boot_loads] boot_readable all_readable_unfold word_at_def boot_words_def

lemma art_vma_lines:
  "vma_line art_vma = ''00005000-00006000 r-xp 00000000 01:02 7 /l/libart.so'' @ [CHR 0x0A]"
  "vma_line runtime_vma = ''00008000-00009000 r-xp 00000000 01:02 7 /l/libandroid_runtime.so'' @ [CHR 0x0A]"
  by (simp_all add: vma_line_def art_vma_def runtime_vma_def code_vma_def padded_def hex_of.simps dec_of.simps hexchar_def
      char_of_eq_iff replicate_numeral)

lemma art_named: "named_maps [art_vma, runtime_vma]"
  by (simp add: named_maps_def maps_ok_def vma_ok_def art_vma_lines)
    (simp add: art_vma_def runtime_vma_def code_vma_def isspace_def device_def padded_def hex_of.simps hexchar_def replicate_numeral)

definition boot_parser :: "elf_parser \<Rightarrow> elf_parser" where
  "boot_parser raw = (ElfParser raw)\<lparr>ep_ehdr := 0x10000, ep_phdr := 0x10000, ep_shdr := 0x10100, ep_load_bias := 0,
     ep_shstrtab := 0x10360, ep_dynstr := 0x10360, ep_symtab := 0x10300, ep_symcnt := 3, ep_strtab := 0x10400\<rparr>"

lemma boot_parse: "Parse boot_world (ElfParser raw) 0x10000 = Inr (True, boot_parser raw)"
  by (simp add: Parse_def Let_def entries_def upt_rec section_layout_defs e_phoff_def boot_simps parse_section_def sht_defs
      parse_default_def section_is_def parse_strtab_def parse_progbits_def INT_MAX_def ElfParser_def boot_parser_def byte_of_def)

definition boot_image :: "addr \<Rightarrow> elf_parser \<Rightarrow> elf_image" where
  "boot_image base raw = \<lparr>ei_reader = \<lparr>er_base = 0x10000, er_len = 0x1000, er_fp = None, er_parser = boot_parser raw\<rparr>, ei_base = base\<rparr>"

definition boot_process :: process where
  "boot_process = \<lparr>image_of = boot_world, open_files = []\<rparr>"

lemma boot_open_at:
  assumes "find (code_of name) [art_vma, runtime_vma] = Some v" "v_start v < v_end v"
  shows "DlOpen boot_os raw (1, 2) name p =
    Inr (Some (boot_image (v_start v) raw), \<lparr>image_of = boot_world, open_files = 3 # open_files p\<rparr>)"
proof -
  have "FindExecuteMemoryRange 1 2 (os_maps boot_os w) name =
      Inr \<lparr>mr_path = Some (v_name v), mr_base = v_start v, mr_end = v_end v\<rparr>" for w
    using find_execute [OF art_named, of 1 2 name] assms(1) by (simp add: boot_os_def)
  moreover have "ElfImage_Open boot_os path base (ElfImage raw) p =
      Inr (True, boot_image base raw, \<lparr>image_of = boot_world, open_files = 3 # open_files p\<rparr>)" for path base
    by (simp add: ElfImage_Open_def ElfReader_Open_def ElfImage_def ElfReader_def boot_os_def boot_parse
        boot_image_def Let_def)
  ultimately show ?thesis using assms(2) by (simp add: DlOpen_def IsValid_def)
qed

lemma boot_open:
  "DlOpen boot_os raw (1, 2) ''libart.so'' p =
     Inr (Some (boot_image 0x5000 raw), \<lparr>image_of = boot_world, open_files = 3 # open_files p\<rparr>)"
  "DlOpen boot_os raw (1, 2) ''libandroid_runtime.so'' p =
     Inr (Some (boot_image 0x8000 raw), \<lparr>image_of = boot_world, open_files = 3 # open_files p\<rparr>)"
proof -
  have v: "v_start art_vma = 0x5000" "v_end art_vma = 0x6000" "v_start runtime_vma = 0x8000" "v_end runtime_vma = 0x9000"
    by (simp_all add: art_vma_def runtime_vma_def code_vma_def)
  have "find (code_of ''libart.so'') [art_vma, runtime_vma] = Some art_vma"
    "find (code_of ''libandroid_runtime.so'') [art_vma, runtime_vma] = Some runtime_vma"
    by (simp_all add: code_of_def art_vma_def runtime_vma_def code_vma_def strstr.simps)
  then show "DlOpen boot_os raw (1, 2) ''libart.so'' p =
     Inr (Some (boot_image 0x5000 raw), \<lparr>image_of = boot_world, open_files = 3 # open_files p\<rparr>)"
    "DlOpen boot_os raw (1, 2) ''libandroid_runtime.so'' p =
     Inr (Some (boot_image 0x8000 raw), \<lparr>image_of = boot_world, open_files = 3 # open_files p\<rparr>)"
    using boot_open_at [of "''libart.so''" art_vma raw p] boot_open_at [of "''libandroid_runtime.so''" runtime_vma raw p]
    by (simp_all add: v)
qed

abbreviation trampoline_symbol :: string where
  "trampoline_symbol \<equiv> ''art_quick_generic_jni_trampoline''"

definition boot_addr :: "string \<Rightarrow> addr" where
  "boot_addr name = (if name = trampoline_symbol then 0x5600 else if name = clone_symbol then 0x5500
     else if name = jnienv_name then 0x5700 else 0)"

lemma boot_strings: "cstr_at boot_world 0x10401 clone_symbol" "cstr_at boot_world 0x10440 trampoline_symbol"
  by (simp_all add: boot_simps byte_of_def)

lemma boot_jnienv_string: "cstr_at boot_world 0x10468 jnienv_name"
  by (simp add: boot_simps byte_of_def)

text \<open>One iteration of the linear search at a symbol with a name.\<close>

lemma linear_step:
  assumes "tab + 24 * of_nat k = s" "st_info w s = Inr info" "info AND (1 OR 2) \<noteq> 0" "st_name w s = Inr n"
    and "strcmp_eq w name (str + ucast n) = Inr b"
  shows "LinearLookup w name tab (Suc k) str = (if b then Inr (Some s) else LinearLookup w name tab k str)"
  using assms by simp

lemma boot_lookup:
  assumes "CHR 0x00 \<notin> set name"
  shows "LinearLookup boot_world name 0x10300 3 0x10400 =
      (if name = jnienv_name then Inr (Some 0x10330) else if name = trampoline_symbol then Inr (Some 0x10318)
        else if name = clone_symbol then Inr (Some 0x10300) else Inr None)"
proof -
  note name = strcmp_eq_cstr_at [OF _ assms]
  have k: "LinearLookup boot_world name 0x10300 (Suc 0) 0x10400 =
      (if name = clone_symbol then Inr (Some 0x10300) else LinearLookup boot_world name 0x10300 0 0x10400)"
    by (rule linear_step [where info = "0x12" and n = 1]) (use name [OF boot_strings(1)] in \<open>simp_all add: st_info_def st_name_def boot_simps\<close>)
  have k1: "LinearLookup boot_world name 0x10300 (Suc (Suc 0)) 0x10400 =
      (if name = trampoline_symbol then Inr (Some 0x10318) else LinearLookup boot_world name 0x10300 (Suc 0) 0x10400)"
    by (rule linear_step [where info = "0x12" and n = "0x40"]) (use name [OF boot_strings(2)] in \<open>simp_all add: st_info_def st_name_def boot_simps\<close>)
  have k2: "LinearLookup boot_world name 0x10300 (Suc (Suc (Suc 0))) 0x10400 =
      (if name = jnienv_name then Inr (Some 0x10330) else LinearLookup boot_world name 0x10300 (Suc (Suc 0)) 0x10400)"
    by (rule linear_step [where info = "0x12" and n = "0x68"]) (use name [OF boot_jnienv_string] in \<open>simp_all add: st_info_def st_name_def boot_simps\<close>)
  show ?thesis by (simp only: numeral_3_eq_3 k2 k1 k LinearLookup.simps(1))
qed

lemma boot_values:
  "st_value boot_world 0x10330 = Inr 0x700" "st_value boot_world 0x10318 = Inr 0x600" "st_value boot_world 0x10300 = Inr 0x500"
  by (simp_all add: st_value_def boot_simps)

lemma boot_symbol_at:
  assumes "LinearLookup boot_world name 0x10300 3 0x10400 = r" "r = Inr (Some s)" "st_value boot_world s = Inr v" "0 < v"
  shows "DlSym boot_world (Some (boot_image base raw)) name = Inr (base + v)"
  using assms by (simp add: DlSym_def FindSymbol_def FindSymbolOffset_def boot_image_def boot_parser_def ElfParser_def)

lemma boot_symbol:
  assumes "CHR 0x00 \<notin> set name"
  shows "DlSym boot_world (Some (boot_image 0x5000 raw)) name = Inr (boot_addr name)"
proof -
  consider "name = jnienv_name" | "name = trampoline_symbol" | "name = clone_symbol"
    | "name \<noteq> jnienv_name" "name \<noteq> trampoline_symbol" "name \<noteq> clone_symbol" by blast
  then show ?thesis
  proof cases
    case 1
    then show ?thesis using boot_symbol_at [OF boot_lookup [OF assms] _ boot_values(1), of "0x5000" raw] by (simp add: boot_addr_def)
  next
    case 2
    then show ?thesis using boot_symbol_at [OF boot_lookup [OF assms] _ boot_values(2), of "0x5000" raw] by (simp add: boot_addr_def)
  next
    case 3
    then show ?thesis using boot_symbol_at [OF boot_lookup [OF assms] _ boot_values(3), of "0x5000" raw] by (simp add: boot_addr_def)
  next
    case 4
    then have "LinearLookup boot_world name 0x10300 3 0x10400 = Inr None" by (simp only: boot_lookup [OF assms] if_False)
    moreover have "boot_addr name = 0" unfolding boot_addr_def using 4 by (simp only: if_False)
    ultimately show ?thesis
      by (simp add: DlSym_def FindSymbol_def FindSymbolOffset_def boot_image_def boot_parser_def ElfParser_def)
  qed
qed

lemma boot_jnienv: "DlSym boot_world (Some (boot_image 0x8000 raw)) jnienv_name = Inr 0x8700"
  using boot_symbol_at [OF boot_lookup _ boot_values(1), of jnienv_name "0x8000" raw] by simp

definition boot_env :: art_env where
  "boot_env = \<lparr>art_os = boot_os, fresh_parser = (\<lambda>_. sample_parser), junk_range = (\<lambda>_. (1, 2)), sdk_int = 28, java_vm = 0,
     jni_method = (\<lambda>name _. if name = ''internalClone'' then 0x1000 else if name = ''clone'' then 0x1028 else 0x1100),
     call_jnienv = (\<lambda>_. 0x4000), native_peer = None, tls = 0, art_malloc = (\<lambda>w n. (0x3000, w\<lparr>mprot := \<lambda>a. if a - 0x3000 < 40 then 3 else mprot w a\<rparr>)), call_void = (\<lambda>_ w. w), call_copy_from = (\<lambda>_ _ _ _ w. w), call_clone = (\<lambda>_ _ w. (0, w))\<rparr>"

definition boot_art :: art where
  "boot_art = \<lparr>proc = boot_process, symbol_inited = False,
     symbol_list = \<lparr>suspend_vm = 0, resume_vm = 0, force_process_profiles = 0, method_copy_from = 0, object_clone = 0,
       object_clone_with_class = 0, object_clone_with_size = 0\<rparr>,
     bridge_inited = True,
     bridge_list = \<lparr>interpreter_to_compiled_code = 0, quick_to_jni_bridge = 0x22, quick_to_interpreter = 0\<rparr>,
     runtime_obj = \<lparr>ro_vm = 0, ro_runtime = 0, ro_heap = 0, ro_thread_list = 0, ro_class_linker = 0, ro_intern_table = 0\<rparr>,
     api_level = 0, art_prepared = True,
     method_offset = \<lparr>method_size_ofs = 0, jni_code_ofs = 0, quick_code_ofs = 0, access_flags_ofs = 0, dex_code_item_ofs = 0,
       dex_method_index_ofs = 0, method_index_ofs = 0, interpreter_code_ofs = 0, hotness_count_ofs = 0\<rparr>,
     hooked_method_map = Map.empty, vm_calls = [], app_method = 0, get_jnienv_symbol = 0\<rparr>"

lemma boot_all_readable: "n \<le> 0x800 \<Longrightarrow> all_readable boot_world n 0x1000"
  by (auto simp: all_readable_iff boot_readable word_less_nat_alt unat_of_nat take_bit_nat_eq_self_iff)

lemma offsets_Cons:
  "offsets_of 0 4 24 = 0 # 4 # map (\<lambda>k. 0 + 4 * of_nat k) [2..<24]"
  "offsets_of 0 8 24 = 0 # 8 # 16 # 24 # map (\<lambda>k. 0 + 8 * of_nat k) [4..<24]"
  by (simp_all add: offsets_of_def upt_rec)

lemma boot_finds:
  "find (\<lambda>x. ld32 boot_world (0x1000 + x) = Inr clone_flags_word) (offsets_of 0 4 24) = Some 4"
  "find (\<lambda>x. ld64 boot_world (0x1000 + x) = Inr 0x5500) (offsets_of 0 8 24) = Some 24"
  by (simp_all add: offsets_Cons boot_simps acc_defs del: find_Some_iff)

text \<open>
  A value that is not among the words searched is reported at offset 0, like a value found there: the layout is then
  computed from offset 0, where the class of the method is.
\<close>

lemma GetOffsetByValue_not_found:
  assumes "all_readable w 96 obj" "\<forall>k<24. ld32 w (obj + of_nat (4 * k)) \<noteq> Inr v"
  shows "GetOffsetByValue_u4 w obj v = Inr 0"
proof -
  have "find (\<lambda>x. ld32 w (obj + x) = Inr v) (offsets_of 0 4 24) = None"
    using assms(2) by (auto simp: find_None_iff offsets_of_def)
  then show ?thesis by (simp add: GetOffsetByValue_find(1) [OF assms(1)])
qed

end
