(* ===== verification/ArtResolve.thy ===== *)
theory ArtResolve
  imports ArtProps ArtInit
begin

text \<open>
  From a process in which nothing has been looked up yet to a hooked method: the symbols that \<open>GetSymbol\<close> and \<open>GetBridgeList\<close>
  resolve, the layout computed with them, and the first hook.
\<close>

section \<open>A library with symbols\<close>

definition art_names :: "int \<Rightarrow> string list" where
  "art_names level = [''_ZN3art3Dbg9SuspendVMEv'', ''_ZN3art3Dbg8ResumeVMEv'',
     ''_ZN3art12ProfileSaver20ForceProcessProfilesEv'', method_copy_from_name level,
     ''_ZN3art6mirror6Object5CloneEPNS_6ThreadE'', ''_ZN3art6mirror6Object5CloneEPNS_6ThreadEPNS0_5ClassE'',
     ''_ZN3art6mirror6Object5CloneEPNS_6ThreadEm'', ''artInterpreterToCompiledCodeBridge'',
     ''art_quick_generic_jni_trampoline'', ''art_quick_to_interpreter_bridge'', clone_symbol]"

text \<open>\<open>libart.so\<close> can be opened whenever the memory at \<open>R\<close> is as in \<open>w0\<close>; this keeps \<open>R\<close>, and \<open>addr\<close> gives the symbols.\<close>

definition libart_ok :: "art_env \<Rightarrow> addr set \<Rightarrow> world \<Rightarrow> (string \<Rightarrow> addr) \<Rightarrow> bool" where
  "libart_ok env R w0 addr \<longleftrightarrow> (\<forall>p. agree R w0 (image_of p) \<longrightarrow>
     (\<exists>h p'. DlOpen (art_os env) (fresh_parser env p) (junk_range env p) ''libart.so'' p = Inr (h, p') \<and>
        agree R (image_of p) (image_of p') \<and>
        (\<forall>name\<in>set (art_names (sdk_int env)). DlSym (image_of p') h name = Inr (addr name))))"

lemma libart_okE:
  assumes "libart_ok env R w0 addr" "agree R w0 (mem s)"
  obtains h p where "\<And>Q. wp (dlopenE env ''libart.so'') Q s = Q h (s\<lparr>proc := p\<rparr>)"
    and "DlOpen (art_os env) (fresh_parser env (proc s)) (junk_range env (proc s)) ''libart.so'' (proc s) = Inr (h, p)"
    and "agree R (mem s) (image_of p)" "agree R w0 (image_of p)"
    and "\<And>name. name \<in> set (art_names (sdk_int env)) \<Longrightarrow> DlSym (image_of p) h name = Inr (addr name)"
proof -
  obtain h p where "DlOpen (art_os env) (fresh_parser env (proc s)) (junk_range env (proc s)) ''libart.so'' (proc s) = Inr (h, p)"
    "agree R (mem s) (image_of p)" "\<forall>name\<in>set (art_names (sdk_int env)). DlSym (image_of p) h name = Inr (addr name)"
    using assms by (auto simp: libart_ok_def mem_def)
  then show ?thesis
    using agree_trans [OF assms(2)] by (intro that [of h p]) (auto simp: wp_def dlopenE_def)
qed

lemma symbolE_wp:
  "DlSym (mem s) h name = Inr a \<Longrightarrow> wp (symbolE h name store) Q s = Q () (s\<lparr>symbol_list := store a (symbol_list s)\<rparr>)"
  by (simp add: symbolE_def dlsymE_def)

lemma mem_update [simp]:
  "mem (s\<lparr>symbol_list := sl\<rparr>) = mem s" "mem (s\<lparr>symbol_inited := x\<rparr>) = mem s" "mem (s\<lparr>runtime_obj := ro\<rparr>) = mem s"
  "mem (s\<lparr>bridge_list := bl\<rparr>) = mem s" "mem (s\<lparr>bridge_inited := x\<rparr>) = mem s" "mem (s\<lparr>api_level := lv\<rparr>) = mem s"
  "mem (s\<lparr>method_offset := mo\<rparr>) = mem s" "mem (s\<lparr>art_prepared := x\<rparr>) = mem s" "mem (s\<lparr>proc := p\<rparr>) = image_of p"
  "mem (s\<lparr>app_method := am\<rparr>) = mem s" "mem (s\<lparr>get_jnienv_symbol := js\<rparr>) = mem s"
  by (simp_all add: mem_def)

lemma libart_ok_agree: "libart_ok env R w0 addr \<Longrightarrow> agree R w0 w \<Longrightarrow> libart_ok env R w addr"
  unfolding libart_ok_def using agree_trans by blast

section \<open>The environment\<close>

text \<open>
  \<^verbatim>\<open>libandroid_runtime.so\<close> can be opened in the same way, has \<open>getJNIEnv\<close> at \<open>jsym\<close>, and the thread is attached: the environment is not null.
\<close>

definition jni_ok :: "art_env \<Rightarrow> addr set \<Rightarrow> world \<Rightarrow> addr \<Rightarrow> bool" where
  "jni_ok env R w0 jsym \<longleftrightarrow> jsym \<noteq> 0 \<and> call_jnienv env jsym \<noteq> 0 \<and>
     (\<forall>p. agree R w0 (image_of p) \<longrightarrow>
       (\<exists>h p'. DlOpen (art_os env) (fresh_parser env p) (junk_range env p) ''libandroid_runtime.so'' p = Inr (h, p') \<and>
          agree R (image_of p) (image_of p') \<and> DlSym (image_of p') h jnienv_name = Inr jsym))"

lemma GetJniEnv_known: "get_jnienv_symbol s \<noteq> 0 \<Longrightarrow> wp (GetJniEnv env) Q s = Q (call_jnienv env (get_jnienv_symbol s)) s"
  by (simp add: wp_def GetJniEnv_cached)

lemma GetJniEnv_wp:
  assumes "jni_ok env R w0 jsym" "agree R w0 (mem s)" "get_jnienv_symbol s = 0"
  shows "wp (GetJniEnv env) (\<lambda>jni s'. jni = call_jnienv env jsym \<and>
    (\<exists>p. s' = s\<lparr>proc := p, get_jnienv_symbol := jsym\<rparr> \<and> agree R (mem s) (image_of p))) s"
proof -
  obtain h p where op: "DlOpen (art_os env) (fresh_parser env (proc s)) (junk_range env (proc s)) ''libandroid_runtime.so'' (proc s) = Inr (h, p)"
    and ag: "agree R (mem s) (image_of p)" and sym: "DlSym (image_of p) h jnienv_name = Inr jsym"
    using assms(1,2) by (auto simp: jni_ok_def mem_def)
  have "wp (dlopenE env ''libandroid_runtime.so'') Q s = Q h (s\<lparr>proc := p\<rparr>)" for Q
    by (simp add: wp_def dlopenE_def op)
  moreover have "wp (dlsymE h jnienv_name) Q (s\<lparr>proc := p\<rparr>) = Q jsym (s\<lparr>proc := p\<rparr>)" for Q
    by (simp add: dlsymE_def sym)
  moreover have "jsym \<noteq> 0" using assms(1) by (simp add: jni_ok_def)
  ultimately show ?thesis
    using assms(3) ag by (simp add: GetJniEnv_def) (rule exI [of _ p], simp)
qed

section \<open>The symbols\<close>

definition resolved :: "int \<Rightarrow> (string \<Rightarrow> addr) \<Rightarrow> art_symbols \<Rightarrow> art_symbols" where
  "resolved level addr l =
     (let l = l\<lparr>suspend_vm := addr ''_ZN3art3Dbg9SuspendVMEv'', resume_vm := addr ''_ZN3art3Dbg8ResumeVMEv'',
            force_process_profiles := addr ''_ZN3art12ProfileSaver20ForceProcessProfilesEv'',
            method_copy_from := addr (method_copy_from_name level),
            object_clone := addr ''_ZN3art6mirror6Object5CloneEPNS_6ThreadE''\<rparr>
      in if object_clone l = 0
         then l\<lparr>object_clone_with_class := addr ''_ZN3art6mirror6Object5CloneEPNS_6ThreadEPNS0_5ClassE'',
                object_clone_with_size := addr ''_ZN3art6mirror6Object5CloneEPNS_6ThreadEm''\<rparr>
         else l)"

lemma GetSymbol_wp:
  assumes lib: "libart_ok env R w0 addr" "agree R w0 (mem s)" and "\<not> symbol_inited s"
  shows "wp (GetSymbol env) (\<lambda>l s'. l = resolved (sdk_int env) addr (symbol_list s) \<and>
    (\<exists>p. s' = s\<lparr>proc := p, symbol_list := l, symbol_inited := True\<rparr> \<and> agree R (mem s) (image_of p))) s"
proof (rule libart_okE [OF lib])
  fix h p
  assume op: "\<And>Q. wp (dlopenE env ''libart.so'') Q s = Q h (s\<lparr>proc := p\<rparr>)" and ag: "agree R (mem s) (image_of p)"
    and sym: "\<And>name. name \<in> set (art_names (sdk_int env)) \<Longrightarrow> DlSym (image_of p) h name = Inr (addr name)"
  have "wp (symbolE h name store) Q s' = Q () (s'\<lparr>symbol_list := store (addr name) (symbol_list s')\<rparr>)"
    if "mem s' = image_of p" "name \<in> set (art_names (sdk_int env))" for s' name store Q
    using that sym by (simp add: symbolE_wp)
  note step = this
  show ?thesis
    using assms(3) ag
    by (simp add: GetSymbol_def op step art_names_def resolved_def Let_def) (simp add: exI [of _ p])
qed

section \<open>The bridges\<close>

definition resolved_bridges :: "(string \<Rightarrow> addr) \<Rightarrow> art_bridges" where
  "resolved_bridges addr = \<lparr>interpreter_to_compiled_code = addr ''artInterpreterToCompiledCodeBridge'',
     quick_to_jni_bridge = addr ''art_quick_generic_jni_trampoline'',
     quick_to_interpreter = addr ''art_quick_to_interpreter_bridge''\<rparr>"

lemma GetBridgeList_wp:
  assumes lib: "libart_ok env R w0 addr" "agree R w0 (mem s)" and "\<not> bridge_inited s"
    and jni: "addr ''art_quick_generic_jni_trampoline'' \<noteq> 0"
    and known: "get_jnienv_symbol s \<noteq> 0" "call_jnienv env (get_jnienv_symbol s) \<noteq> 0"
  shows "wp (GetBridgeList env) (\<lambda>b s'. b = resolved_bridges addr \<and>
    (\<exists>p ro. s' = s\<lparr>proc := p, runtime_obj := ro, bridge_list := b, bridge_inited := True\<rparr> \<and> agree R (mem s) (image_of p))) s"
proof (rule libart_okE [OF lib])
  fix h p
  assume op: "\<And>Q. wp (dlopenE env ''libart.so'') Q s = Q h (s\<lparr>proc := p\<rparr>)" and ag: "agree R (mem s) (image_of p)"
    and sym: "\<And>name. name \<in> set (art_names (sdk_int env)) \<Longrightarrow> DlSym (image_of p) h name = Inr (addr name)"
  have "wp (dlsymE h name) Q s' = Q (addr name) s'"
    if "mem s' = image_of p" "name \<in> set (art_names (sdk_int env))" for s' name Q
    using that sym by (simp add: dlsymE_def)
  note step = this
  show ?thesis
    using assms(3) ag jni known
    by (simp add: GetBridgeList_def GetAndroidRuntimeAddress_def GetJniEnv_known op step art_names_def resolved_bridges_def Let_def)
      (rule exI [of _ p], rule conjI [OF exI ag], rule refl)
qed

section \<open>The layout\<close>

definition field_layout :: "u64 \<Rightarrow> u64 \<Rightarrow> u64 \<Rightarrow> art_offsets" where
  "field_layout sz af jc = \<lparr>method_size_ofs = sz, jni_code_ofs = jc, quick_code_ofs = jc + 8, access_flags_ofs = af,
     dex_code_item_ofs = af + 4, dex_method_index_ofs = af + 8, method_index_ofs = af + 12, interpreter_code_ofs = 0,
     hotness_count_ofs = af + 14\<rparr>"

lemma find_region_cong:
  assumes "agree (region a 192) w w'"
  shows "find (\<lambda>x. ld64 w' (a + x) = Inr v) (offsets_of 0 8 24) = find (\<lambda>x. ld64 w (a + x) = Inr v) (offsets_of 0 8 24)"
    and "find (\<lambda>x. ld32 w' (a + x) = Inr u) (offsets_of 0 4 24) = find (\<lambda>x. ld32 w (a + x) = Inr u) (offsets_of 0 4 24)"
proof -
  have part: "agree (region (a + of_nat i) k) w w'" if "i + k \<le> 192" for i k
    using agree_subset [OF assms region_part [OF that]] .
  have "ld64 w' (a + x) = ld64 w (a + x)" if x: "x \<in> set (offsets_of 0 8 24)" for x
  proof -
    obtain k where "k < 24" "x = of_nat (8 * k)" using x by (auto simp: offsets_of_def)
    then show ?thesis using ld_agree(3) [OF part [of "8 * k" 8]] by simp
  qed
  then show "find (\<lambda>x. ld64 w' (a + x) = Inr v) (offsets_of 0 8 24) = find (\<lambda>x. ld64 w (a + x) = Inr v) (offsets_of 0 8 24)"
    by (intro find_cong) simp_all
  have "ld32 w' (a + x) = ld32 w (a + x)" if x: "x \<in> set (offsets_of 0 4 24)" for x
  proof -
    obtain k where "k < 24" "x = of_nat (4 * k)" using x by (auto simp: offsets_of_def)
    then show ?thesis using ld_agree(2) [OF part [of "4 * k" 4]] by simp
  qed
  then show "find (\<lambda>x. ld32 w' (a + x) = Inr u) (offsets_of 0 4 24) = find (\<lambda>x. ld32 w (a + x) = Inr u) (offsets_of 0 4 24)"
    by (intro find_cong) simp_all
qed

lemma all_readable_agree: "agree (region a n) w w' \<Longrightarrow> all_readable w' n a = all_readable w n a"
  by (auto simp: all_readable_iff agree_def region_def readable_def)

text \<open>What \<open>ArtMethod()\<close> needs to find.\<close>

definition object_ok :: "art_env \<Rightarrow> world \<Rightarrow> (string \<Rightarrow> addr) \<Rightarrow> addr \<Rightarrow> u64 \<Rightarrow> u64 \<Rightarrow> u64 \<Rightarrow> bool" where
  "object_ok env w addr ic sz af jc \<longleftrightarrow>
     (\<exists>cm. object_methods env ic cm \<and> DistanceOf ic cm = Inr sz) \<and> all_readable w 192 ic \<and>
     find (\<lambda>x. ld32 w (ic + x) = Inr clone_flags_word) (offsets_of 0 4 24) = Some af \<and>
     find (\<lambda>x. ld64 w (ic + x) = Inr (addr clone_symbol)) (offsets_of 0 8 24) = Some jc"

lemma object_ok_agree:
  assumes "object_ok env w addr ic sz af jc" "agree (region ic 192) w w'"
  shows "object_ok env w' addr ic sz af jc"
  using assms(1) find_region_cong [OF assms(2)] all_readable_agree [OF assms(2)] by (simp add: object_ok_def)

text \<open>The steps after the environment has been fetched.\<close>

lemma layout_wp:
  assumes s: "ANDROID_N \<le> sdk_int env" "\<not> bridge_inited s" "interpreter_code_ofs (method_offset s) = 0"
    and jni: "get_jnienv_symbol s \<noteq> 0" "call_jnienv env (get_jnienv_symbol s) \<noteq> 0" "jni \<noteq> 0"
    and lib: "libart_ok env R (mem s) addr" "addr ''art_quick_generic_jni_trampoline'' \<noteq> 0"
    and obj: "object_ok env (mem s) addr ic sz af jc" "region ic 192 \<subseteq> R"
  shows "wp (bindE (GetBaseOffset env jni) (\<lambda>summary. bindE (getE method_offset) (\<lambda>o1.
      bindE (CalculateOtherOffset env summary o1) (\<lambda>o2. modE (\<lambda>s. s\<lparr>method_offset := o2\<rparr>)))))
    (\<lambda>_ s'. \<exists>p ro. agree R (mem s) (image_of p) \<and> s' = s\<lparr>proc := p, runtime_obj := ro, bridge_list := resolved_bridges addr,
      bridge_inited := True, method_offset := field_layout sz af jc\<rparr>) s"
proof -
  obtain h p where
    op: "DlOpen (art_os env) (fresh_parser env (proc s)) (junk_range env (proc s)) ''libart.so'' (proc s) = Inr (h, p)"
    and ag: "agree R (mem s) (image_of p)" "DlSym (image_of p) h clone_symbol = Inr (addr clone_symbol)"
    by (rule libart_okE [OF lib(1), of s]) (simp_all add: art_names_def)
  obtain cm where cm: "object_methods env ic cm" "DistanceOf ic cm = Inr sz" using obj(1) by (auto simp: object_ok_def)
  note agi = agree_subset [OF ag(1) obj(2)]
  have rd: "all_readable (mem s) 96 ic" "all_readable (image_of p) 192 ic"
    using obj(1) all_readable_agree [OF agi] by (auto simp: object_ok_def all_readable_iff)
  have base: "wp (GetBaseOffset env jni) (\<lambda>x s'. s' = s\<lparr>proc := p\<rparr> \<and> x = \<lparr>sum_method_size = sz, sum_access_flags_offset = af,
      sum_entrypoint_filed_size = 8, sum_jni_code_offset = jc\<rparr>) s"
    using GetBaseOffset_wp [OF jni(3) cm op ag(2) rd] obj(1) find_region_cong(1) [OF agi] by (simp add: object_ok_def)
  have "agree R (mem s) (mem (s\<lparr>proc := p\<rparr>))" using ag(1) by simp
  then have bridges: "wp (GetBridgeList env) (\<lambda>b s'. b = resolved_bridges addr \<and>
    (\<exists>p' ro. s' = s\<lparr>proc := p, proc := p', runtime_obj := ro, bridge_list := b, bridge_inited := True\<rparr> \<and>
       agree R (image_of p) (image_of p'))) (s\<lparr>proc := p\<rparr>)"
    using GetBridgeList_wp [OF lib(1) _ _ lib(2), of "s\<lparr>proc := p\<rparr>"] s(2) jni(1,2) by simp
  have layout: "(method_offset s)\<lparr>method_size_ofs := sz, access_flags_ofs := af, jni_code_ofs := jc, quick_code_ofs := jc + 8,
      dex_code_item_ofs := af + 4, dex_method_index_ofs := af + 8, method_index_ofs := af + 12, hotness_count_ofs := af + 12 + 2\<rparr> =
      field_layout sz af jc"
    using s(3) by (cases "method_offset s") (simp add: field_layout_def)
  have calc: "wp (CalculateOtherOffset env \<lparr>sum_method_size = sz, sum_access_flags_offset = af,
      sum_entrypoint_filed_size = 8, sum_jni_code_offset = jc\<rparr> (method_offset s))
      (\<lambda>o2 s'. o2 = field_layout sz af jc \<and> (\<exists>p' ro. s' = s\<lparr>proc := p', runtime_obj := ro,
         bridge_list := resolved_bridges addr, bridge_inited := True\<rparr> \<and> agree R (image_of p) (image_of p'))) (s\<lparr>proc := p\<rparr>)"
    using s(1) layout by (simp add: CalculateOtherOffset_def Let_def) (rule wp_mono [OF bridges], auto)
  show ?thesis
    by simp (rule wp_mono [OF base], clarsimp, rule wp_mono [OF calc], auto intro: agree_trans [OF ag(1)])
qed

lemma ArtMethod_init_wp:
  assumes s: "api_level s \<le> 0" "art_prepared s" "ANDROID_N \<le> sdk_int env" "\<not> bridge_inited s" "get_jnienv_symbol s = 0"
      "interpreter_code_ofs (method_offset s) = 0"
    and lib: "libart_ok env R (mem s) addr" "addr ''art_quick_generic_jni_trampoline'' \<noteq> 0" "jni_ok env R (mem s) jsym"
    and obj: "object_ok env (mem s) addr ic sz af jc" "region ic 192 \<subseteq> R"
  shows "wp (ArtMethod_init env) (\<lambda>_ s'. \<exists>p ro. agree R (mem s) (image_of p) \<and>
    s' = s\<lparr>api_level := sdk_int env, proc := p, get_jnienv_symbol := jsym, runtime_obj := ro, bridge_list := resolved_bridges addr,
      bridge_inited := True, method_offset := field_layout sz af jc\<rparr>) s"
proof -
  let ?s = "s\<lparr>api_level := sdk_int env\<rparr>"
  have sym: "jsym \<noteq> 0" "call_jnienv env jsym \<noteq> 0" using lib(3) by (simp_all add: jni_ok_def)
  have env: "wp (GetJniEnv env) (\<lambda>jni s'. jni = call_jnienv env jsym \<and>
      (\<exists>p. s' = ?s\<lparr>proc := p, get_jnienv_symbol := jsym\<rparr> \<and> agree R (mem s) (image_of p))) ?s"
    using GetJniEnv_wp [OF lib(3), of ?s] s(5) by simp
  let ?rest = "\<lambda>jni. bindE (GetBaseOffset env jni) (\<lambda>summary. bindE (getE method_offset) (\<lambda>o1.
      bindE (CalculateOtherOffset env summary o1) (\<lambda>o2. modE (\<lambda>s. s\<lparr>method_offset := o2\<rparr>))))"
  let ?Q = "\<lambda>_ s'. \<exists>p ro. agree R (mem s) (image_of p) \<and>
    s' = s\<lparr>api_level := sdk_int env, proc := p, get_jnienv_symbol := jsym, runtime_obj := ro, bridge_list := resolved_bridges addr,
      bridge_inited := True, method_offset := field_layout sz af jc\<rparr>"
  have rest: "wp (?rest (call_jnienv env jsym)) ?Q s1"
    if s1: "s1 = ?s\<lparr>proc := p, get_jnienv_symbol := jsym\<rparr>" "agree R (mem s) (image_of p)" for s1 p
  proof -
    have ag: "agree R (mem s) (mem s1)" using s1 by simp
    have o1: "object_ok env (mem s1) addr ic sz af jc" by (rule object_ok_agree [OF obj(1) agree_subset [OF ag obj(2)]])
    have "wp (?rest (call_jnienv env jsym)) (\<lambda>_ s'. \<exists>p' ro. agree R (mem s1) (image_of p') \<and> s' = s1\<lparr>proc := p', runtime_obj := ro,
        bridge_list := resolved_bridges addr, bridge_inited := True, method_offset := field_layout sz af jc\<rparr>) s1"
      by (rule layout_wp [OF s(3) _ _ _ _ sym(2) libart_ok_agree [OF lib(1) ag] lib(2) o1 obj(2)]) (use s s1 sym in simp_all)
    then show ?thesis
    proof (rule wp_mono)
      fix x s'
      assume "\<exists>p' ro. agree R (mem s1) (image_of p') \<and> s' = s1\<lparr>proc := p', runtime_obj := ro,
        bridge_list := resolved_bridges addr, bridge_inited := True, method_offset := field_layout sz af jc\<rparr>"
      then obtain p' ro where p': "agree R (mem s1) (image_of p')" and s': "s' = s1\<lparr>proc := p', runtime_obj := ro,
        bridge_list := resolved_bridges addr, bridge_inited := True, method_offset := field_layout sz af jc\<rparr>" by blast
      have "s' = s\<lparr>api_level := sdk_int env, proc := p', get_jnienv_symbol := jsym, runtime_obj := ro,
          bridge_list := resolved_bridges addr, bridge_inited := True, method_offset := field_layout sz af jc\<rparr>"
        using s' s1(1) by (cases s) simp
      then show "?Q x s'" using agree_trans [OF ag p'] by blast
    qed
  qed
  have "wp (bindE (GetJniEnv env) ?rest) ?Q ?s"
    unfolding wp_bind [of "GetJniEnv env"] by (rule wp_mono [OF env]) (use rest in blast)
  then show ?thesis
    using s(1,2) by (simp add: ArtMethod_init_def del: wp_bind) (simp add: wp_bind [of "getE _"] wp_bind [of "modE _"])
qed

section \<open>The first hook\<close>

lemma runtime_ok_agree:
  assumes l: "layout_ok ofs" and ok: "runtime_ok env ofs l w0 m v c" and ag: "agree (kept ofs m v) w0 w"
  shows "runtime_ok env ofs l w m v c"
proof -
  have prof: "accessible w (am_jni v) 20" if "profile_region v \<noteq> {}"
  proof -
    have "region (am_jni v) 20 \<subseteq> kept ofs m v" using that by (auto simp: kept_def profile_region_def split: if_splits)
    then show ?thesis using runtime_okD(6) [OF ok that] accessible_agree [OF agree_subset [OF ag]] by simp
  qed
  have malloc: "case art_malloc env w' (method_size_ofs ofs) of (c', w1) \<Rightarrow>
      c' = c \<and> accessible w1 c (unat (method_size_ofs ofs)) \<and> agree (kept ofs m v) w' w1" if "agree (kept ofs m v) w w'" for w'
    by (rule runtime_ok_malloc [OF ok agree_trans [OF ag that]]) simp
  have copy: "let w2 = call_copy_from env (method_copy_from l) c m 8 w' in method_at ofs w2 c v \<and> agree (kept ofs m v) w' w2"
    if "method_copy_from l \<noteq> 0" "agree (kept ofs m v) w w'" "accessible w' c (unat (method_size_ofs ofs))" for w'
    using runtime_ok_copy [OF ok that(1) agree_trans [OF ag that(2)] that(3)] by (simp add: Let_def)
  show ?thesis
    unfolding runtime_ok_def
    by (intro conjI impI allI runtime_ok_method [OF l ok ag] prof runtime_okD(2,4) [OF ok] malloc copy
        runtime_ok_quiet [OF ok, unfolded quiet_def]) simp_all
qed

text \<open>The first step of a hook looks the symbols up; the rest of it is as if they had been there.\<close>

lemma Hook_resolves:
  assumes "\<not> symbol_inited s" "wp (GetSymbol env) (\<lambda>l s'. P s' \<and> symbol_inited s' \<and> symbol_list s' = l) s"
  shows "\<exists>s'. P s' \<and> Hook env m replace s = Hook env m replace s'"
proof -
  obtain l s' where "GetSymbol env s = (Inr l, s')" "P s'" "symbol_inited s'" "symbol_list s' = l"
    using wp_run [OF assms(2)] by blast
  moreover from this have "GetSymbol env s' = (Inr l, s')" by (simp add: GetSymbol_def bindE_def getE_def readE_def)
  ultimately show ?thesis by (auto simp: Hook_def ManualControl_def bindE_def)
qed

section \<open>Start of the virtual machine\<close>

text \<open>
  \<^verbatim>\<open>src/cpp/art/hook_module\<close>: the replacement of \<open>JNI_CreateJavaVM\<close>, which calls the original (\<open>None\<close> when it has not been
  saved), announces that the VM is there and hooks \<open>callApplicationOnCreate\<close>; \<open>impl\<close> is the address of its replacement.
\<close>

definition JNI_OK :: int where "JNI_OK = 0"

definition hook_app_on_create :: "art_env \<Rightarrow> addr \<Rightarrow> unit art_eff" where
  "hook_app_on_create env impl =
     bindE (GetJniEnv env) (\<lambda>jni.
     bindE (through_env jni) (\<lambda>_.
     let jni_method = jni_method env ''callApplicationOnCreate'' ''(Landroid/app/Application;)V'' in
     bindE (modE (\<lambda>s. s\<lparr>app_method := jni_method\<rparr>)) (\<lambda>_.
     Hook env jni_method impl)))"

text \<open>The replacement of \<open>callApplicationOnCreate\<close> calls the original; the arguments are the JNI's.\<close>

definition my_CallApplicationOnCreate :: "art_env \<Rightarrow> (addr \<times> bool) art_eff" where
  "my_CallApplicationOnCreate env = bindE (getE app_method) (InvokeOriginal env)"

definition JNI_CreateJavaVM_Impl :: "art_env \<Rightarrow> int art_eff option \<Rightarrow> addr \<Rightarrow> int art_eff" where
  "JNI_CreateJavaVM_Impl env old_create_jvm impl =
     (case old_create_jvm of None \<Rightarrow> retE JNI_OK
      | Some create \<Rightarrow>
        bindE create (\<lambda>ret.
        bindE (if ret = JNI_OK then SetArtPrepared env True else retE ()) (\<lambda>_.
        bindE (hook_app_on_create env impl) (\<lambda>_.
        retE ret))))"

text \<open>
  Claim C20. From a process in which nothing has been initialised, once the original has created the VM, on Android N and later: \<open>JNI_CreateJavaVM_Impl\<close>
  fetches the environment, computes the layout of methods, looks up the symbols and hooks \<open>callApplicationOnCreate\<close>, and returns \<open>JNI_OK\<close>; the method
  is native with the replacement as its code, and its copy and its fields are in the table. The conditions: both libraries can be opened without
  harm to the methods and export the environment (not null) and the trampoline, the two methods of \<^verbatim>\<open>Object\<close> hold what is searched for, and
  the runtime leaves the hooked method alone.
\<close>

theorem create_jvm_hooks_application:
  assumes create: "create s0 = (Inr JNI_OK, s)"
    and s: "api_level s \<le> 0" "\<not> art_prepared s" "\<not> symbol_inited s" "\<not> bridge_inited s" "interpreter_code_ofs (method_offset s) = 0"
      "hooked_method_map s = Map.empty" "get_jnienv_symbol s = 0" and n: "ANDROID_N \<le> sdk_int env"
    and m: "m = jni_method env ''callApplicationOnCreate'' ''(Landroid/app/Application;)V''"
    and obj: "object_ok env (mem s) addr ic sz af jc" "layout_ok (field_layout sz af jc)"
    and lib: "libart_ok env (region ic 192 \<union> kept (field_layout sz af jc) m v) (mem s) addr" "addr ''art_quick_generic_jni_trampoline'' \<noteq> 0"
      "jni_ok env (region ic 192 \<union> kept (field_layout sz af jc) m v) (mem s) jsym"
    and ok: "runtime_ok env (field_layout sz af jc) (resolved (sdk_int env) addr (symbol_list s)) (mem s) m v c" and cls: "ld64 (mem s) m = Inr cls"
  shows "\<exists>s'. JNI_CreateJavaVM_Impl env (Some create) impl s0 = (Inr JNI_OK, s') \<and>
    method_at (field_layout sz af jc) (mem s') m (hooked (sdk_int env) (resolved_bridges addr) impl v) \<and>
    method_at (field_layout sz af jc) (mem s') c (cloned (sdk_int env) (resolved_bridges addr) v) \<and>
    hooked_method_map s' = [m \<mapsto> backup_key cls v c]"
proof -
  let ?ofs = "field_layout sz af jc" and ?l = "resolved (sdk_int env) addr (symbol_list s)" and ?b = "resolved_bridges addr"
  let ?R = "region ic 192 \<union> kept ?ofs m v" and ?s = "s\<lparr>art_prepared := True\<rparr>"
  let ?Q = "\<lambda>s'. method_at ?ofs (mem s') m (hooked (sdk_int env) ?b impl v) \<and> method_at ?ofs (mem s') c (cloned (sdk_int env) ?b v) \<and>
    hooked_method_map s' = [m \<mapsto> backup_key cls v c]"
  have init: "wp (ArtMethod_init env) (\<lambda>_ s'. \<exists>p ro. agree ?R (mem ?s) (image_of p) \<and>
    s' = ?s\<lparr>api_level := sdk_int env, proc := p, get_jnienv_symbol := jsym, runtime_obj := ro, bridge_list := ?b, bridge_inited := True,
      method_offset := ?ofs\<rparr>) ?s"
    by (rule ArtMethod_init_wp [where addr = addr]) (use s n obj(1) lib in auto)
  have hook: "wp (hook_app_on_create env impl) (\<lambda>_. ?Q) s1"
    if "agree ?R (mem s) (image_of p)"
      "s1 = ?s\<lparr>api_level := sdk_int env, proc := p, get_jnienv_symbol := jsym, runtime_obj := ro, bridge_list := ?b, bridge_inited := True,
         method_offset := ?ofs\<rparr>" for s1 p ro
  proof -
    let ?s1 = "s1\<lparr>app_method := m\<rparr>"
    have ag1: "agree ?R (mem s) (mem ?s1)" and un: "\<not> symbol_inited ?s1" using that s(3) by simp_all
    have sym: "wp (GetSymbol env) (\<lambda>l s'. (ready ?ofs (sdk_int env) ?l ?b s' \<and> agree ?R (mem s) (mem s') \<and> hooked_method_map s' = Map.empty) \<and>
        symbol_inited s' \<and> symbol_list s' = l) ?s1"
      by (rule wp_mono [OF GetSymbol_wp [OF lib(1) ag1 un]]) (use that s(6) obj(2) agree_trans [OF ag1] in \<open>auto simp: ready_def\<close>)
    obtain s2 where s2: "ready ?ofs (sdk_int env) ?l ?b s2" "agree ?R (mem s) (mem s2)" "hooked_method_map s2 = Map.empty"
      "Hook env m impl ?s1 = Hook env m impl s2"
      using Hook_resolves [OF un sym, where m = m and replace = impl] by blast
    have "agree (kept ?ofs m v) (mem s) (mem s2)" by (rule agree_subset [OF s2(2)]) simp
    note ok2 = runtime_ok_agree [OF obj(2) ok this] class_word_agree [OF obj(2) agree_subset [OF this]]
    have "ld64 (mem s2) m = Inr cls" using ok2(2) cls by (simp add: kept_def)
    from wp_run [OF Hook_wp [OF s2(1) n ok2(1) this, of impl]]
    obtain s3 where "Hook env m impl s2 = (Inr (), s3)" "?Q s3"
      using s2(3) by (auto dest: hook_stateD simp: add_key_def)
    then have "wp (Hook env m impl) (\<lambda>_. ?Q) ?s1" using s2(4) by (simp add: wp_def)
    moreover have "get_jnienv_symbol s1 \<noteq> 0" "call_jnienv env (get_jnienv_symbol s1) \<noteq> 0" using that(2) lib(3) by (simp_all add: jni_ok_def)
    ultimately show ?thesis using m by (simp add: hook_app_on_create_def GetJniEnv_known Let_def)
  qed
  have run_create: "wp create Q s0 = Q JNI_OK s" for Q
    by (simp add: wp_def create)
  have "wp (JNI_CreateJavaVM_Impl env (Some create) impl) (\<lambda>ret s'. ret = JNI_OK \<and> ?Q s') s0"
    using init hook s(2) by (simp add: JNI_CreateJavaVM_Impl_def run_create SetArtPrepared_def JNI_OK_def) (erule wp_mono, auto)
  then show ?thesis by (auto dest: wp_run)
qed

section \<open>An example\<close>

definition boot_method :: art_method where
  "boot_method = \<lparr>am_flags = 1, am_dex = 0x77, am_hot = 5, am_quick = 0x9100, am_jni = 0\<rparr>"

definition first_art :: art where
  "first_art = boot_art\<lparr>bridge_inited := False, art_prepared := False\<rparr>"

lemma first_mem: "mem first_art = boot_world"
  by (simp add: mem_def first_art_def boot_art_def boot_process_def)

abbreviation boot_layout :: art_offsets where
  "boot_layout \<equiv> field_layout 40 4 24"

lemma boot_layout_ok: "layout_ok boot_layout" "unat (method_size_ofs boot_layout) = 40"
  by (simp_all add: layout_ok_def field_layout_def)

lemma boot_method_at: "method_at boot_layout boot_world 0x1100 boot_method" "ld64 boot_world 0x1100 = Inr 0x100000abd"
proof -
  have "accessible boot_world 0x1100 40"
  proof -
    have "readable boot_world (0x1100 + of_nat k)" if "k < 40" for k
    proof -
      have all: "\<forall>j<0x800. readable boot_world (0x1000 + of_nat j)"
        using boot_all_readable [of "0x800"] by (simp add: all_readable_iff)
      show ?thesis using all [rule_format, of "0x100 + k"] that by (simp add: add.assoc [symmetric])
    qed
    moreover have "writable boot_world a = readable boot_world a" for a
      by (simp add: writable_def readable_def boot_world_def prot_defs)
    ultimately show ?thesis by (simp add: accessible_def all_readable_iff all_writable_iff)
  qed
  then show "method_at boot_layout boot_world 0x1100 boot_method"
    by (simp add: method_at_def field_layout_def boot_method_def boot_simps)
  show "ld64 boot_world 0x1100 = Inr 0x100000abd"
    by (simp add: boot_simps)
qed

lemma boot_object_ok: "object_ok boot_env boot_world boot_addr 0x1000 40 4 24"
proof -
  have "object_methods boot_env 0x1000 0x1028" "DistanceOf 0x1000 0x1028 = Inr 40" "boot_addr clone_symbol = 0x5500"
    by (simp_all add: object_methods_def boot_env_def DistanceOf_def boot_addr_def)
  then show ?thesis using boot_finds boot_all_readable [of 192] unfolding object_ok_def by auto
qed

lemma boot_libart_ok: "libart_ok boot_env R boot_world boot_addr"
proof -
  have "agree R (image_of p) boot_world" if "agree R boot_world (image_of p)" for p
    using that by (simp add: agree_def)
  moreover have "\<forall>name\<in>set (art_names 28). CHR 0x00 \<notin> set name"
    by (simp add: art_names_def method_copy_from_name_def android_defs)
  ultimately show ?thesis
    unfolding libart_ok_def by (simp add: boot_env_def boot_open boot_symbol) blast
qed

lemma boot_jni_ok: "jni_ok boot_env R boot_world 0x8700"
proof -
  have "agree R (image_of p) boot_world" if "agree R boot_world (image_of p)" for p
    using that by (simp add: agree_def)
  then show ?thesis unfolding jni_ok_def by (simp add: boot_env_def boot_open boot_jnienv) blast
qed

lemma boot_runtime_ok: "runtime_ok boot_env boot_layout l boot_world 0x1100 boot_method 0x3000" if "method_copy_from l = 0"
proof -
  have kept: "kept boot_layout 0x1100 boot_method = region 0x1100 40"
    by (simp add: kept_def profile_region_def boot_layout_ok) (simp add: boot_method_def)
  have apart: "region 0x3000 40 \<inter> region (0x1100 :: addr) 40 = {}"
    using regions_disjoint [of "0x3000" 40 "0x1100" 40 0] by simp
  have "accessible (w\<lparr>mprot := \<lambda>a. if a - 0x3000 < 40 then 3 else mprot w a\<rparr>) 0x3000 40" for w
    by (simp add: accessible_iff region_iff readable_def writable_def prot_defs word_less_nat_alt)
  moreover have "agree (region 0x1100 40) w (w\<lparr>mprot := \<lambda>a. if a - 0x3000 < 40 then 3 else mprot w a\<rparr>)" for w
    using apart by (auto simp: agree_def region_iff word_less_nat_alt disjoint_iff)
  moreover have "profile_region boot_method = {}" by (simp add: profile_region_def boot_method_def)
  ultimately show ?thesis
    using apart boot_method_at(1) that unfolding runtime_ok_def kept by (simp add: boot_layout_ok boot_env_def)
qed

theorem create_jvm_hooks_application_witness:
  "\<exists>s'. JNI_CreateJavaVM_Impl boot_env (Some (\<lambda>s. (Inr JNI_OK, s))) 0x7777 first_art = (Inr JNI_OK, s') \<and>
     method_at boot_layout (mem s') 0x1100 \<lparr>am_flags = 0x2880101, am_dex = 0, am_hot = 0, am_quick = 0x5600, am_jni = 0x7777\<rparr> \<and>
     map_option key_original_method (hooked_method_map s' 0x1100) = Some 0x3000"
proof -
  let ?b = "resolved_bridges boot_addr"
  have "hooked 28 ?b 0x7777 boot_method =
      \<lparr>am_flags = 0x2880101, am_dex = 0, am_hot = 0, am_quick = 0x5600, am_jni = 0x7777\<rparr>"
    by (simp add: hooked_def hooked_flags_def resolved_bridges_def boot_addr_def boot_method_def acc_defs android_defs)
  moreover have "\<exists>s'. JNI_CreateJavaVM_Impl boot_env (Some (\<lambda>s. (Inr JNI_OK, s))) 0x7777 first_art = (Inr JNI_OK, s') \<and>
    method_at boot_layout (mem s') 0x1100 (hooked (sdk_int boot_env) ?b 0x7777 boot_method) \<and>
    method_at boot_layout (mem s') 0x3000 (cloned (sdk_int boot_env) ?b boot_method) \<and>
    hooked_method_map s' = [0x1100 \<mapsto> backup_key 0x100000abd boot_method 0x3000]"
  proof (rule create_jvm_hooks_application [where s = first_art and ic = "0x1000" and jsym = "0x8700"], unfold first_mem)
    show "runtime_ok boot_env boot_layout (resolved (sdk_int boot_env) boot_addr (symbol_list first_art)) boot_world 0x1100 boot_method 0x3000"
      by (rule boot_runtime_ok) (simp add: resolved_def boot_env_def boot_addr_def method_copy_from_name_def android_defs)
  qed (simp_all add: boot_object_ok boot_layout_ok boot_libart_ok boot_jni_ok boot_method_at,
    simp_all add: first_art_def boot_art_def boot_env_def android_defs boot_addr_def)
  ultimately show ?thesis by (auto simp: boot_env_def backup_key_def)
qed

text \<open>
  Claim C23. The first run of \<open>ArtMethod()\<close>, on Android N and later: it fetches the environment, finds the word with the flags and the one with
  the native function of \<open>internalClone\<close>, at \<open>af\<close> and \<open>jc\<close>, resolves the bridges, and returns. The offsets are those of the fields around the two
  words, and satisfy the layout that the hook relies on as soon as the fields do not overlap and lie in the object; the memory of the region is kept.
  The conditions: nothing has been looked up before and the layout is still zero, both libraries can be opened without changing the region and export the environment
  (not null) and the trampoline, and both words are there.
\<close>

theorem ArtMethod_init_layout:
  assumes s: "api_level s \<le> 0" "art_prepared s" "ANDROID_N \<le> sdk_int env" "\<not> bridge_inited s" "get_jnienv_symbol s = 0"
      "interpreter_code_ofs (method_offset s) = 0"
    and lib: "libart_ok env R (mem s) addr" "addr ''art_quick_generic_jni_trampoline'' \<noteq> 0" "jni_ok env R (mem s) jsym"
    and obj: "object_ok env (mem s) addr ic sz af jc" "region ic 192 \<subseteq> R"
    and fit: "unat af + 16 \<le> unat jc" "unat jc + 16 \<le> unat sz" "unat sz \<le> 2 ^ 32"
  shows "\<exists>s'. ArtMethod_init env s = (Inr (), s') \<and> api_level s' = sdk_int env \<and>
    method_offset s' = field_layout sz af jc \<and> layout_ok (method_offset s') \<and>
    bridge_inited s' \<and> bridge_list s' = resolved_bridges addr \<and> get_jnienv_symbol s' = jsym \<and> agree R (mem s) (mem s')"
proof -
  have "layout_ok (field_layout sz af jc)" using fit by (simp add: layout_ok_def field_layout_def)
  then show ?thesis using wp_run [OF ArtMethod_init_wp [OF s lib obj]] by fastforce
qed

theorem ArtMethod_init_layout_witness:
  "\<exists>s'. ArtMethod_init boot_env (first_art\<lparr>art_prepared := True\<rparr>) = (Inr (), s') \<and> layout_ok (method_offset s') \<and>
     method_size_ofs (method_offset s') = 40 \<and> access_flags_ofs (method_offset s') = 4 \<and> jni_code_ofs (method_offset s') = 24 \<and>
     quick_to_jni_bridge (bridge_list s') = 0x5600"
proof -
  let ?s = "first_art\<lparr>art_prepared := True\<rparr>"
  have s: "api_level ?s \<le> 0" "art_prepared ?s" "ANDROID_N \<le> sdk_int boot_env" "\<not> bridge_inited ?s" "get_jnienv_symbol ?s = 0"
      "interpreter_code_ofs (method_offset ?s) = 0"
    by (simp_all add: first_art_def boot_art_def boot_env_def android_defs)
  have "\<exists>s'. ArtMethod_init boot_env ?s = (Inr (), s') \<and> api_level s' = sdk_int boot_env \<and>
    method_offset s' = boot_layout \<and> layout_ok (method_offset s') \<and>
    bridge_inited s' \<and> bridge_list s' = resolved_bridges boot_addr \<and> get_jnienv_symbol s' = 0x8700 \<and>
    agree (region 0x1000 192) (mem ?s) (mem s')"
    by (rule ArtMethod_init_layout [OF s, where ic = "0x1000" and sz = 40])
      (simp_all add: first_mem boot_libart_ok boot_jni_ok boot_object_ok, simp add: boot_addr_def)
  then show ?thesis by (auto simp: field_layout_def resolved_bridges_def boot_addr_def)
qed

text \<open>Without \<^verbatim>\<open>libandroid_runtime.so\<close> the replacement does not return: the null handle is used as soon as the VM has been created.\<close>

lemma create_jvm_without_runtime_library:
  assumes "create s0 = (Inr JNI_OK, s)" "api_level s \<le> 0" "\<not> art_prepared s" "get_jnienv_symbol s = 0"
    and none: "DlOpen (art_os env) (fresh_parser env (proc s)) (junk_range env (proc s)) ''libandroid_runtime.so'' (proc s) = Inr (None, p)"
  shows "fst (JNI_CreateJavaVM_Impl env (Some create) impl s0) = Inl Undef"
proof -
  let ?s = "s\<lparr>art_prepared := True, api_level := sdk_int env\<rparr>"
  have "GetJniEnv env ?s = (Inl Undef, ?s\<lparr>proc := p\<rparr>)"
    by (rule GetJniEnv_without_library) (use assms(4) none in simp_all)
  then show ?thesis
    using assms(1-3) by (simp add: JNI_CreateJavaVM_Impl_def SetArtPrepared_def ArtMethod_init_def bindE_def getE_def readE_def modE_def
        sysE_def JNI_OK_def)
qed

end
