(* ===== verification/ProcessName.thy ===== *)
theory ProcessName
  imports Protect
begin

text \<open>
  \<open>GetProcessName\<close> of \<^verbatim>\<open>src/cpp/elf/process_map.cc\<close> and \<open>is_zygote\<close> of \<^verbatim>\<open>src/cpp/art/native_load.cpp\<close>: two buffers of
  fixed size, and a pointer into a string that is gone.
\<close>

section \<open>The name of a process\<close>

text \<open>What \<open>sprintf\<close> writes, without the final zero; \<open>filename\<close> has 20 bytes.\<close>

definition cmdline_path :: "nat \<Rightarrow> string" where
  "cmdline_path pid = ''/proc/'' @ dec_of pid @ ''/cmdline''"

text \<open>The array \<open>line\<close> after reading at most its 100 bytes from the file, which may not be there.\<close>

definition cmdline_line :: "string option \<Rightarrow> string" where
  "cmdline_line file =
     (let s = (case file of None \<Rightarrow> [] | Some content \<Rightarrow> take 100 content) in s @ replicate (100 - length s) (CHR 0x00))"

text \<open>The array becomes a \<open>std::string\<close>, which ends at its first zero.\<close>

definition GetProcessName :: "(string \<Rightarrow> string option) \<Rightarrow> nat \<Rightarrow> string res" where
  "GetProcessName read pid =
     (if length (cmdline_path pid) + 1 > 20 then Inl Undef
      else let line = cmdline_line (read (cmdline_path pid)) in
        if CHR 0x00 \<in> set line then Inr (takeWhile (\<lambda>c. c \<noteq> CHR 0x00) line) else Inl Undef)"

text \<open>
  \<open>is_zygote\<close> keeps a pointer into the string \<open>GetProcessName\<close> has returned, which is destroyed before the pointer is used:
  \<open>freed s\<close> is what is found at the place of the destroyed string \<open>s\<close>.
\<close>

definition is_zygote :: "(string \<Rightarrow> string res) \<Rightarrow> (string \<Rightarrow> string option) \<Rightarrow> nat \<Rightarrow> bool res" where
  "is_zygote freed read pid =
     seqE (GetProcessName read pid) (\<lambda>name.
     seqE (freed name) (\<lambda>process_name. Inr (process_name = ''zygote'' \<or> strstr process_name ''app_process'')))"

section \<open>What it computes\<close>

lemma length_dec_of: "length (dec_of n) \<le> Suc k \<longleftrightarrow> n < 10 ^ Suc k"
proof (induction k arbitrary: n)
  case 0
  have "dec_of (n div 10) \<noteq> []" by (subst dec_of.simps) simp
  then show ?case by (subst dec_of.simps) auto
next
  case (Suc k)
  show ?case
  proof (cases "n < 10")
    case True
    moreover have "n < 10 ^ Suc (Suc k)" using True less_le_trans [of n 10 "10 ^ Suc (Suc k)"] by simp
    ultimately show ?thesis by (subst dec_of.simps) simp
  next
    case False
    then have "length (dec_of n) = Suc (length (dec_of (n div 10)))" by (subst dec_of.simps) simp
    moreover have "n < 10 ^ Suc (Suc k) \<longleftrightarrow> n div 10 < 10 ^ Suc k"
      by (simp add: less_mult_imp_div_less div_less_iff_less_mult mult.commute)
    ultimately show ?thesis using Suc.IH [of "n div 10"] by simp
  qed
qed

lemma cmdline_fits: "length (cmdline_path pid) + 1 \<le> 20 \<longleftrightarrow> pid < 100000"
  using length_dec_of [of pid 4] by (simp add: cmdline_path_def)

text \<open>
  Claim C40. \<open>GetProcessName\<close> returns the command line up to its first zero exactly when the process id has at most five digits
  and the command line has a zero among its first 100 bytes or is shorter; otherwise \<open>sprintf\<close> writes past \<open>filename\<close>, or the
  string is read past the end of \<open>line\<close>. A missing file gives the empty name.
\<close>

theorem GetProcessName_exact:
  "GetProcessName read pid = Inr name \<longleftrightarrow>
     (let file = (case read (cmdline_path pid) of None \<Rightarrow> [] | Some content \<Rightarrow> content) in
      pid < 100000 \<and> (length file < 100 \<or> CHR 0x00 \<in> set (take 100 file)) \<and> name = takeWhile (\<lambda>c. c \<noteq> CHR 0x00) file)"
proof -
  have line: "cmdline_line f = take 100 s @ replicate (100 - length s) (CHR 0x00)"
    if "s = (case f of None \<Rightarrow> [] | Some content \<Rightarrow> content)" for f s
    using that by (auto simp: cmdline_line_def Let_def min_def split: option.split)
  have zero: "CHR 0x00 \<in> set (take 100 s @ replicate (100 - length s) (CHR 0x00)) \<longleftrightarrow>
      length s < 100 \<or> CHR 0x00 \<in> set (take 100 s)" for s :: string
    by auto
  have name: "takeWhile (\<lambda>c. c \<noteq> CHR 0x00) (take 100 s @ replicate (100 - length s) (CHR 0x00)) = takeWhile (\<lambda>c. c \<noteq> CHR 0x00) s"
    if "length s < 100 \<or> CHR 0x00 \<in> set (take 100 s)" for s :: string
  proof (cases "CHR 0x00 \<in> set (take 100 s)")
    case True
    then show ?thesis
      using takeWhile_append1 [OF True, of "\<lambda>c. c \<noteq> CHR 0x00" "drop 100 s"]
      by (simp add: takeWhile_append1 [OF True])
  next
    case False
    then have s: "take 100 s = s" using that by simp
    have "\<forall>c\<in>set s. c \<noteq> CHR 0x00" using False s by auto
    then show ?thesis by (simp add: s takeWhile_append takeWhile_eq_all_conv [THEN iffD2])
  qed
  show ?thesis
    unfolding GetProcessName_def Let_def line [OF refl] zero using cmdline_fits [of pid] name by auto
qed

end
