(* ===== verification/NativeStart.thy ===== *)
theory NativeStart
  imports XHook ArtResolve ProcessName
begin

text \<open>
  The start of the library in the zygote: the object \<open>s\<close> of \<^verbatim>\<open>native-lib.cpp\<close> and \<open>hook_create_jvm\<close> of
  \<^verbatim>\<open>create_jvm.cpp\<close>. Here the two halves of the program meet: xHook redirects \<^verbatim>\<open>JNI_CreateJavaVM\<close>, and the function
  that is then called in its place hooks a method of the virtual machine.
\<close>

section \<open>One process\<close>

text \<open>The globals of both halves; the memory is that of the process.\<close>

type_synonym ('rx, 'a) native = "(art \<times> 'rx core, 'a) eff"

definition on_art :: "'a art_eff \<Rightarrow> ('rx, 'a) native" where
  "on_art m = (\<lambda>(s, c). case m s of (r, s') \<Rightarrow> (r, (s', c)))"

definition on_xhook :: "('rx, 'a) proc \<Rightarrow> ('rx, 'a) native" where
  "on_xhook m = (\<lambda>(s, c). case m (c, mem s) of (r, (c', w)) \<Rightarrow> (r, (set_mem w s, c')))"

section \<open>hook\_create\_jvm\<close>

definition so_regex :: string where
  "so_regex = ''.*'' @ [CHR 0x5C] @ ''.so$''"

text \<open>
  \<open>create_jvm_symbol\<close> is what \<open>dlsym\<close> returns, \<open>impl\<close> the address of \<open>JNI_CreateJavaVM_Impl\<close> and \<open>var\<close> that of
  \<open>old_create_jvm\<close>.
\<close>

definition hook_create_jvm :: "art_env \<Rightarrow> 'rx env \<Rightarrow> addr \<Rightarrow> addr \<Rightarrow> addr \<Rightarrow> ('rx, unit) native" where
  "hook_create_jvm aenv env create_jvm_symbol impl var =
     bindE (on_art (SetArtPrepared aenv False)) (\<lambda>_.
     if create_jvm_symbol \<noteq> 0 then
       bindE (on_xhook (xhook_register env (Some so_regex) (Some ''JNI_CreateJavaVM'') impl var)) (\<lambda>_.
       bindE (on_xhook (xhook_refresh env 0)) (\<lambda>_. retE ()))
     else retE ())"

definition static_initializer ::
    "art_env \<Rightarrow> 'rx env \<Rightarrow> bool res \<Rightarrow> addr \<Rightarrow> addr \<Rightarrow> addr \<Rightarrow> ('rx, unit) native" where
  "static_initializer aenv env zygote create_jvm_symbol impl var =
     bindE (readE (\<lambda>_. zygote)) (\<lambda>zygote.
     if \<not> zygote then retE () else hook_create_jvm aenv env create_jvm_symbol impl var)"

section \<open>What it does\<close>

lemma mem_set_mem: "mem (set_mem w s) = w"
  by (simp add: set_mem_def mem_def)

lemma not_prepared: "on_art (SetArtPrepared aenv False) (s, c) = (Inr (), (s\<lparr>art_prepared := False\<rparr>, c))"
  by (simp add: on_art_def SetArtPrepared_def getE_def modE_def bindE_def readE_def sysE_def)

lemma no_rules: "rules_of env [] = []"
  by (simp add: rules_of_def)

text \<open>
  Claim C19. In the zygote the initialiser of the library makes every slot for \<^verbatim>\<open>JNI_CreateJavaVM\<close>, in every library whose name
  matches, point to \<open>JNI_CreateJavaVM_Impl\<close>, leaves in \<open>old_create_jvm\<close> the last function that was in such a slot, and changes no other byte;
  the runtime is marked as not prepared, so that no method is hooked before that function has created the virtual machine. The
  conditions are those of a registration and a refresh that work.
\<close>

theorem zygote_hooks_create_jvm:
  fixes env :: "'rx env" and s :: art
  assumes zygote: "is_zygote freed read pid = Inr True" and "create_jvm_symbol \<noteq> 0" and "impl \<noteq> 0"
    and "regcomp env so_regex = Some rx" and "can_hook env rx ''JNI_CreateJavaVM'' var [] vs (mem s)"
  shows "\<exists>w' c'. static_initializer aenv env (is_zygote freed read pid) create_jvm_symbol impl var (s, core_initial act) =
      (Inr (), (set_mem w' (s\<lparr>art_prepared := False\<rparr>), c')) \<and> mprot w' = mprot (mem s) \<and>
    (\<forall>a\<in>set (library_slots env rx ''JNI_CreateJavaVM'' [] vs (mem s)). word64 w' a = impl) \<and>
    (var \<noteq> 0 \<and> distinct (library_slots env rx ''JNI_CreateJavaVM'' [] vs (mem s)) \<longrightarrow>
       word64 w' var = reported (mem s) impl var (library_slots env rx ''JNI_CreateJavaVM'' [] vs (mem s))) \<and>
    (\<forall>b. (\<forall>a\<in>set (library_slots env rx ''JNI_CreateJavaVM'' [] vs (mem s)). b \<notin> written a var) \<longrightarrow>
       mbytes w' b = mbytes (mem s) b)"
proof (rule register_refresh_hooks [where rules = "[]" and act = act, unfolded no_rules, OF assms(5,3,4)], simp)
  fix c1 c1' c2 w'
  assume runs: "xhook_register env (Some so_regex) (Some ''JNI_CreateJavaVM'') impl var (core_initial act, mem s) = (Inr 0, (c1, mem s))"
      "ignore_all env [] (c1, mem s) = (Inr (map (\<lambda>_. 0) []), (c1', mem s))" "xhook_refresh env 0 (c1', mem s) = (Inr 0, (c2, w'))"
    and hooks: "hooks impl var (library_slots env rx ''JNI_CreateJavaVM'' [] vs (mem s)) (mem s) w'"
  let ?s = "s\<lparr>art_prepared := False\<rparr>"
  have "static_initializer aenv env (is_zygote freed read pid) create_jvm_symbol impl var (s, core_initial act) =
      (Inr (), (set_mem w' ?s, c2))"
    using assms(2) runs
    by (simp add: static_initializer_def hook_create_jvm_def bindE_def readE_def zygote not_prepared on_xhook_def mem_def set_mem_def)
  then show ?thesis using hooks unfolding hooks_def by blast
qed

text \<open>Any other process is left alone.\<close>

lemma other_processes_unchanged:
  assumes "is_zygote freed read pid = Inr False"
  shows "static_initializer aenv env (is_zygote freed read pid) create_jvm_symbol impl var p = (Inr (), p)"
  by (simp add: static_initializer_def bindE_def readE_def assms)

text \<open>The example: process 300 is the zygote, and \<^verbatim>\<open>JNI_CreateJavaVM\<close> is the symbol of the library of \<open>XHook\<close>.\<close>

definition zygote_art :: art where
  "zygote_art = set_mem jvm_world boot_art"

definition zygote_cmdline :: "string \<Rightarrow> string option" where
  "zygote_cmdline path = (if path = ''/proc/300/cmdline'' then Some (''zygote'' @ [CHR 0x00]) else None)"

lemma is_zygote_300: "is_zygote Inr zygote_cmdline 300 = Inr True"
  by (simp add: is_zygote_def GetProcessName_def cmdline_path_def cmdline_line_def zygote_cmdline_def dec_of.simps hexchar_def
      char_of_eq_iff)

lemma zygote_hooks_create_jvm_witness:
  "\<exists>s' c'. static_initializer boot_env xhook_env (is_zygote Inr zygote_cmdline 300) 0x5000 0x6000 0x3010 (zygote_art, core_initial (OtherAction 0)) =
      (Inr (), (s', c')) \<and> \<not> art_prepared s' \<and> word64 (mem s') 0x1300 = 0x6000 \<and> word64 (mem s') 0x3010 = 0x5000"
proof -
  have w: "mem zygote_art = jvm_world" by (simp add: zygote_art_def mem_set_mem)
  obtain w' c' where "static_initializer boot_env xhook_env (is_zygote Inr zygote_cmdline 300) 0x5000 0x6000 0x3010
      (zygote_art, core_initial (OtherAction 0)) = (Inr (), (set_mem w' (zygote_art\<lparr>art_prepared := False\<rparr>), c'))"
    and "word64 w' 0x1300 = 0x6000" "word64 w' 0x3010 = 0x5000"
    using zygote_hooks_create_jvm [OF is_zygote_300 _ _ _ jvm_can_hook [of "[]", folded w], of "0x5000" "0x6000" boot_env "OtherAction 0"]
    by (auto simp: w jvm_slots jvm_reported xhook_env_simps)
  then show ?thesis by (intro exI conjI) (assumption, simp_all add: mem_set_mem, simp add: set_mem_def)
qed

end
