(* ===== verification/OnLoad.thy ===== *)
theory OnLoad
  imports NativeStart
begin

text \<open>
  \<open>JNI_OnLoad\<close> of \<^verbatim>\<open>native_load.cpp\<close> and the two demos of \<^verbatim>\<open>test.cpp\<close> that it runs in a process other than the zygote.
\<close>

section \<open>The demos\<close>

text \<open>The static variable \<open>method\<close> of \<^verbatim>\<open>test.cpp\<close> beside the globals of the two halves.\<close>

type_synonym ('rx, 'a) app = "((art \<times> 'rx core) \<times> addr, 'a) eff"

definition on_native :: "('rx, 'a) native \<Rightarrow> ('rx, 'a) app" where
  "on_native m = (\<lambda>(g, method). case m g of (r, g') \<Rightarrow> (r, (g', method)))"

text \<open>\<open>impl\<close> is the address of \<open>my_testOutput\<close>.\<close>

definition test_art_hook :: "art_env \<Rightarrow> addr \<Rightarrow> ('rx, unit) app" where
  "test_art_hook aenv impl =
     bindE (on_native (on_art (GetJniEnv aenv))) (\<lambda>jni.
     bindE (on_native (on_art (through_env jni))) (\<lambda>_.
     let test_method = jni_method aenv ''testOutput'' ''()V'' in
     bindE (sysE (\<lambda>(g, _). ((), (g, test_method)))) (\<lambda>_.
     on_native (on_art (Hook aenv test_method impl)))))"

definition my_testOutput :: "art_env \<Rightarrow> ('rx, addr \<times> bool) app" where
  "my_testOutput aenv = bindE (readE (\<lambda>(_, method). Inr method)) (\<lambda>method. on_native (on_art (InvokeOriginal aenv method)))"

text \<open>\<open>org_execv\<close> is the function at the address that the hook has stored.\<close>

definition my_execv :: "(string \<Rightarrow> ('s, int) eff) \<Rightarrow> string \<Rightarrow> ('s, int) eff" where
  "my_execv org_execv path = (if strstr path ''dex2oat'' then retE (- 1) else org_execv path)"

text \<open>\<open>impl\<close> is the address of \<open>my_execv\<close>, \<open>var\<close> that of \<open>org_execv\<close>, and \<open>execv\<close> the function that the last call reaches.\<close>

definition test_xhook :: "'rx env \<Rightarrow> addr \<Rightarrow> addr \<Rightarrow> (string \<Rightarrow> ('rx, int) native) \<Rightarrow> ('rx, unit) app" where
  "test_xhook env impl var execv =
     bindE (on_native (on_xhook (xhook_register env (Some so_regex) (Some ''execv'') impl var))) (\<lambda>_.
     bindE (on_native (on_xhook (xhook_refresh env 0))) (\<lambda>_.
     bindE (on_native (execv ''dex2oat test'')) (\<lambda>_. retE ())))"

section \<open>JNI\_OnLoad\<close>

definition JNI_VERSION_1_6 :: int where "JNI_VERSION_1_6 = 0x10006"
definition JNI_ERR :: int where "JNI_ERR = - 1"

text \<open>
  \<open>jni\<close> is what \<open>GetEnv\<close> delivers and \<open>junk\<close> the uninitialised \<open>method_offset\<close>. \<open>GetStaticInstance\<close> runs the constructor of
  \<open>ArtMethod\<close>, as nothing else calls it. The registration of the two empty native methods at the end is a call of the JNI, whose result is only printed.
\<close>

definition JNI_OnLoad ::
    "art_env \<Rightarrow> 'rx env \<Rightarrow> bool res \<Rightarrow> addr \<Rightarrow> art_offsets \<Rightarrow> addr \<Rightarrow> addr \<Rightarrow> addr \<Rightarrow> (string \<Rightarrow> ('rx, int) native) \<Rightarrow> ('rx, int) app" where
  "JNI_OnLoad aenv env zygote jni junk output_impl execv_impl execv_var execv =
     bindE (readE (\<lambda>_. zygote)) (\<lambda>zygote.
     if zygote then retE JNI_VERSION_1_6
     else if jni = 0 then retE JNI_ERR
     else
       bindE (on_native (on_art (SetArtPrepared aenv True))) (\<lambda>_.
       bindE (on_native (on_art (GetBaseOffset aenv jni))) (\<lambda>summary.
       bindE (on_native (on_art (CalculateOtherOffset aenv summary junk))) (\<lambda>_.
       bindE (on_native (on_art (ArtMethod_init aenv))) (\<lambda>_.
       bindE (on_native (on_art (GetBridgeList aenv))) (\<lambda>_.
       bindE (test_art_hook aenv output_impl) (\<lambda>_.
       bindE (test_xhook env execv_impl execv_var execv) (\<lambda>_.
       retE JNI_VERSION_1_6))))))))"

section \<open>What they do\<close>

lemma mem_set_mem_same: "set_mem (mem s) s = s"
  by (simp add: set_mem_def mem_def)

lemma OnLoad_zygote:
  "JNI_OnLoad aenv env (Inr True) jni junk output_impl execv_impl execv_var execv p = (Inr JNI_VERSION_1_6, p)"
  by (simp add: JNI_OnLoad_def bindE_def readE_def)

lemma OnLoad_no_environment:
  "JNI_OnLoad aenv env (Inr False) 0 junk output_impl execv_impl execv_var execv p = (Inr JNI_ERR, p)"
  by (simp add: JNI_OnLoad_def bindE_def readE_def)

text \<open>The constructor computes the layout once: after \<open>SetArtPrepared(true)\<close>, \<open>GetStaticInstance\<close> changes nothing.\<close>

lemma init_once: "api_level s > 0 \<Longrightarrow> ArtMethod_init aenv s = (Inr (), s)"
  by (simp add: ArtMethod_init_def getE_def bindE_def readE_def)

lemma my_execv_stops_dex2oat: "strstr path ''dex2oat'' \<Longrightarrow> my_execv org_execv path s = (Inr (- 1), s)"
  by (simp add: my_execv_def)

text \<open>The demo of xHook hooks \<open>execv\<close> in all libraries before it calls it, if nothing has been registered before.\<close>

lemma test_xhook_hooks:
  assumes "impl \<noteq> 0" and "regcomp env so_regex = Some rx" and "can_hook env rx ''execv'' var [] vs (mem s)"
  shows "\<exists>w' c'. hooks impl var (library_slots env rx ''execv'' [] vs (mem s)) (mem s) w' \<and>
    test_xhook env impl var execv ((s, core_initial act), method) =
      bindE (on_native (execv ''dex2oat test'')) (\<lambda>_. retE ()) ((set_mem w' s, c'), method)"
proof (rule register_refresh_hooks [where rules = "[]" and act = act, unfolded no_rules, OF assms(3,1,2)], simp)
  fix c1 c1' c2 w'
  assume "xhook_register env (Some so_regex) (Some ''execv'') impl var (core_initial act, mem s) = (Inr 0, (c1, mem s))"
      "ignore_all env [] (c1, mem s) = (Inr (map (\<lambda>_. 0) []), (c1', mem s))" "xhook_refresh env 0 (c1', mem s) = (Inr 0, (c2, w'))"
    and hooks: "hooks impl var (library_slots env rx ''execv'' [] vs (mem s)) (mem s) w'"
  then have "test_xhook env impl var execv ((s, core_initial act), method) =
      bindE (on_native (execv ''dex2oat test'')) (\<lambda>_. retE ()) ((set_mem w' s, c2), method)"
    by (simp add: test_xhook_def on_native_def on_xhook_def bindE_def [of _ "\<lambda>_. bindE _ _"] mem_set_mem_same)
  then show ?thesis using hooks by blast
qed

end
