(* ===== verification/CoreSync.thy ===== *)
theory CoreSync
  imports Prelude
begin

text \<open>
  The threads of \<^verbatim>\<open>xh_core.c\<close>: clients that call \<open>xh_core_register\<close> (\<open>xh_core_ignore\<close> takes the same locks),
  \<open>xh_core_refresh\<close> and \<open>xh_core_clear\<close>, and the threads that run \<open>xh_core_refresh_thread_func\<close>. A step is one access
  to what they share: a flag, a mutex, the condition variable, or the data that the mutexes are there for.
\<close>

section \<open>Where a thread is\<close>

datatype call = Register | Refresh bool | Clear

text \<open>
  A client is at rest with the result of its last call, or before an access of the function it runs. The argument
  of \<open>Init...\<close> is \<open>async\<close>.
\<close>

datatype pc =
    Ready "int option"
  | RegLock | RegInsert | RegUnlock
  | InitRead bool | InitLock bool | InitTest bool | InitHandler bool | InitOk bool | InitUnlock bool | InitDone bool
  | SyncLock | SyncImpl | SyncUnlock
  | AInitRead | AInitLock | AInitTest | AInitRun | AInitCreate | AInitFail | AInitOk | AInitUnlock | AInitDone
  | ReqLock | ReqSet | ReqSignal | ReqUnlock
  | ClrRead | ClrLock | ClrStop | ClrSignal | ClrUnlock | ClrJoin | ClrAsyncOk | ClrAsync | ClrHandler | ClrInitOk
  | ClrInited | ClrLock1 | ClrLock2 | ClrFree | ClrUnlock2 | ClrUnlock1
  | ThrLoop | ThrLock | ThrTest | ThrWait | ThrWoken | ThrExit | ThrUnlock | ThrRefreshLock | ThrImpl
  | ThrRefreshUnlock | Exited

text \<open>What the threads share; thread \<open>t\<close> is at \<open>pcs ! t\<close>.\<close>

record sync =
  mutex :: "nat option"
  refresh_mutex :: "nat option"
  inited :: bool
  init_ok :: bool
  async_inited :: bool
  async_init_ok :: bool
  thread_tid :: nat
  thread_running :: bool
  thread_do :: bool
  pcs :: "pc list"

section \<open>Steps\<close>

definition waiting :: "sync \<Rightarrow> nat \<Rightarrow> bool" where
  "waiting s t \<longleftrightarrow> t < length (pcs s) \<and> pcs s ! t = ThrWait"

text \<open>
  \<open>pthread_cond_signal\<close> wakes the waiting thread \<open>u\<close>, or nobody when none waits.
\<close>

definition cond_signal :: "nat \<Rightarrow> sync \<Rightarrow> sync option" where
  "cond_signal u s =
     (if waiting s u then Some (s\<lparr>pcs := (pcs s)[u := ThrWoken]\<rparr>)
      else if ThrWait \<in> set (pcs s) then None else Some s)"

definition lock_mutex :: "nat \<Rightarrow> pc \<Rightarrow> sync \<Rightarrow> (pc \<times> sync) option" where
  "lock_mutex t p s = (if mutex s = None then Some (p, s\<lparr>mutex := Some t\<rparr>) else None)"

definition unlock_mutex :: "pc \<Rightarrow> sync \<Rightarrow> (pc \<times> sync) option" where
  "unlock_mutex p s = Some (p, s\<lparr>mutex := None\<rparr>)"

definition lock_refresh :: "nat \<Rightarrow> pc \<Rightarrow> sync \<Rightarrow> (pc \<times> sync) option" where
  "lock_refresh t p s = (if refresh_mutex s = None then Some (p, s\<lparr>refresh_mutex := Some t\<rparr>) else None)"

definition unlock_refresh :: "pc \<Rightarrow> sync \<Rightarrow> (pc \<times> sync) option" where
  "unlock_refresh p s = Some (p, s\<lparr>refresh_mutex := None\<rparr>)"

definition signal_then :: "nat \<Rightarrow> pc \<Rightarrow> sync \<Rightarrow> (pc \<times> sync) option" where
  "signal_then u p s = map_option (Pair p) (cond_signal u s)"

text \<open>
  The next access of thread \<open>t\<close>: \<open>None\<close> when it is blocked. \<open>ok\<close> is the outcome of \<open>sigaction\<close> or
  \<open>pthread_create\<close>, \<open>u\<close> the thread that a signal wakes. \<open>ClrJoin\<close> waits for the end of the thread that was created last. When two clients
  clear at the same time both may join it, which POSIX leaves undefined: the step is then that of a join that returns, and what is shown of the
  steps after it holds for systems on which it does.
\<close>

fun advance :: "bool \<Rightarrow> nat \<Rightarrow> nat \<Rightarrow> pc \<Rightarrow> sync \<Rightarrow> (pc \<times> sync) option" where
  "advance ok u t RegLock s = lock_mutex t RegInsert s"
| "advance ok u t RegInsert s = Some (RegUnlock, s)"
| "advance ok u t RegUnlock s = unlock_mutex (Ready (Some 0)) s"
| "advance ok u t (InitRead a) s = Some (if inited s then InitDone a else InitLock a, s)"
| "advance ok u t (InitLock a) s = lock_mutex t (InitTest a) s"
| "advance ok u t (InitTest a) s =
     (if inited s then Some (InitUnlock a, s) else Some (InitHandler a, s\<lparr>inited := True\<rparr>))"
| "advance ok u t (InitHandler a) s = Some (if ok then InitOk a else InitUnlock a, s)"
| "advance ok u t (InitOk a) s = Some (InitUnlock a, s\<lparr>init_ok := True\<rparr>)"
| "advance ok u t (InitUnlock a) s = unlock_mutex (InitDone a) s"
| "advance ok u t (InitDone a) s =
     Some (if \<not> init_ok s then Ready (Some XH_ERRNO_UNKNOWN) else if a then AInitRead else SyncLock, s)"
| "advance ok u t SyncLock s = lock_refresh t SyncImpl s"
| "advance ok u t SyncImpl s = Some (SyncUnlock, s)"
| "advance ok u t SyncUnlock s = unlock_refresh (Ready (Some 0)) s"
| "advance ok u t AInitRead s = Some (if async_inited s then AInitDone else AInitLock, s)"
| "advance ok u t AInitLock s = lock_mutex t AInitTest s"
| "advance ok u t AInitTest s =
     (if async_inited s then Some (AInitUnlock, s) else Some (AInitRun, s\<lparr>async_inited := True\<rparr>))"
| "advance ok u t AInitRun s = Some (AInitCreate, s\<lparr>thread_running := True\<rparr>)"
| "advance ok u t AInitCreate s =
     (if ok then Some (AInitOk, s\<lparr>thread_tid := length (pcs s), pcs := pcs s @ [ThrLoop]\<rparr>) else Some (AInitFail, s))"
| "advance ok u t AInitFail s = Some (AInitUnlock, s\<lparr>thread_running := False\<rparr>)"
| "advance ok u t AInitOk s = Some (AInitUnlock, s\<lparr>async_init_ok := True\<rparr>)"
| "advance ok u t AInitUnlock s = unlock_mutex AInitDone s"
| "advance ok u t AInitDone s = Some (if async_init_ok s then ReqLock else Ready (Some XH_ERRNO_UNKNOWN), s)"
| "advance ok u t ReqLock s = lock_mutex t ReqSet s"
| "advance ok u t ReqSet s = Some (ReqSignal, s\<lparr>thread_do := True\<rparr>)"
| "advance ok u t ReqSignal s = signal_then u ReqUnlock s"
| "advance ok u t ReqUnlock s = unlock_mutex (Ready (Some 0)) s"
| "advance ok u t ClrRead s = Some (if async_init_ok s then ClrLock else ClrAsync, s)"
| "advance ok u t ClrLock s = lock_mutex t ClrStop s"
| "advance ok u t ClrStop s = Some (ClrSignal, s\<lparr>thread_running := False\<rparr>)"
| "advance ok u t ClrSignal s = signal_then u ClrUnlock s"
| "advance ok u t ClrUnlock s = unlock_mutex ClrJoin s"
| "advance ok u t ClrJoin s = (if pcs s ! thread_tid s = Exited then Some (ClrAsyncOk, s) else None)"
| "advance ok u t ClrAsyncOk s = Some (ClrAsync, s\<lparr>async_init_ok := False\<rparr>)"
| "advance ok u t ClrAsync s = Some (ClrHandler, s\<lparr>async_inited := False\<rparr>)"
| "advance ok u t ClrHandler s = Some (if init_ok s then ClrInitOk else ClrInited, s)"
| "advance ok u t ClrInitOk s = Some (ClrInited, s\<lparr>init_ok := False\<rparr>)"
| "advance ok u t ClrInited s = Some (ClrLock1, s\<lparr>inited := False\<rparr>)"
| "advance ok u t ClrLock1 s = lock_mutex t ClrLock2 s"
| "advance ok u t ClrLock2 s = lock_refresh t ClrFree s"
| "advance ok u t ClrFree s = Some (ClrUnlock2, s)"
| "advance ok u t ClrUnlock2 s = unlock_refresh ClrUnlock1 s"
| "advance ok u t ClrUnlock1 s = unlock_mutex (Ready None) s"
| "advance ok u t ThrLoop s = Some (if thread_running s then ThrLock else Exited, s)"
| "advance ok u t ThrLock s = lock_mutex t ThrTest s"
| "advance ok u t ThrTest s =
     (if \<not> thread_do s \<and> thread_running s then unlock_mutex ThrWait s
      else if \<not> thread_running s then Some (ThrExit, s)
      else Some (ThrUnlock, s\<lparr>thread_do := False\<rparr>))"
| "advance ok u t ThrWoken s = lock_mutex t ThrTest s"
| "advance ok u t ThrExit s = unlock_mutex Exited s"
| "advance ok u t ThrUnlock s = unlock_mutex ThrRefreshLock s"
| "advance ok u t ThrRefreshLock s = lock_refresh t ThrImpl s"
| "advance ok u t ThrImpl s = Some (ThrRefreshUnlock, s)"
| "advance ok u t ThrRefreshUnlock s = unlock_refresh ThrLoop s"
| "advance ok u t (Ready r) s = None"
| "advance ok u t ThrWait s = None"
| "advance ok u t Exited s = None"

text \<open>
  A step of thread \<open>t\<close>: a client at rest calls a function (the check of \<open>xh_core_inited\<close> is the first access of
  \<open>xh_core_register\<close>; the rest of its preparation is its own), a thread goes on, or a waiting thread
  wakes up although nobody signalled, as POSIX allows.
\<close>

datatype event = Call call | Go bool nat | Spurious

fun begin_call :: "call \<Rightarrow> sync \<Rightarrow> pc" where
  "begin_call Register s = (if inited s then Ready (Some XH_ERRNO_INVAL) else RegLock)"
| "begin_call (Refresh a) s = InitRead a"
| "begin_call Clear s = ClrRead"

definition thread_step :: "event \<Rightarrow> nat \<Rightarrow> pc \<Rightarrow> sync \<Rightarrow> (pc \<times> sync) option" where
  "thread_step e t p s = (case e of
     Call c \<Rightarrow> (case p of Ready r \<Rightarrow> Some (begin_call c s, s) | _ \<Rightarrow> None)
   | Go ok u \<Rightarrow> advance ok u t p s
   | Spurious \<Rightarrow> if p = ThrWait then Some (ThrWoken, s) else None)"

lemma thread_step_simps:
  "thread_step (Call c) t p s = Some (p', s') \<longleftrightarrow> (\<exists>r. p = Ready r) \<and> p' = begin_call c s \<and> s' = s"
  "thread_step (Go ok u) t p s = advance ok u t p s"
  "thread_step Spurious t p s = Some (p', s') \<longleftrightarrow> p = ThrWait \<and> p' = ThrWoken \<and> s' = s"
  by (cases p; auto simp: thread_step_def)+

definition step :: "nat \<Rightarrow> event \<Rightarrow> sync \<Rightarrow> sync option" where
  "step t e s =
     (if t < length (pcs s)
      then map_option (\<lambda>(p, s'). s'\<lparr>pcs := (pcs s')[t := p]\<rparr>) (thread_step e t (pcs s ! t) s)
      else None)"

text \<open>\<open>n\<close> clients before their first call; the runs in which only the calls \<open>cs\<close> are made.\<close>

definition sync_initial :: "nat \<Rightarrow> sync" where
  "sync_initial n = \<lparr>mutex = None, refresh_mutex = None, inited = False, init_ok = False, async_inited = False,
     async_init_ok = False, thread_tid = 0, thread_running = False, thread_do = False,
     pcs = replicate n (Ready None)\<rparr>"

inductive reachable :: "call set \<Rightarrow> nat \<Rightarrow> sync \<Rightarrow> bool" for cs n where
  start: "reachable cs n (sync_initial n)"
| move: "reachable cs n s \<Longrightarrow> step t e s = Some s' \<Longrightarrow> \<forall>c. e = Call c \<longrightarrow> c \<in> cs \<Longrightarrow> reachable cs n s'"

fun run :: "(nat \<times> event) list \<Rightarrow> sync \<Rightarrow> sync option" where
  "run [] s = Some s"
| "run ((t, e) # es) s = (case step t e s of None \<Rightarrow> None | Some s' \<Rightarrow> run es s')"

lemma reachable_run:
  "reachable cs n s \<Longrightarrow> run es s = Some s' \<Longrightarrow> \<forall>(t, e)\<in>set es. \<forall>c. e = Call c \<longrightarrow> c \<in> cs \<Longrightarrow> reachable cs n s'"
  by (induction es s rule: run.induct) (auto split: option.splits intro: reachable.move)

section \<open>Mutual exclusion\<close>

fun has_mutex :: "pc \<Rightarrow> bool" where
  "has_mutex p = (case p of InitTest _ \<Rightarrow> True | InitHandler _ \<Rightarrow> True | InitOk _ \<Rightarrow> True | InitUnlock _ \<Rightarrow> True
     | _ \<Rightarrow> p \<in> {RegInsert, RegUnlock, AInitTest, AInitRun, AInitCreate, AInitFail, AInitOk, AInitUnlock,
         ReqSet, ReqSignal, ReqUnlock, ClrStop, ClrSignal, ClrUnlock, ClrLock2, ClrFree, ClrUnlock2, ClrUnlock1,
         ThrTest, ThrExit, ThrUnlock})"

definition has_refresh_mutex :: "pc \<Rightarrow> bool" where
  "has_refresh_mutex p \<longleftrightarrow> p \<in> {SyncImpl, SyncUnlock, ClrFree, ClrUnlock2, ThrImpl, ThrRefreshUnlock}"

lemma begin_call_outside [simp]:
  "\<not> has_mutex (begin_call c s)" "\<not> has_refresh_mutex (begin_call c s)"
  by (cases c; auto simp: has_refresh_mutex_def)+

lemma pc_outside [simp]:
  "\<not> has_mutex ThrLoop" "\<not> has_mutex ThrWait" "\<not> has_mutex ThrWoken" "\<not> has_mutex (Ready r)"
  "\<not> has_refresh_mutex ThrLoop" "\<not> has_refresh_mutex ThrWait" "\<not> has_refresh_mutex ThrWoken"
  "\<not> has_refresh_mutex (Ready r)"
  by (simp_all add: has_refresh_mutex_def)

text \<open>
  The contract of a mutex and its users: \<open>holder\<close> is the thread that has it, \<open>has\<close> tells where a thread has it.
\<close>

definition lock_ok :: "(sync \<Rightarrow> nat option) \<Rightarrow> (pc \<Rightarrow> bool) \<Rightarrow> sync \<Rightarrow> bool" where
  "lock_ok holder has s \<longleftrightarrow>
     (\<forall>t<length (pcs s). has (pcs s ! t) \<longleftrightarrow> holder s = Some t) \<and> (\<forall>t. holder s = Some t \<longrightarrow> t < length (pcs s))"

lemma thread_step_pcs:
  assumes "thread_step e t p s = Some (p', s')"
  shows "pcs s' = pcs s \<or> pcs s' = pcs s @ [ThrLoop] \<or> (\<exists>u. waiting s u \<and> pcs s' = (pcs s)[u := ThrWoken])"
proof (cases e)
  case (Go ok u)
  then have "advance ok u t p s = Some (p', s')" using assms by (simp add: thread_step_simps)
  then show ?thesis
    by (cases p) (auto simp: lock_mutex_def unlock_mutex_def lock_refresh_def
      unlock_refresh_def signal_then_def cond_signal_def split: if_splits)
qed (use assms in \<open>auto simp: thread_step_simps\<close>)

lemma stepE:
  assumes "step t e s = Some s'"
  obtains p s1 where "t < length (pcs s)" and "thread_step e t (pcs s ! t) s = Some (p, s1)"
    and "s' = s1\<lparr>pcs := (pcs s1)[t := p]\<rparr>"
  using assms by (auto simp: step_def split: if_splits)

locale lock =
  fixes holder :: "sync \<Rightarrow> nat option"
    and has :: "pc \<Rightarrow> bool"
  assumes outside: "\<not> has ThrLoop" "\<not> has ThrWait" "\<not> has ThrWoken" "\<not> has (Ready r)"
    and holder_pcs: "holder (s\<lparr>pcs := ps\<rparr>) = holder s"
    and holder_initial: "holder (sync_initial n) = None"
    and transfer: "thread_step e t p s = Some (p', s') \<Longrightarrow>
      holder s' = holder s \<and> has p' = has p \<or> holder s = None \<and> holder s' = Some t \<and> has p' \<or>
      has p \<and> \<not> has p' \<and> holder s' = None"
begin

lemma ok_step:
  assumes ok: "lock_ok holder has s" and st: "step t e s = Some s'"
  shows "lock_ok holder has s'"
  using st
proof (rule stepE)
  fix p s1
  assume t: "t < length (pcs s)" and ts: "thread_step e t (pcs s ! t) s = Some (p, s1)"
    and s': "s' = s1\<lparr>pcs := (pcs s1)[t := p]\<rparr>"
  have old: "u < length (pcs s) \<Longrightarrow> has (pcs s ! u) \<longleftrightarrow> holder s = Some u" for u
    using ok by (simp add: lock_ok_def)
  have len: "length (pcs s) \<le> length (pcs s1)" and
    same: "u < length (pcs s1) \<Longrightarrow> has (pcs s1 ! u) \<longleftrightarrow> u < length (pcs s) \<and> has (pcs s ! u)" for u
    using thread_step_pcs [OF ts] outside
    by (auto simp: waiting_def nth_append nth_list_update less_Suc_eq split: if_splits)
  have mine: "has (pcs s ! t) \<longleftrightarrow> holder s = Some t" using old t by blast
  have bound: "holder s = Some u \<Longrightarrow> u < length (pcs s) \<and> u < length (pcs s1)" for u
    using ok len by (fastforce simp: lock_ok_def)
  show "lock_ok holder has s'"
    using transfer [OF ts] mine t len bound same old
    by (auto simp: lock_ok_def s' holder_pcs nth_list_update dest: order.strict_trans2)
qed

lemma ok_reachable: "reachable cs n s \<Longrightarrow> lock_ok holder has s"
proof (induction rule: reachable.induct)
  case start
  then show ?case using holder_initial outside(4) by (auto simp: lock_ok_def) (simp add: sync_initial_def)
next
  case (move s t e s')
  then show ?case using ok_step by blast
qed

lemma exclusive:
  assumes "reachable cs n s" and "t < length (pcs s)" "u < length (pcs s)" "has (pcs s ! t)" "has (pcs s ! u)"
  shows "t = u"
  using ok_reachable [OF assms(1)] assms(2-5) by (auto simp: lock_ok_def)

end

text \<open>What a step does to the two mutexes, case by case.\<close>

lemma advance_mutexes:
  assumes "advance ok u t p s = Some (p', s')"
  shows "(mutex s' = mutex s \<and> has_mutex p' = has_mutex p \<or> mutex s = None \<and> mutex s' = Some t \<and> has_mutex p' \<or>
      has_mutex p \<and> \<not> has_mutex p' \<and> mutex s' = None) \<and>
    (refresh_mutex s' = refresh_mutex s \<and> has_refresh_mutex p' = has_refresh_mutex p \<or>
      refresh_mutex s = None \<and> refresh_mutex s' = Some t \<and> has_refresh_mutex p' \<or>
      has_refresh_mutex p \<and> \<not> has_refresh_mutex p' \<and> refresh_mutex s' = None)"
  using assms
  by (cases p) (auto simp: lock_mutex_def unlock_mutex_def lock_refresh_def unlock_refresh_def signal_then_def
      cond_signal_def has_refresh_mutex_def split: if_splits)

lemma thread_step_mutexes:
  assumes "thread_step e t p s = Some (p', s')"
  shows "mutex s' = mutex s \<and> has_mutex p' = has_mutex p \<or> mutex s = None \<and> mutex s' = Some t \<and> has_mutex p' \<or>
      has_mutex p \<and> \<not> has_mutex p' \<and> mutex s' = None"
    and "refresh_mutex s' = refresh_mutex s \<and> has_refresh_mutex p' = has_refresh_mutex p \<or>
      refresh_mutex s = None \<and> refresh_mutex s' = Some t \<and> has_refresh_mutex p' \<or>
      has_refresh_mutex p \<and> \<not> has_refresh_mutex p' \<and> refresh_mutex s' = None"
  using assms advance_mutexes
  by (cases e; auto simp: thread_step_simps simp del: has_mutex.simps begin_call.simps)+

interpretation mx: lock mutex has_mutex
  by unfold_locales (simp_all add: sync_initial_def thread_step_mutexes del: has_mutex.simps)

interpretation rmx: lock refresh_mutex has_refresh_mutex
  by unfold_locales (simp_all add: sync_initial_def thread_step_mutexes)

end
