(* ===== verification/SyncProps.thy ===== *)
theory SyncProps
  imports CoreSync
begin

text \<open>
  What the locking of \<^verbatim>\<open>xh_core.c\<close> achieves and what it does not: mutual exclusion, no lost wake-up, no deadlock
  without \<open>xh_core_clear\<close>; and runs that show a race and a hang.
\<close>

lemmas lock_defs = lock_mutex_def unlock_mutex_def lock_refresh_def unlock_refresh_def

section \<open>Requests\<close>

text \<open>Some thread is at a point with \<open>Q\<close>; some other thread than \<open>t\<close> is.\<close>

definition somewhere :: "sync \<Rightarrow> (pc \<Rightarrow> bool) \<Rightarrow> bool" where
  "somewhere s Q \<longleftrightarrow> (\<exists>u<length (pcs s). Q (pcs s ! u))"

definition elsewhere :: "sync \<Rightarrow> nat \<Rightarrow> (pc \<Rightarrow> bool) \<Rightarrow> bool" where
  "elsewhere s t Q \<longleftrightarrow> (\<exists>u<length (pcs s). u \<noteq> t \<and> Q (pcs s ! u))"

lemma somewhere_split: "t < length (pcs s) \<Longrightarrow> somewhere s Q \<longleftrightarrow> Q (pcs s ! t) \<or> elsewhere s t Q"
  by (auto simp: somewhere_def elsewhere_def)

lemma elsewhere_or: "elsewhere s t (\<lambda>p. Q p \<or> R p) \<longleftrightarrow> elsewhere s t Q \<or> elsewhere s t R"
  by (auto simp: elsewhere_def)

lemma thread_step_pcs_cases:
  assumes "thread_step e t p s = Some (p', s')"
  shows "pcs s' = pcs s \<and> (p \<in> {ReqSignal, ClrSignal} \<longrightarrow> ThrWait \<notin> set (pcs s)) \<or>
    p = AInitCreate \<and> p' = AInitOk \<and> s' = s\<lparr>thread_tid := length (pcs s), pcs := pcs s @ [ThrLoop]\<rparr> \<or>
    (\<exists>u. waiting s u \<and> (p = ReqSignal \<and> p' = ReqUnlock \<or> p = ClrSignal \<and> p' = ClrUnlock) \<and>
       s' = s\<lparr>pcs := (pcs s)[u := ThrWoken]\<rparr>)"
proof (cases e)
  case (Go ok u)
  then have "advance ok u t p s = Some (p', s')" using assms by (simp add: thread_step_simps)
  then show ?thesis
    by (cases p) (auto simp: lock_mutex_def unlock_mutex_def lock_refresh_def
      unlock_refresh_def signal_then_def cond_signal_def split: if_splits)
qed (use assms in \<open>auto simp: thread_step_simps\<close>)

text \<open>Three kinds of steps: a plain one, the creation of a thread, and a signal that wakes one.\<close>

lemma step_cases [consumes 1, case_names plain create wake]:
  assumes "step t e s = Some s'"
  obtains p s1 where "t < length (pcs s)" "thread_step e t (pcs s ! t) s = Some (p, s1)" "pcs s1 = pcs s"
      "s' = s1\<lparr>pcs := (pcs s)[t := p]\<rparr>" "pcs s ! t \<in> {ReqSignal, ClrSignal} \<Longrightarrow> ThrWait \<notin> set (pcs s)"
    | "t < length (pcs s)" "pcs s ! t = AInitCreate"
      "s' = s\<lparr>thread_tid := length (pcs s), pcs := (pcs s)[t := AInitOk] @ [ThrLoop]\<rparr>"
    | u p where "t < length (pcs s)" "pcs s ! t = ReqSignal \<and> p = ReqUnlock \<or> pcs s ! t = ClrSignal \<and> p = ClrUnlock"
      "waiting s u" "u \<noteq> t" "s' = s\<lparr>pcs := (pcs s)[u := ThrWoken, t := p]\<rparr>"
proof -
  obtain p s1 where t: "t < length (pcs s)" and ts: "thread_step e t (pcs s ! t) s = Some (p, s1)"
    and s': "s' = s1\<lparr>pcs := (pcs s1)[t := p]\<rparr>"
    using assms by (rule stepE)
  from thread_step_pcs_cases [OF ts]
  consider "pcs s1 = pcs s" "pcs s ! t \<in> {ReqSignal, ClrSignal} \<longrightarrow> ThrWait \<notin> set (pcs s)"
    | "pcs s ! t = AInitCreate" "p = AInitOk" "s1 = s\<lparr>thread_tid := length (pcs s), pcs := pcs s @ [ThrLoop]\<rparr>"
    | u where "waiting s u" "pcs s ! t = ReqSignal \<and> p = ReqUnlock \<or> pcs s ! t = ClrSignal \<and> p = ClrUnlock"
      "s1 = s\<lparr>pcs := (pcs s)[u := ThrWoken]\<rparr>" by blast
  then show ?thesis
  proof cases
    case 1
    then show ?thesis using that(1) [OF t ts] s' by auto
  next
    case 2
    then show ?thesis using that(2) t s' by (simp add: list_update_append1)
  next
    case (3 u)
    then have "u \<noteq> t" by (auto simp: waiting_def)
    then show ?thesis using that(3) t s' 3 by simp
  qed
qed

definition awake :: "pc \<Rightarrow> bool" where
  "awake p = (case p of ThrLoop \<Rightarrow> True | ThrLock \<Rightarrow> True | ThrTest \<Rightarrow> True | ThrWoken \<Rightarrow> True | ThrUnlock \<Rightarrow> True
     | ThrRefreshLock \<Rightarrow> True | ThrImpl \<Rightarrow> True | ThrRefreshUnlock \<Rightarrow> True | _ \<Rightarrow> False)"

text \<open>Somebody is about to wake or to create a refresh thread, or to withdraw \<open>xh_core_refresh_thread_running\<close>.\<close>

definition settling :: "pc \<Rightarrow> bool" where
  "settling p = (case p of ReqSignal \<Rightarrow> True | ClrSignal \<Rightarrow> True | AInitCreate \<Rightarrow> True | AInitFail \<Rightarrow> True | _ \<Rightarrow> False)"

definition wakeup_ok :: "sync \<Rightarrow> bool" where
  "wakeup_ok s \<longleftrightarrow> (thread_do s \<and> thread_running s \<and> ThrWait \<in> set (pcs s) \<longrightarrow>
     somewhere s (\<lambda>p. awake p \<or> settling p))"

lemma somewhere_plain:
  "t < length (pcs s) \<Longrightarrow> pcs s' = (pcs s)[t := p] \<Longrightarrow> somewhere s' Q \<longleftrightarrow> Q p \<or> elsewhere s t Q"
  by (auto simp: somewhere_def elsewhere_def nth_list_update split: if_splits)

lemma somewhere_create:
  "t < length (pcs s) \<Longrightarrow> pcs s' = (pcs s)[t := p] @ [q] \<Longrightarrow> somewhere s' Q \<longleftrightarrow> Q p \<or> Q q \<or> elsewhere s t Q"
  by (auto simp: somewhere_def elsewhere_def nth_list_update nth_append less_Suc_eq split: if_splits)

lemma somewhere_wake:
  "t < length (pcs s) \<Longrightarrow> waiting s u \<Longrightarrow> u \<noteq> t \<Longrightarrow> pcs s' = (pcs s)[u := ThrWoken, t := p] \<Longrightarrow> Q ThrWoken \<Longrightarrow>
    somewhere s' Q"
  by (auto simp: somewhere_def waiting_def nth_list_update intro!: exI [of _ u])

lemma waiting_somewhere: "ThrWait \<in> set (pcs s) \<longleftrightarrow> somewhere s (\<lambda>p. p = ThrWait)"
  by (auto simp: somewhere_def in_set_conv_nth)

text \<open>A plain step leaves nobody alone with a request.\<close>

lemma advance_wakeup:
  assumes "advance ok u t p s = Some (p', s')" and "pcs s' = pcs s"
    and "thread_do s'" "thread_running s'" and "p \<notin> {ReqSignal, ClrSignal}" and "\<not> awake p'" "\<not> settling p'"
  shows "thread_do s \<and> thread_running s \<and> \<not> awake p \<and> \<not> settling p \<and> p' \<noteq> ThrWait"
  using assms
  by (cases p) (auto simp: lock_mutex_def unlock_mutex_def lock_refresh_def
      unlock_refresh_def awake_def settling_def split: if_splits)

lemma thread_step_wakeup:
  assumes "thread_step e t p s = Some (p', s')" and "pcs s' = pcs s"
    and "thread_do s'" "thread_running s'" and "p \<notin> {ReqSignal, ClrSignal}" and "\<not> awake p'" "\<not> settling p'"
  shows "thread_do s \<and> thread_running s \<and> \<not> awake p \<and> \<not> settling p \<and> p' \<noteq> ThrWait"
proof (cases e)
  case (Call c)
  then obtain r where "p = Ready r" "p' = begin_call c s" "s' = s"
    using assms(1) by (auto simp: thread_step_simps)
  then show ?thesis using assms(3,4) by (cases c) (auto simp: awake_def settling_def)
next
  case (Go ok u)
  then show ?thesis using advance_wakeup [OF _ assms(2-)] assms(1) by (simp add: thread_step_def)
next
  case Spurious
  then show ?thesis using assms(1,6) by (auto simp: thread_step_simps awake_def)
qed

lemma signal_target: "thread_step e t p s = Some (p', s') \<Longrightarrow> p \<in> {ReqSignal, ClrSignal} \<Longrightarrow> p' \<noteq> ThrWait"
  by (cases e) (auto simp: thread_step_simps signal_then_def)

lemma wakeup_ok_step:
  assumes inv: "wakeup_ok s" and "step t e s = Some s'"
  shows "wakeup_ok s'"
  using assms(2)
proof (cases rule: step_cases)
  case (plain p s1)
  have sw: "somewhere s' Q \<longleftrightarrow> Q p \<or> elsewhere s t Q" for Q
    by (rule somewhere_plain [OF plain(1)]) (simp add: plain(4))
  show ?thesis
    unfolding wakeup_ok_def
  proof (intro impI, elim conjE)
    assume s': "thread_do s'" "thread_running s'" "ThrWait \<in> set (pcs s')"
    then have flags: "thread_do s1" "thread_running s1" by (simp_all add: plain(4))
    have w: "p = ThrWait \<or> elsewhere s t (\<lambda>p. p = ThrWait)" using s'(3) sw by (simp add: waiting_somewhere)
    show "somewhere s' (\<lambda>p. awake p \<or> settling p)"
    proof (cases "awake p \<or> settling p")
      case False
      have no: "pcs s ! t \<notin> {ReqSignal, ClrSignal}"
      proof
        assume sig: "pcs s ! t \<in> {ReqSignal, ClrSignal}"
        then have "\<not> elsewhere s t (\<lambda>p. p = ThrWait)"
          using plain(5) waiting_somewhere [of s] somewhere_split [OF plain(1)] by auto
        then show False using w signal_target [OF plain(2) sig] by simp
      qed
      then have "thread_do s \<and> thread_running s \<and> \<not> awake (pcs s ! t) \<and> \<not> settling (pcs s ! t) \<and> p \<noteq> ThrWait"
        using False by (intro thread_step_wakeup [OF plain(2,3) flags]) auto
      then show ?thesis
        using inv w sw somewhere_split [OF plain(1)] by (auto simp: wakeup_ok_def waiting_somewhere)
    qed (simp add: sw)
  qed
next
  case create
  have "somewhere s' Q \<longleftrightarrow> Q AInitOk \<or> Q ThrLoop \<or> elsewhere s t Q" for Q
    by (rule somewhere_create [OF create(1)]) (simp add: create(3))
  then show ?thesis by (simp add: wakeup_ok_def awake_def)
next
  case (wake u p)
  have "somewhere s' Q" if "Q ThrWoken" for Q
    by (rule somewhere_wake [where p = p and Q = Q, OF wake(1,3,4)]) (simp_all add: wake(5) that)
  then show ?thesis by (simp add: wakeup_ok_def awake_def)
qed

lemma wakeup_ok_reachable: "reachable cs n s \<Longrightarrow> wakeup_ok s"
proof (induction rule: reachable.induct)
  case start
  then show ?case by (simp add: wakeup_ok_def sync_initial_def)
next
  case (move s t e s')
  then show ?case using wakeup_ok_step by blast
qed

lemma settling_has_mutex: "settling p \<Longrightarrow> has_mutex p"
  by (cases p) (simp_all add: settling_def)

section \<open>Blocked threads\<close>

definition at_rest :: "pc \<Rightarrow> bool" where
  "at_rest p = (case p of Ready _ \<Rightarrow> True | ThrWait \<Rightarrow> True | Exited \<Rightarrow> True | _ \<Rightarrow> False)"

definition blocked :: "sync \<Rightarrow> nat \<Rightarrow> bool" where
  "blocked s t \<longleftrightarrow> (\<forall>ok u. advance ok u t (pcs s ! t) s = None)"

lemma signal_possible: "\<exists>u. cond_signal u s \<noteq> None"
proof (cases "ThrWait \<in> set (pcs s)")
  case True
  then obtain u where "waiting s u" by (auto simp: waiting_def in_set_conv_nth)
  then show ?thesis by (auto simp: cond_signal_def intro!: exI [of _ u])
qed (simp add: cond_signal_def)

text \<open>A thread in the middle of a function is blocked by a mutex only, or by \<open>pthread_join\<close>.\<close>

lemma advance_blocked:
  assumes "\<forall>ok u. advance ok u t p s = None" and "\<not> at_rest p" and "p \<noteq> ClrJoin"
  shows "\<not> has_mutex p \<and> \<not> has_refresh_mutex p \<and> mutex s \<noteq> None \<or>
    (has_mutex p \<longrightarrow> p = ClrLock2) \<and> \<not> has_refresh_mutex p \<and> refresh_mutex s \<noteq> None"
  using assms signal_possible [of s]
  by (cases p) (auto simp: lock_mutex_def unlock_mutex_def lock_refresh_def unlock_refresh_def signal_then_def
      at_rest_def has_refresh_mutex_def split: if_splits)

section \<open>Runs\<close>

definition go :: "nat \<Rightarrow> nat \<Rightarrow> (nat \<times> event) list" where
  "go t k = replicate k (t, Go True 0)"

text \<open>Client 0 registers; client 1 refreshes for the first time in between.\<close>

definition race_run :: "(nat \<times> event) list" where
  "race_run = [(0, Call Register), (1, Call (Refresh False))] @ go 1 8 @ go 0 1"

lemma reachable_from_initial:
  "run es (sync_initial n) = Some s \<Longrightarrow> \<forall>(t, e)\<in>set es. \<forall>c. e = Call c \<longrightarrow> c \<in> cs \<Longrightarrow> reachable cs n s"
  using reachable_run [OF reachable.start] by blast

text \<open>Client 1 refreshes while client 0 is in the middle of the first initialisation.\<close>

definition spurious_failure_run :: "(nat \<times> event) list" where
  "spurious_failure_run = [(0, Call (Refresh False))] @ go 0 3 @ [(1, Call (Refresh False))] @ go 1 2 @ go 0 7"

text \<open>
  Client 1 clears in the moment when client 0 has created the refresh thread (2) but not set
  \<open>xh_core_async_init_ok\<close>: the thread is not joined. Client 0 then creates another one (3) and requests a refresh;
  both threads sleep, and the signal wakes the first. Then client 1 clears again.
\<close>

definition two_threads_run :: "(nat \<times> event) list" where
  "two_threads_run = [(0, Call (Refresh True))] @ go 0 12 @ [(1, Call Clear)] @ go 1 5 @ go 0 2 @ go 2 3 @ go 1 5 @
     go 0 3 @ [(0, Go True 2)] @ go 0 1 @ go 2 9 @
     [(0, Call (Refresh True))] @ go 0 14 @ go 3 3 @ go 0 3 @ [(0, Go True 2)] @ go 0 1"

definition hang_run :: "(nat \<times> event) list" where
  "hang_run = two_threads_run @ go 2 9 @ [(1, Call Clear)] @ go 1 3 @ [(1, Go True 2)] @ go 1 1 @ go 2 3"

lemmas run_defs = go_def sync_initial_def step_def thread_step_def lock_defs signal_then_def cond_signal_def
  waiting_def numeral_eq_Suc

lemma race_state: "\<exists>s. reachable {Register, Refresh False} 2 s \<and> pcs s = [RegInsert, SyncImpl] \<and> inited s"
proof -
  obtain s where "run race_run (sync_initial 2) = Some s" "pcs s = [RegInsert, SyncImpl]" "inited s"
    by (simp add: race_run_def run_defs)
  moreover have "\<forall>(t, e)\<in>set race_run. \<forall>c. e = Call c \<longrightarrow> c \<in> {Register, Refresh False}"
    by (simp add: race_run_def go_def)
  ultimately show ?thesis using reachable_from_initial by blast
qed

lemma two_threads_end: "run two_threads_run (sync_initial 2) = Some
    \<lparr>mutex = None, refresh_mutex = None, inited = True, init_ok = True, async_inited = True, async_init_ok = True,
     thread_tid = 3, thread_running = True, thread_do = True,
     pcs = [Ready (Some 0), Ready None, ThrWoken, ThrWait]\<rparr>"
  by (simp add: two_threads_run_def run_defs)

lemma two_threads_state:
  "\<exists>s. reachable {Refresh True, Clear} 2 s \<and> mutex s = None \<and> refresh_mutex s = None \<and> thread_do s \<and>
     thread_running s \<and> pcs s = [Ready (Some 0), Ready None, ThrWoken, ThrWait]"
proof -
  have "\<forall>(t, e)\<in>set two_threads_run. \<forall>c. e = Call c \<longrightarrow> c \<in> {Refresh True, Clear}"
    by (simp add: two_threads_run_def go_def)
  from reachable_from_initial [OF two_threads_end this] show ?thesis by (intro exI conjI; assumption?) simp_all
qed

lemma run_append: "run (es @ fs) s = (case run es s of None \<Rightarrow> None | Some s' \<Rightarrow> run fs s')"
  by (induction es s rule: run.induct) (auto split: option.splits)

lemma hang_state:
  "\<exists>s. reachable {Refresh True, Clear} 2 s \<and> pcs s = [Ready (Some 0), ClrJoin, Exited, ThrWait] \<and> thread_tid s = 3 \<and>
    (\<forall>t<4. blocked s t)"
proof -
  obtain s where s: "run hang_run (sync_initial 2) = Some s"
      "pcs s = [Ready (Some 0), ClrJoin, Exited, ThrWait]" "thread_tid s = 3"
    by (simp add: hang_run_def run_append two_threads_end) (simp add: run_defs)
  moreover have "\<forall>(t, e)\<in>set hang_run. \<forall>c. e = Call c \<longrightarrow> c \<in> {Refresh True, Clear}"
    by (simp add: hang_run_def two_threads_run_def go_def)
  ultimately have "reachable {Refresh True, Clear} 2 s" using reachable_from_initial by blast
  moreover have "blocked s t" if "t < 4" for t
    using s(2,3) that by (auto simp: blocked_def less_Suc_eq numeral_eq_Suc)
  ultimately show ?thesis using s by blast
qed

section \<open>The properties\<close>

text \<open>
  Claim C10. However the threads run, and whichever functions they call: at most one thread at a time reads or writes the
  mapping records (a refresh, synchronous or in a refresh thread, or the freeing part of
  \<open>xh_core_clear\<close>), and at most one at a time changes the queues of hooks and ignores (an insertion, or the freeing part
  of \<open>xh_core_clear\<close>).
\<close>

theorem core_mutual_exclusion:
  assumes "reachable cs n s" and "t < length (pcs s)" "u < length (pcs s)" "t \<noteq> u"
  shows "\<not> (pcs s ! t \<in> {SyncImpl, ThrImpl, ClrFree} \<and> pcs s ! u \<in> {SyncImpl, ThrImpl, ClrFree}) \<and>
    \<not> (pcs s ! t \<in> {RegInsert, ClrFree} \<and> pcs s ! u \<in> {RegInsert, ClrFree})"
  using mx.exclusive [OF assms(1-3)] rmx.exclusive [OF assms(1-3)] assms(4)
  by (auto simp: has_refresh_mutex_def)

text \<open>
  Claim C11. No wake-up is lost: whenever \<open>xh_core_mutex\<close> is free, a refresh has been requested and the refresh thread is
  not told to end, then a thread that sleeps on the condition variable does not sleep alone: a refresh thread is
  awake and will test the request before it sleeps again.
\<close>

theorem core_no_lost_wakeup:
  assumes "reachable cs n s" and "mutex s = None" and "thread_do s" "thread_running s" "waiting s u"
  shows "\<exists>t<length (pcs s). awake (pcs s ! t)"
proof -
  have "ThrWait \<in> set (pcs s)" using assms(5) by (auto simp: waiting_def in_set_conv_nth)
  then obtain t where t: "t < length (pcs s)" "awake (pcs s ! t) \<or> settling (pcs s ! t)"
    using wakeup_ok_reachable [OF assms(1)] assms(3,4) by (auto simp: wakeup_ok_def somewhere_def)
  moreover have "\<not> has_mutex (pcs s ! t)"
    using mx.ok_reachable [OF assms(1)] assms(2) t(1) by (simp add: lock_ok_def del: has_mutex.simps)
  ultimately show ?thesis using settling_has_mutex by blast
qed

text \<open>
  Claim C28. The only way to get stuck is to join: when no thread can move, every thread is at rest or waits in
  \<open>pthread_join\<close>. In particular the order in which \<open>xh_core_clear\<close> takes the two mutexes deadlocks with no other
  function, and runs without \<open>xh_core_clear\<close> never get stuck.
\<close>

theorem core_stuck_only_in_join:
  assumes "reachable cs n s" and "\<forall>u<length (pcs s). blocked s u" and "t < length (pcs s)"
  shows "at_rest (pcs s ! t) \<or> pcs s ! t = ClrJoin"
proof (rule ccontr)
  assume t: "\<not> (at_rest (pcs s ! t) \<or> pcs s ! t = ClrJoin)"
  have why: "\<not> has_mutex (pcs s ! u) \<and> \<not> has_refresh_mutex (pcs s ! u) \<and> mutex s \<noteq> None \<or>
      (has_mutex (pcs s ! u) \<longrightarrow> pcs s ! u = ClrLock2) \<and> \<not> has_refresh_mutex (pcs s ! u) \<and> refresh_mutex s \<noteq> None"
    if "u < length (pcs s)" "\<not> at_rest (pcs s ! u)" "pcs s ! u \<noteq> ClrJoin" for u
    using assms(2) that by (intro advance_blocked [where t = u and p = "pcs s ! u"]) (simp_all add: blocked_def)
  have rest: "\<not> has_mutex p \<and> \<not> has_refresh_mutex p" if "at_rest p \<or> p = ClrJoin" for p
    using that by (cases p) (simp_all add: at_rest_def has_refresh_mutex_def)
  have free: "refresh_mutex s = None"
  proof (rule ccontr)
    assume "refresh_mutex s \<noteq> None"
    then obtain u where "u < length (pcs s)" "has_refresh_mutex (pcs s ! u)"
      using rmx.ok_reachable [OF assms(1)] by (auto simp: lock_ok_def)
    then show False using why rest by blast
  qed
  with why [OF assms(3)] t obtain u where "u < length (pcs s)" "has_mutex (pcs s ! u)"
    using mx.ok_reachable [OF assms(1)] by (auto simp: lock_ok_def simp del: has_mutex.simps)
  then show False using why rest free by blast
qed

text \<open>
  Claim C18. A request is served: whenever a refresh has been requested, the refresh thread is not told to end and both
  mutexes are free, a refresh thread that is awake can, by its own steps alone, take the request and start a refresh.
\<close>

theorem core_request_served:
  assumes "reachable cs n s" and "mutex s = None" "refresh_mutex s = None" and "thread_do s" "thread_running s"
    and "t < length (pcs s)" "awake (pcs s ! t)"
  shows "\<exists>k s'. run (replicate k (t, Go True 0)) s = Some s' \<and> pcs s' ! t = ThrImpl \<and> \<not> thread_do s'"
proof -
  have "\<not> has_mutex (pcs s ! t)" "\<not> has_refresh_mutex (pcs s ! t)"
    using mx.ok_reachable [OF assms(1)] rmx.ok_reachable [OF assms(1)] assms(2,3,6)
    by (simp_all add: lock_ok_def del: has_mutex.simps)
  then consider "pcs s ! t = ThrLoop" | "pcs s ! t = ThrLock" | "pcs s ! t = ThrWoken" | "pcs s ! t = ThrRefreshLock"
    using assms(7) by (cases "pcs s ! t") (auto simp: awake_def has_refresh_mutex_def)
  then show ?thesis
  proof cases
    case 1
    then show ?thesis
      using assms(2-6) by (intro exI [of _ 5]) (simp add: step_def thread_step_simps lock_defs numeral_eq_Suc)
  next
    case 2
    then show ?thesis
      using assms(2-6) by (intro exI [of _ 4]) (simp add: step_def thread_step_simps lock_defs numeral_eq_Suc)
  next
    case 3
    then show ?thesis
      using assms(2-6) by (intro exI [of _ 4]) (simp add: step_def thread_step_simps lock_defs numeral_eq_Suc)
  next
    case 4
    then show ?thesis
      using assms(2-6) by (intro exI [of _ 8]) (simp add: step_def thread_step_simps lock_defs numeral_eq_Suc)
  qed
qed

text \<open>
  Claim C35. The check of \<open>xh_core_inited\<close> in \<open>xh_core_register\<close> does not keep registrations out of a running refresh: it is made
  without the mutex, so that a client that has passed it can insert its hook into the queue while another one
  runs the first refresh, which traverses the queue without \<open>xh_core_mutex\<close>.
\<close>

theorem register_races_refresh:
  "\<exists>s. reachable {Register, Refresh False} 2 s \<and> pcs s = [RegInsert, SyncImpl] \<and> inited s"
  by (rule race_state)

text \<open>
  A refresh can fail although nothing has failed: \<open>xh_core_inited\<close> is set before the initialisation
  is done and read without the mutex, so that a client that refreshes in the meantime finds
  \<open>xh_core_init_ok\<close> still unset and returns \<open>XH_ERRNO_UNKNOWN\<close>, while the initialisation and the other client's refresh succeed.
\<close>

theorem refresh_during_init_fails:
  "\<exists>s. reachable {Refresh False} 2 s \<and> pcs s = [Ready (Some 0), Ready (Some XH_ERRNO_UNKNOWN)] \<and> init_ok s"
proof -
  obtain s where "run spurious_failure_run (sync_initial 2) = Some s"
      "pcs s = [Ready (Some 0), Ready (Some XH_ERRNO_UNKNOWN)]" "init_ok s"
    by (simp add: spurious_failure_run_def run_defs)
  moreover have "\<forall>(t, e)\<in>set spurious_failure_run. \<forall>c. e = Call c \<longrightarrow> c \<in> {Refresh False}"
    by (simp add: spurious_failure_run_def go_def)
  ultimately show ?thesis using reachable_from_initial by blast
qed

text \<open>
  Claim C36. \<open>xh_core_clear\<close> can hang when it runs at the same time as an asynchronous refresh: it reads \<open>xh_core_async_init_ok\<close> without
  the mutex and may so miss a refresh thread that has just been created; with two of them alive, the signal of
  the next \<open>xh_core_clear\<close> wakes one, and \<open>pthread_join\<close> waits for the other, which sleeps for ever. In the
  state that is reached no thread can move any more.
\<close>

theorem clear_can_hang:
  "\<exists>s. reachable {Refresh True, Clear} 2 s \<and> pcs s = [Ready (Some 0), ClrJoin, Exited, ThrWait] \<and> thread_tid s = 3 \<and>
    blocked s 0 \<and> blocked s 1 \<and> blocked s 2 \<and> blocked s 3"
  using hang_state by (auto simp: numeral_eq_Suc)

text \<open>Witnesses: the states of the runs.\<close>

theorem core_mutual_exclusion_witness:
  "\<exists>s :: sync. pcs s = [RegInsert, SyncImpl] \<and>
    \<not> (pcs s ! 0 \<in> {SyncImpl, ThrImpl, ClrFree} \<and> pcs s ! 1 \<in> {SyncImpl, ThrImpl, ClrFree})"
proof -
  obtain s where "reachable {Register, Refresh False} 2 s" and p: "pcs s = [RegInsert, SyncImpl]"
    using race_state by blast
  from core_mutual_exclusion [OF this(1), of 0 1] show ?thesis using p by - (rule exI [of _ s], simp)
qed

theorem core_no_lost_wakeup_witness:
  "\<exists>s :: sync. pcs s = [Ready (Some 0), Ready None, ThrWoken, ThrWait] \<and> (\<exists>t<length (pcs s). awake (pcs s ! t))"
proof -
  obtain s where s: "reachable {Refresh True, Clear} 2 s" "mutex s = None" "thread_do s" "thread_running s"
    and p: "pcs s = [Ready (Some 0), Ready None, ThrWoken, ThrWait]" using two_threads_state by blast
  have "waiting s 3" by (simp add: waiting_def p)
  from core_no_lost_wakeup [OF s this] p show ?thesis by - (rule exI [of _ s], simp)
qed

theorem core_stuck_only_in_join_witness:
  "\<exists>s :: sync. pcs s = [Ready (Some 0), ClrJoin, Exited, ThrWait] \<and> (at_rest (pcs s ! 1) \<or> pcs s ! 1 = ClrJoin)"
proof -
  obtain s where "reachable {Refresh True, Clear} 2 s" and p: "pcs s = [Ready (Some 0), ClrJoin, Exited, ThrWait]"
    and "\<forall>t<4. blocked s t" using hang_state by blast
  then have "\<forall>u<length (pcs s). blocked s u" by simp
  from core_stuck_only_in_join [OF \<open>reachable _ _ s\<close> this, of 1] p show ?thesis by - (rule exI [of _ s], simp)
qed

theorem core_request_served_witness:
  "\<exists>s k s'. pcs s = [Ready (Some 0), Ready None, ThrWoken, ThrWait] \<and>
    run (replicate k (2, Go True 0)) s = Some s' \<and> pcs s' ! 2 = ThrImpl \<and> \<not> thread_do s'"
proof -
  obtain s where s: "reachable {Refresh True, Clear} 2 s" "mutex s = None" "refresh_mutex s = None" "thread_do s"
    "thread_running s" and p: "pcs s = [Ready (Some 0), Ready None, ThrWoken, ThrWait]" using two_threads_state by blast
  have "2 < length (pcs s)" "awake (pcs s ! 2)" by (simp_all add: p awake_def numeral_eq_Suc)
  from core_request_served [OF s this] p show ?thesis by blast
qed

end
