(* ===== verification/GcDaemons.thy ===== *)
theory GcDaemons
  imports Prelude
begin

text \<open>
  \<open>ScopedNoGCDaemons\<close> of \<^verbatim>\<open>src/cpp/art/scoped_thread_state_change.cc\<close>: while an object of the class lives, the daemons of the
  garbage collector are meant to be stopped. The class and its methods come from the JNI; 0 is the null pointer.
\<close>

section \<open>The class\<close>

text \<open>
  The static variables, and the methods of the daemons that have been called. The guard is a \<^verbatim>\<open>long\<close>, of 64 bits in the build that is
  modelled; the atomic operations on it wrap, and it is compared as a signed number.
\<close>

record gc_daemons =
  java_lang_Daemons :: addr
  java_lang_Daemons_start :: addr
  java_lang_Daemons_stop :: addr
  kNoGCDaemonsGuard :: "64 word"
  daemon_calls :: "addr list"

text \<open>\<open>find_class\<close> and \<open>static_method\<close> are the answers of the JNI, \<open>start\<close>, \<open>startPostZygoteFork\<close> and \<open>stop\<close> the names.\<close>

definition Load :: "addr \<Rightarrow> (string \<Rightarrow> addr) \<Rightarrow> gc_daemons \<Rightarrow> gc_daemons" where
  "Load find_class static_method s =
     (let s = s\<lparr>java_lang_Daemons := find_class\<rparr> in
      if find_class = 0 then s
      else let start = static_method ''start'';
               start = (if start = 0 then static_method ''startPostZygoteFork'' else start)
        in s\<lparr>java_lang_Daemons_start := start, java_lang_Daemons_stop := static_method ''stop''\<rparr>)"

text \<open>\<open>CallStaticVoidMethod\<close>; the method must not be null.\<close>

definition call_daemon :: "addr \<Rightarrow> gc_daemons \<Rightarrow> gc_daemons res" where
  "call_daemon method s = (if method = 0 then Inl Undef else Inr (s\<lparr>daemon_calls := daemon_calls s @ [method]\<rparr>))"

definition ScopedNoGCDaemons :: "gc_daemons \<Rightarrow> gc_daemons res" where
  "ScopedNoGCDaemons s =
     (if java_lang_Daemons_start s \<noteq> 0
      then let guard = kNoGCDaemonsGuard s - 1; s = s\<lparr>kNoGCDaemonsGuard := guard\<rparr>
        in if sint guard \<le> 0 then call_daemon (java_lang_Daemons_stop s) s else Inr s
      else Inr s)"

definition ScopedNoGCDaemons_delete :: "gc_daemons \<Rightarrow> gc_daemons res" where
  "ScopedNoGCDaemons_delete s =
     (if java_lang_Daemons_stop s \<noteq> 0
      then let guard = kNoGCDaemonsGuard s + 1; s = s\<lparr>kNoGCDaemonsGuard := guard\<rparr>
        in if guard = 1 then call_daemon (java_lang_Daemons_start s) s else Inr s
      else Inr s)"

section \<open>Scopes\<close>

text \<open>A program constructs and destroys objects; \<open>True\<close> is a construction.\<close>

fun run_scopes :: "bool list \<Rightarrow> gc_daemons \<Rightarrow> gc_daemons res" where
  "run_scopes [] s = Inr s"
| "run_scopes (opened # es) s =
     seqE (if opened then ScopedNoGCDaemons s else ScopedNoGCDaemons_delete s) (run_scopes es)"

text \<open>
  With \<open>n\<close> objects alive, no object is destroyed that has not been constructed, and never more than \<open>bound\<close> objects are alive.
\<close>

fun well_scoped :: "nat \<Rightarrow> nat \<Rightarrow> bool list \<Rightarrow> bool" where
  "well_scoped bound n [] = True"
| "well_scoped bound n (opened # es) =
     (if opened then n < bound \<and> well_scoped bound (Suc n) es else 0 < n \<and> well_scoped bound (n - 1) es)"

definition constructed :: "bool list \<Rightarrow> nat" where
  "constructed es = length (filter id es)"

text \<open>The guard while \<open>n\<close> objects are alive.\<close>

lemma sint_guard: "n \<le> 2 ^ 63 \<Longrightarrow> sint (- of_nat n :: 64 word) = - int n"
proof -
  assume "n \<le> 2 ^ 63"
  then have "int n \<le> 2 ^ 63" by simp
  then have "signed_take_bit 63 (- int n) = - int n" by (intro signed_take_bit_int_eq_self) simp_all
  then show ?thesis using sint_sbintrunc' [of "- int n", where ?'a = 64] by simp
qed

lemma guard_steps:
  "n < 2 ^ 63 \<Longrightarrow> sint (- of_nat n - 1 :: 64 word) \<le> 0" "n \<le> 2 ^ 63 \<Longrightarrow> (- of_nat n :: 64 word) \<noteq> 1"
proof -
  have "- of_nat n - 1 = (- of_nat (Suc n) :: 64 word)" by simp
  then show "n < 2 ^ 63 \<Longrightarrow> sint (- of_nat n - 1 :: 64 word) \<le> 0"
    using sint_guard [of "Suc n"] by (simp del: of_nat_Suc)
  show "n \<le> 2 ^ 63 \<Longrightarrow> (- of_nat n :: 64 word) \<noteq> 1"
  proof
    assume "n \<le> 2 ^ 63" "(- of_nat n :: 64 word) = 1"
    then have "- int n = sint (1 :: 64 word)" using sint_guard [of n] by simp
    then show False by simp
  qed
qed

lemma run_scopes_guard:
  assumes "java_lang_Daemons_start s \<noteq> 0" "java_lang_Daemons_stop s \<noteq> 0" "kNoGCDaemonsGuard s = - of_nat n"
    "well_scoped (2 ^ 63) n es" "n \<le> 2 ^ 63"
  shows "\<exists>s'. run_scopes es s = Inr s' \<and>
    daemon_calls s' = daemon_calls s @ replicate (constructed es) (java_lang_Daemons_stop s)"
  using assms
proof (induction es arbitrary: s n)
  case (Cons opened es)
  show ?case
  proof (cases opened)
    case True
    then have n: "n < 2 ^ 63" using Cons.prems(4) by simp
    let ?s = "s\<lparr>kNoGCDaemonsGuard := - of_nat n - 1, daemon_calls := daemon_calls s @ [java_lang_Daemons_stop s]\<rparr>"
    have "ScopedNoGCDaemons s = Inr ?s"
      using Cons.prems(1-3) guard_steps(1) [OF n] by (simp add: ScopedNoGCDaemons_def call_daemon_def Let_def)
    then show ?thesis
      using Cons.IH [of ?s "Suc n"] Cons.prems True by (simp add: constructed_def algebra_simps)
  next
    case False
    then obtain k where n: "n = Suc k" using Cons.prems(4) by (cases n) auto
    let ?s = "s\<lparr>kNoGCDaemonsGuard := - of_nat k\<rparr>"
    have "ScopedNoGCDaemons_delete s = Inr ?s"
      using Cons.prems(2,3,5) guard_steps(2) [of k] n by (simp add: ScopedNoGCDaemons_delete_def Let_def)
    then show ?thesis
      using Cons.IH [of ?s k] Cons.prems n False by (simp add: constructed_def)
  qed
qed (simp add: constructed_def)

text \<open>
  Claim C39. The guard starts at 0 and is counted down by the constructor, so the destructor never finds it at 1: in every
  program with at most \<open>2 ^ 63\<close> objects alive at a time, each construction stops the daemons, and they are never started again, not even when all objects are
  gone. The bound is where the guard wraps; a real program is below it, since an object holds a pointer.
\<close>

theorem daemons_never_restarted:
  assumes "java_lang_Daemons_start s \<noteq> 0" "java_lang_Daemons_stop s \<noteq> 0" "kNoGCDaemonsGuard s = 0" "daemon_calls s = []"
    and "well_scoped (2 ^ 63) 0 es"
  shows "\<exists>s'. run_scopes es s = Inr s' \<and> daemon_calls s' = replicate (constructed es) (java_lang_Daemons_stop s)"
  using run_scopes_guard [of s 0 es] assms by simp

definition daemons_unloaded :: gc_daemons where
  "daemons_unloaded = \<lparr>java_lang_Daemons = 0, java_lang_Daemons_start = 0, java_lang_Daemons_stop = 0, kNoGCDaemonsGuard = 0, daemon_calls = []\<rparr>"

theorem daemons_never_restarted_witness:
  "\<exists>s'. run_scopes [True, True, False, False, True, False] (Load 1 (\<lambda>name. if name = ''start'' then 2 else 3) daemons_unloaded) = Inr s' \<and>
     daemon_calls s' = [3, 3, 3]"
  using daemons_never_restarted
    [of "Load 1 (\<lambda>name. if name = ''start'' then 2 else 3) daemons_unloaded" "[True, True, False, False, True, False]"]
  by (simp add: Load_def daemons_unloaded_def constructed_def numeral_3_eq_3)

text \<open>The bound is sharp: at the least value of the guard the constructor wraps it, and does not stop the daemons.\<close>

lemma guard_wraps:
  assumes "java_lang_Daemons_start s \<noteq> 0" "sint (kNoGCDaemonsGuard s) = - (2 ^ 63)"
  shows "\<exists>s'. ScopedNoGCDaemons s = Inr s' \<and> sint (kNoGCDaemonsGuard s') = 2 ^ 63 - 1 \<and> daemon_calls s' = daemon_calls s"
proof -
  have "sint (kNoGCDaemonsGuard s - 1) = 2 ^ 63 - 1"
    unfolding sint_word_diff assms(2) by (simp add: signed_take_bit_eq_take_bit_shift take_bit_eq_mod)
  then show ?thesis using assms(1) by (simp add: ScopedNoGCDaemons_def Let_def)
qed

end
