(* ===== verification/Spec2Isabelle.thy ===== *)
theory Spec2Isabelle
  imports PackedFormat RbOrder OnLoad SyncProps ElfToolProps GcDaemons JniEnv
begin

text \<open>
  Verification of ArtHook: a library for Android that redirects functions of native libraries (xHook, in C, under
  \<^verbatim>\<open>src/cpp/xhook\<close>) and methods of the Java runtime (in C++, under \<^verbatim>\<open>src/cpp/art\<close>, \<^verbatim>\<open>src/cpp/elf\<close> and
  \<^verbatim>\<open>src/cpp/base\<close>). The model is the 64-bit little-endian build for AArch64 and x86-64.

  \<^bold>\<open>The program.\<close>
  A client registers a symbol, a new function and a regular expression for path names with \<^verbatim>\<open>xhook_register\<close>; hooks go into a
  tail queue, exceptions to them (\<^verbatim>\<open>xhook_ignore\<close>) into another. \<^verbatim>\<open>xhook_refresh\<close> reads \<^verbatim>\<open>/proc/self/maps\<close>, decides
  for each file whether it is wanted, checks its ELF header, keeps a record of it in a red-black tree, and hooks it if it is
  new or has moved: the dynamic section of the mapped image is read, the symbol is looked up in its hash table, and each slot
  that the relocation tables name for the symbol gets the new function, after its page has been made writable. All reading of foreign
  images is done with a SIGSEGV handler installed. A refresh may be left to a thread of its own. On the Java side, the
  initialiser of the library, run in the zygote, hooks \<^verbatim>\<open>JNI_CreateJavaVM\<close> with xHook; when the virtual machine has been
  created, the layout of a method in memory is computed from two known methods, the symbols of the runtime are read from the
  section headers of the file of \<^verbatim>\<open>libart.so\<close>, and \<^verbatim>\<open>callApplicationOnCreate\<close> is hooked by rewriting the method.

  \<^bold>\<open>State and effects.\<close>
  \<open>Prelude\<close> has the machine types, the ways a computation ends abnormally (\<open>trap\<close>: a fault, which xHook can
  catch; undefined behaviour; running forever) and the error numbers of \<^verbatim>\<open>xh_errno.h\<close>. \<open>Memory\<close> has the process image
  \<open>world\<close>: one byte and one protection per address; loads and stores check the protection. \<open>Effects\<close> has the computations that
  change a state and may trap. Pointers are 64-bit addresses and \<open>NULL\<close> is 0, so aliasing, wrap-around and faults are those of the code.

  \<^bold>\<open>xHook, bottom up.\<close>
  \<^item> \<open>Sleb128\<close>, \<open>RelocIter\<close>: the decoder and the iterators over plain and packed tables of \<^verbatim>\<open>xh_elf.c\<close>;
    \<open>PackedFormat\<close>: the format as a specification, and the round trip.
  \<^item> \<open>ElfHash\<close>: the hash functions of \<^verbatim>\<open>xh_elf.c\<close> and \<^verbatim>\<open>elf_image.cc\<close>, and their equivalence with the System V ABI.
  \<^item> \<open>ElfFile\<close>: header check and \<open>xh_elf_init\<close>; \<open>ElfInit\<close>: what a successful initialisation leaves. \<open>ElfLookup\<close>: the
    lookups; \<open>LookupSpec\<close>: tables that are well-formed, over which the lookup is sound and complete.
  \<^item> \<open>Maps\<close>, \<open>Protect\<close>: \<open>fgets\<close> and \<open>sscanf\<close> on lines of the kernel, and \<^verbatim>\<open>xh_util.c\<close>.
  \<^item> \<open>ElfHook\<close>: replacing a slot and hooking an image. \<open>ReplaceSpec\<close>, \<open>HookSpec\<close>, \<open>HookProps\<close>: what they write, that an
    interrupted hook is still a sequence of replacements, and that a hook with a working kernel succeeds.
  \<^item> \<open>RbTree\<close>, \<open>RbProofs\<close>, \<open>RbOrder\<close>: the functions \<open>RB_GENERATE\<close> makes from \<^verbatim>\<open>tree.h\<close>, as zippers;
    \<open>Tailq\<close>: the queue of \<^verbatim>\<open>queue.h\<close> with its pointers. The locales \<open>comparison\<close> and \<open>fifo\<close> are what
    \<^verbatim>\<open>xh_core.c\<close> relies on; \<open>MapInfo\<close> and \<open>Tailq\<close> interpret them.
  \<^item> \<open>Core\<close>: globals, registration, handler and switches of \<^verbatim>\<open>xh_core.c\<close>; \<open>Refresh\<close>: refresh and clear. \<open>CoreSpec\<close> has the
    invariant \<open>core_ok\<close> (queues, tree and ownership of every block of the heap), \<open>RefreshSpec\<close> the abstract refresh over maps from path names to addresses;
    \<open>RefreshProps\<close> the refinement and the other properties.
  \<^item> \<open>CoreSync\<close>, \<open>SyncProps\<close>: the threads of \<^verbatim>\<open>xh_core.c\<close> as a step relation, with locks, the condition variable, creation and join.
  \<^item> \<open>XHook\<close>: \<^verbatim>\<open>xhook.c\<close>, \<^verbatim>\<open>xh_jni.c\<close>, \<^verbatim>\<open>xh_version.c\<close>, and the promise of the whole: registration and refresh hook every matching library.

  \<^bold>\<open>The Java side.\<close>
  \<^item> \<open>ElfImage\<close>: the parser of section headers (\<^verbatim>\<open>elf_image.cc\<close>); \<open>ElfImageSpec\<close>, \<open>ElfImageLookup\<close>,
    \<open>ElfImageProps\<close>: what it leaves and finds, and where it goes wrong.
  \<^item> \<open>ProcessMap\<close>, \<open>ElfTool\<close>, \<open>ElfToolProps\<close>: \<^verbatim>\<open>process_map.cc\<close>, opening of a file, \<open>DlOpen\<close> and \<open>DlSym\<close>.
  \<^item> \<open>ArtState\<close>: the static variables of all files of this side, the functions they call, and runs over them.
    \<open>JniEnv\<close>: \<^verbatim>\<open>jni_helper.cpp\<close> and \<^verbatim>\<open>thread.cpp\<close>, by which every other file gets at the JNI environment and the thread.
  \<^item> \<open>CxxHelper\<close>, \<open>ArtSymbol\<close>, \<open>ArtMethod\<close>: \<^verbatim>\<open>cxx_helper.h\<close>, \<^verbatim>\<open>ARTSymbol.cpp\<close>, \<^verbatim>\<open>native_load.cpp\<close> and
    \<^verbatim>\<open>ArtMethod.cpp\<close>. \<open>ArtSpec\<close> is the abstract view of a method as a record of its fields, over which \<open>ArtHookSpec\<close>,
    \<open>ArtHook\<close> and \<open>ArtInvoke\<close> give a rule per operation; \<open>ArtProps\<close>, \<open>ArtInit\<close>, \<open>ArtResolve\<close> the properties.
  \<^item> \<open>GcDaemons\<close>, \<open>ProcessName\<close>: \<^verbatim>\<open>scoped_thread_state_change.cc\<close> and the test for the zygote.
  \<^item> \<open>NativeStart\<close>: the start in the zygote, where both halves run on the same memory; \<open>OnLoad\<close>: \<^verbatim>\<open>JNI_OnLoad\<close> and
    the demos of \<^verbatim>\<open>test.cpp\<close>.

  \<^bold>\<open>Parameters.\<close>
  What is not in the repository is an argument of the model: the kernel (\<open>os\<close>: the text of the mappings and \<open>mprotect\<close>), regular expressions,
  \<open>malloc\<close>, signals and thread creation (\<open>env\<close>), \<open>fopen\<close> and \<open>mmap\<close> (\<open>file_os\<close>), the runtime, the JNI and the contents
  of uninitialised objects (\<open>art_env\<close>). The JNI is reached through the environment that \<open>GetJniEnv\<close> returns: opening \<^verbatim>\<open>libandroid_runtime.so\<close> and
  looking \<open>getJNIEnv\<close> up are modelled, the function itself is a parameter that may return null, and the first call through a null environment faults; a
  null handle is undefined behaviour. Hypotheses about them are named predicates such as \<open>mprotect_works\<close>, \<open>os_lists\<close>, \<open>libart_ok\<close> or \<open>jni_ok\<close>, and each theorem that
  has one is applied to a concrete instance.

  \<^bold>\<open>Bounds.\<close>
  Loops over memory that need not end have a bound, and running out of it is the trap \<open>Diverge\<close>. The lookups of \<^verbatim>\<open>xh_elf.c\<close> step through 32-bit
  indices, those over the GNU chains of \<^verbatim>\<open>elf_image.cc\<close> through 64-bit ones; the bounds are \<open>2 ^ 32\<close> and \<open>2 ^ 64\<close>: a loop
  that has not ended when the index is back never does, which \<open>walk_bound\<close> shows of any walk on a finite type and \<open>lookup_fuel_exact\<close> of the loops of
  \<^verbatim>\<open>xh_elf.c\<close>; for which images the System V loop never ends is a theorem of \<open>ElfLookup\<close>. A traversal of a queue has the number of allocations so far, and one of the tree the number of its elements, which
  \<open>CoreSpec\<close> shows to be enough; the other loops end by a measure or follow a list.

  \<^bold>\<open>Not modelled.\<close>
  Logging and the dumps that are compiled only for debugging; \<^verbatim>\<open>JitCompiler.cpp\<close> (calls into code outside the repository,
  whose result nothing uses) and the registration of two empty native methods at the end of \<^verbatim>\<open>JNI_OnLoad\<close>; the other lists and macros of
  \<^verbatim>\<open>queue.h\<close> and the splay trees of \<^verbatim>\<open>tree.h\<close>, which nothing uses; the 32-bit builds. Within \<open>CoreSync\<close> the work
  done under the locks is one step, and its effect is that of \<open>Refresh\<close>.
\<close>

end
